(* ===== verification/Prelude.thy ===== *)
theory Prelude
  imports Main "HOL-Library.Word" "HOL-Library.Sublist"
begin

text \<open>
  The shared vocabulary of the development: bytes, the fragments of the Rust standard library
  that the modelled code calls on strings and collections, and the generic list lemmas that the
  components share. A Rust \<open>String\<close> is the list of its UTF-8 bytes (a HOL \<open>string\<close>, whose
  characters are bytes); a byte buffer \<open>Vec<u8>\<close> is a list of 8-bit words. Unsigned counters whose
  overflow cannot matter are natural numbers; where a width matters it is written out.
\<close>

unbundle bit_operations_syntax

type_synonym byte = "8 word"

text \<open>Collections the component theories add to.\<close>

named_theorems guard_simps "branch equations of guarded operations"
named_theorems inv_intros "introduction rules for component invariants"
named_theorems frame_simps "fields an operation leaves alone"

section \<open>Strings\<close>

definition bytes_of :: "string \<Rightarrow> byte list" where
  "bytes_of s = map of_char s"

lemma length_bytes_of [simp]: "length (bytes_of s) = length s"
  by (simp add: bytes_of_def)

definition starts_with :: "'a list \<Rightarrow> 'a list \<Rightarrow> bool" where
  "starts_with s p \<longleftrightarrow> take (length p) s = p"

lemma starts_with_iff_prefix: "starts_with s p \<longleftrightarrow> prefix p s"
  by (auto simp: starts_with_def prefix_def)
    (metis append_take_drop_id)

fun contains_sub :: "'a list \<Rightarrow> 'a list \<Rightarrow> bool" where
  "contains_sub [] p = (p = [])"
| "contains_sub (x # xs) p = (starts_with (x # xs) p \<or> contains_sub xs p)"

definition strip_prefix :: "'a list \<Rightarrow> 'a list \<Rightarrow> 'a list option" where
  "strip_prefix p s = (if starts_with s p then Some (drop (length p) s) else None)"

lemma strip_prefix_append [simp]: "strip_prefix p (p @ s) = Some s"
  by (simp add: strip_prefix_def starts_with_def)

fun split_once :: "'a \<Rightarrow> 'a list \<Rightarrow> ('a list \<times> 'a list) option" where
  "split_once d [] = None"
| "split_once d (x # xs) =
     (if x = d then Some ([], xs) else map_option (\<lambda>(a, b). (x # a, b)) (split_once d xs))"

lemma split_once_SomeD: "split_once d s = Some (a, b) \<Longrightarrow> s = a @ d # b \<and> d \<notin> set a"
  by (induction s arbitrary: a b) (auto split: if_splits)

lemma split_once_append: "d \<notin> set a \<Longrightarrow> split_once d (a @ d # b) = Some (a, b)"
  by (induction a) auto

definition split_last :: "'a \<Rightarrow> 'a list \<Rightarrow> ('a list \<times> 'a list) option" where
  "split_last d s = map_option (\<lambda>(a, b). (rev b, rev a)) (split_once d (rev s))"

lemma split_last_SomeD: "split_last d s = Some (a, b) \<Longrightarrow> s = a @ d # b \<and> d \<notin> set b"
  by (auto simp: split_last_def dest!: split_once_SomeD) (metis rev_append rev_rev_ident rev.simps(2) append.assoc append_Cons append_Nil)

lemma split_once_None: "split_once d s = None \<longleftrightarrow> d \<notin> set s"
  by (induction s) (auto split: option.splits)

lemma split_last_None: "split_last d s = None \<longleftrightarrow> d \<notin> set s"
  by (simp add: split_last_def split_once_None)

fun split_on :: "'a \<Rightarrow> 'a list \<Rightarrow> 'a list list" where
  "split_on d [] = [[]]"
| "split_on d (x # xs) =
     (if x = d then [] # split_on d xs
      else (case split_on d xs of [] \<Rightarrow> [[x]] | y # ys \<Rightarrow> (x # y) # ys))"

text \<open>
  \<open>str::trim\<close> removes leading and trailing characters with the Unicode property White_Space.
  On UTF-8 bytes that is: strip any of these byte sequences at the front, and their reversals
  at the front of the reversed string.
\<close>

definition ws_seqs :: "string list" where
  "ws_seqs = map (map (char_of :: nat \<Rightarrow> char))
     ([[9], [10], [11], [12], [13], [32], [194, 133], [194, 160], [225, 154, 128]]
      @ map (\<lambda>b. [226, 128, b]) [128, 129, 130, 131, 132, 133, 134, 135, 136, 137, 138, 168, 169, 175]
      @ [[226, 129, 159], [227, 128, 128]])"

fun strip_seqs :: "nat \<Rightarrow> string list \<Rightarrow> string \<Rightarrow> string" where
  "strip_seqs 0 ws s = s"
| "strip_seqs (Suc n) ws s =
     (case find (starts_with s) ws of
        None \<Rightarrow> s
      | Some w \<Rightarrow> strip_seqs n ws (drop (length w) s))"

definition trim_start :: "string \<Rightarrow> string" where
  "trim_start s = strip_seqs (length s) ws_seqs s"

definition trim_end :: "string \<Rightarrow> string" where
  "trim_end s = rev (strip_seqs (length s) (map rev ws_seqs) (rev s))"

definition trim :: "string \<Rightarrow> string" where
  "trim s = trim_end (trim_start s)"

text \<open>The number of Unicode scalar values: every byte but the UTF-8 continuation bytes.\<close>

definition char_count :: "string \<Rightarrow> nat" where
  "char_count s = length (filter (\<lambda>c. \<not> (128 \<le> (of_char c :: nat) \<and> (of_char c :: nat) < 192)) s)"

lemma length_strip_seqs: "length (strip_seqs n ws s) \<le> length s"
proof (induction n arbitrary: s)
  case 0
  then show ?case by simp
next
  case (Suc n)
  show ?case
  proof (cases "find (starts_with s) ws")
    case None
    then show ?thesis by simp
  next
    case (Some w)
    have "length (strip_seqs n ws (drop (length w) s)) \<le> length (drop (length w) s)"
      by (rule Suc.IH)
    with Some show ?thesis by simp
  qed
qed

lemma length_trim: "length (trim s) \<le> length s"
proof -
  have "length (trim s) \<le> length (trim_start s)"
    using length_strip_seqs [of _ _ "rev (trim_start s)"] by (simp add: trim_def trim_end_def)
  also have "\<dots> \<le> length s"
    by (simp add: trim_start_def length_strip_seqs)
  finally show ?thesis .
qed

lemma trim_Nil [simp]: "trim [] = []"
  by (simp add: trim_def trim_start_def trim_end_def)

lemma strip_seqs_suffix: "\<exists>p. s = p @ strip_seqs n ws s"
proof (induction n arbitrary: s)
  case 0
  then show ?case by simp
next
  case (Suc n)
  show ?case
  proof (cases "find (starts_with s) ws")
    case None
    then show ?thesis by simp
  next
    case (Some w)
    obtain p where "drop (length w) s = p @ strip_seqs n ws (drop (length w) s)"
      using Suc.IH by blast
    then have "s = (take (length w) s @ p) @ strip_seqs n ws (drop (length w) s)"
      by (metis append.assoc append_take_drop_id)
    with Some show ?thesis by (metis (no_types, lifting) strip_seqs.simps(2) option.simps(5))
  qed
qed

lemma trim_infix: "\<exists>p q. s = p @ trim s @ q"
proof -
  obtain p where p: "s = p @ trim_start s"
    using strip_seqs_suffix by (metis trim_start_def)
  obtain q where "rev (trim_start s) = q @ rev (trim s)"
    using strip_seqs_suffix [of "rev (trim_start s)"] by (auto simp: trim_def trim_end_def)
  then have "trim_start s = trim s @ rev q"
    by (metis rev_append rev_rev_ident)
  with p show ?thesis by metis
qed

lemma set_trim: "set (trim s) \<subseteq> set s"
  using trim_infix [of s] by (metis set_append Un_upper1 Un_upper2 le_supI2 order.trans)

text \<open>A string without space at either end is its own trimming; printable ASCII has none.\<close>

definition graphic :: "char \<Rightarrow> bool" where
  "graphic c \<longleftrightarrow> 33 \<le> (of_char c :: nat) \<and> (of_char c :: nat) < 127"

lemma ws_seqs_not_graphic:
  "\<forall>w\<in>set ws_seqs. w \<noteq> [] \<and> \<not> graphic (hd w) \<and> \<not> graphic (last w)"
  by (simp add: ws_seqs_def graphic_def)

lemma strip_seqs_graphic:
  assumes "s = [] \<or> graphic (hd s)" and "\<forall>w\<in>set ws. w \<noteq> [] \<and> \<not> graphic (hd w)"
  shows "strip_seqs n ws s = s"
proof -
  have "find (starts_with s) ws = None"
  proof (rule ccontr)
    assume "find (starts_with s) ws \<noteq> None"
    then obtain w where w: "w \<in> set ws" "starts_with s w"
      by (auto simp: find_None_iff)
    then have "s \<noteq> []" "hd s = hd w"
      using assms(2) by (auto simp: starts_with_iff_prefix prefix_def)
    with w assms show False by auto
  qed
  then show ?thesis by (cases n) simp_all
qed

lemma trim_graphic:
  assumes "s = [] \<or> graphic (hd s) \<and> graphic (last s)"
  shows "trim s = s"
proof -
  have "trim_start s = s"
    using assms ws_seqs_not_graphic by (auto simp: trim_start_def intro!: strip_seqs_graphic)
  moreover have "strip_seqs (length s) (map rev ws_seqs) (rev s) = rev s"
    using assms ws_seqs_not_graphic by (intro strip_seqs_graphic) (auto simp: hd_rev)
  ultimately show ?thesis by (simp add: trim_def trim_end_def)
qed

text \<open>Decimal rendering, as \<open>format!("{n}")\<close> prints an unsigned integer.\<close>

fun show_nat :: "nat \<Rightarrow> string" where
  "show_nat n = (if n < 10 then [char_of (48 + n)] else show_nat (n div 10) @ [char_of (48 + n mod 10)])"

declare show_nat.simps [simp del]

definition digit_val :: "char \<Rightarrow> nat option" where
  "digit_val c = (let n = of_char c in if 48 \<le> n \<and> n \<le> (57::nat) then Some (n - 48) else None)"

text \<open>
  \<open>uN::from_str\<close>: an optional leading plus sign, at least one decimal digit, no overflow.
\<close>

fun digits_val :: "nat \<Rightarrow> nat \<Rightarrow> string \<Rightarrow> nat option" where
  "digits_val bound acc [] = (if acc < bound then Some acc else None)"
| "digits_val bound acc (c # cs) =
     (case digit_val c of None \<Rightarrow> None | Some d \<Rightarrow> digits_val bound (10 * acc + d) cs)"

definition parse_uint :: "nat \<Rightarrow> string \<Rightarrow> nat option" where
  "parse_uint w s =
     (let ds = (if starts_with s ''+'' then tl s else s)
      in if ds = [] then None else digits_val (2 ^ w) 0 ds)"

text \<open>\<open>u64::from_str_radix(s, 16)\<close>: the same shape with hexadecimal digits of either case.\<close>

definition hex_val :: "char \<Rightarrow> nat option" where
  "hex_val c =
     (let n = of_char c in
      if 48 \<le> n \<and> n \<le> (57::nat) then Some (n - 48)
      else if 97 \<le> n \<and> n \<le> 102 then Some (n - 87)
      else if 65 \<le> n \<and> n \<le> 70 then Some (n - 55)
      else None)"

fun hex_digits_val :: "nat \<Rightarrow> nat \<Rightarrow> string \<Rightarrow> nat option" where
  "hex_digits_val bound acc [] = (if acc < bound then Some acc else None)"
| "hex_digits_val bound acc (c # cs) =
     (case hex_val c of None \<Rightarrow> None | Some d \<Rightarrow> hex_digits_val bound (16 * acc + d) cs)"

definition parse_hex :: "nat \<Rightarrow> string \<Rightarrow> nat option" where
  "parse_hex w s =
     (let ds = (if starts_with s ''+'' then tl s else s)
      in if ds = [] then None else hex_digits_val (2 ^ w) 0 ds)"

text \<open>Hexadecimal rendering, as \<open>format!("{n:x}")\<close> prints an unsigned integer.\<close>

definition hex_digit :: "nat \<Rightarrow> char" where
  "hex_digit d = char_of (if d < 10 then 48 + d else 87 + d)"

fun show_hex :: "nat \<Rightarrow> string" where
  "show_hex n = (if n < 16 then [hex_digit n] else show_hex (n div 16) @ [hex_digit (n mod 16)])"

declare show_hex.simps [simp del]

lemma hex_val_digit [simp]: "d < 16 \<Longrightarrow> hex_val (hex_digit d) = Some d"
  by (auto simp: hex_val_def hex_digit_def Let_def)

lemma graphic_hex_digit [simp]: "d < 16 \<Longrightarrow> graphic (hex_digit d)"
  by (auto simp: graphic_def hex_digit_def)

lemma set_show_hex: "c \<in> set (show_hex n) \<Longrightarrow> \<exists>d<16. c = hex_digit d"
proof (induction n rule: show_hex.induct)
  case (1 n)
  show ?case
  proof (cases "n < 16")
    case True
    with "1.prems" show ?thesis by (auto simp: show_hex.simps [of n])
  next
    case False
    with "1.prems" have "c \<in> set (show_hex (n div 16)) \<or> c = hex_digit (n mod 16)"
      by (auto simp: show_hex.simps [of n])
    then show ?thesis using "1.IH" [OF False] by (auto intro: exI [of _ "n mod 16"])
  qed
qed

lemma show_hex_not_Nil [simp]: "show_hex n \<noteq> []"
  by (subst show_hex.simps) simp

lemma foldl_show_hex: "foldl (\<lambda>a c. 16 * a + the (hex_val c)) 0 (show_hex n) = n"
proof (induction n rule: show_hex.induct)
  case (1 n)
  then show ?case by (subst show_hex.simps) (auto simp: mult.commute)
qed

lemma hex_digits_val_foldl:
  "\<forall>c\<in>set s. hex_val c \<noteq> None \<Longrightarrow>
     hex_digits_val b acc s =
       (let n = foldl (\<lambda>a c. 16 * a + the (hex_val c)) acc s in if n < b then Some n else None)"
  by (induction s arbitrary: acc) (auto simp: Let_def split: option.split)

lemma parse_show_hex: "n < 2 ^ w \<Longrightarrow> parse_hex w (show_hex n) = Some n"
proof -
  assume n: "n < 2 ^ w"
  have "\<not> starts_with (show_hex n) ''+''"
  proof
    assume "starts_with (show_hex n) ''+''"
    then have "CHR ''+'' \<in> set (show_hex n)"
      by (cases "show_hex n") (auto simp: starts_with_def)
    then obtain d where "d < 16" "hex_digit d = CHR ''+''" using set_show_hex by metis
    then have "hex_val CHR ''+'' = Some d" by (metis hex_val_digit)
    then show False by (simp add: hex_val_def)
  qed
  moreover have "\<forall>c\<in>set (show_hex n). hex_val c \<noteq> None"
    using set_show_hex by fastforce
  ultimately show ?thesis
    using n by (simp add: parse_hex_def hex_digits_val_foldl foldl_show_hex)
qed

lemma length_show_hex: "n < 16 ^ k \<Longrightarrow> 0 < k \<Longrightarrow> length (show_hex n) \<le> k"
proof (induction n arbitrary: k rule: show_hex.induct)
  case (1 n)
  show ?case
  proof (cases "n < 16")
    case True
    with 1 show ?thesis by (subst show_hex.simps) simp
  next
    case False
    with "1.prems" obtain j where k: "k = Suc j" "0 < j"
      by (cases k; cases "k - 1") auto
    have "n div 16 < 16 ^ j" using "1.prems"(1) k by (simp add: less_mult_imp_div_less mult.commute)
    then have "length (show_hex (n div 16)) \<le> j" using "1.IH" False k by blast
    with False k show ?thesis by (subst show_hex.simps) simp
  qed
qed

text \<open>Well-formed UTF-8 (\<open>str::from_utf8\<close>), on the values of the bytes.\<close>

definition utf8_cont :: "nat \<Rightarrow> bool" where
  "utf8_cont b \<longleftrightarrow> 128 \<le> b \<and> b < 192"

fun utf8_valid :: "nat list \<Rightarrow> bool" where
  "utf8_valid [] = True"
| "utf8_valid (a # xs) =
     (if a < 128 then utf8_valid xs
      else if 194 \<le> a \<and> a \<le> 223 then
        (case xs of b # ys \<Rightarrow> utf8_cont b \<and> utf8_valid ys | _ \<Rightarrow> False)
      else if 224 \<le> a \<and> a \<le> 239 then
        (case xs of
           b # c # ys \<Rightarrow>
             utf8_cont b \<and> (a = 224 \<longrightarrow> 160 \<le> b) \<and> (a = 237 \<longrightarrow> b < 160) \<and> utf8_cont c \<and> utf8_valid ys
         | _ \<Rightarrow> False)
      else if 240 \<le> a \<and> a \<le> 244 then
        (case xs of
           b # c # d # ys \<Rightarrow>
             utf8_cont b \<and> (a = 240 \<longrightarrow> 144 \<le> b) \<and> (a = 244 \<longrightarrow> b < 144) \<and>
             utf8_cont c \<and> utf8_cont d \<and> utf8_valid ys
         | _ \<Rightarrow> False)
      else False)"

declare utf8_valid.simps [simp del]

lemma utf8_valid_ascii: "\<forall>x\<in>set xs. x < 128 \<Longrightarrow> utf8_valid xs"
  by (induction xs) (simp_all add: utf8_valid.simps)

definition str_from_utf8 :: "byte list \<Rightarrow> string option" where
  "str_from_utf8 bs =
     (if utf8_valid (map unat bs) then Some (map (\<lambda>b. char_of (unat b)) bs) else None)"

lemma unat_of_char_byte [simp]: "unat (of_char c :: byte) = of_char c"
proof -
  have "(of_char c :: byte) = of_nat (of_char c)"
    by (cases c) (simp add: of_char_def horner_sum_simps of_bool_def)
  moreover have "(of_char c :: nat) < 256" by simp
  ultimately show ?thesis by (simp add: unat_of_nat take_bit_nat_eq_self)
qed

lemma str_from_utf8_ascii:
  assumes "\<forall>c\<in>set s. (of_char c :: nat) < 128"
  shows "str_from_utf8 (bytes_of s) = Some s"
proof -
  have "utf8_valid (map of_char s)"
    using assms by (intro utf8_valid_ascii) auto
  moreover have "map unat (bytes_of s) = map of_char s"
    by (simp add: bytes_of_def)
  moreover have "map (\<lambda>b. char_of (unat b)) (bytes_of s) = s"
    by (simp add: bytes_of_def map_idI)
  ultimately show ?thesis by (simp add: str_from_utf8_def)
qed

section \<open>Lists and lookups\<close>

text \<open>
  \<open>iter().find(|x| key(x) == k)\<close> over a vector, and the map a \<open>HashMap\<close> built by \<open>collect()\<close>
  denotes: of two pairs with one key the later wins.
\<close>

definition find_key :: "('a \<Rightarrow> 'k) \<Rightarrow> 'k \<Rightarrow> 'a list \<Rightarrow> 'a option" where
  "find_key f k xs = find (\<lambda>x. f x = k) xs"

definition hash_map :: "('k \<times> 'v) list \<Rightarrow> 'k \<rightharpoonup> 'v" where
  "hash_map kvs = map_of (rev kvs)"

lemma find_key_Nil [simp]: "find_key f k [] = None"
  by (simp add: find_key_def)

lemma find_key_Cons [simp]:
  "find_key f k (x # xs) = (if f x = k then Some x else find_key f k xs)"
  by (simp add: find_key_def)

lemma find_key_SomeD: "find_key f k xs = Some x \<Longrightarrow> x \<in> set xs \<and> f x = k"
  by (induction xs) (auto split: if_splits)

lemma find_key_None_iff: "find_key f k xs = None \<longleftrightarrow> k \<notin> f ` set xs"
  by (induction xs) auto

lemma find_key_distinct:
  "distinct (map f xs) \<Longrightarrow> x \<in> set xs \<Longrightarrow> find_key f (f x) xs = Some x"
proof (induction xs)
  case Nil
  then show ?case by simp
next
  case (Cons y ys)
  show ?case
  proof (cases "f y = f x")
    case True
    have "y = x"
    proof (rule ccontr)
      assume "y \<noteq> x"
      with Cons.prems have "x \<in> set ys" by auto
      then have "f x \<in> set (map f ys)" by simp
      with Cons.prems True show False by simp
    qed
    with True show ?thesis by simp
  next
    case False
    with Cons show ?thesis by auto
  qed
qed

lemma hash_map_distinct:
  "distinct (map fst kvs) \<Longrightarrow> hash_map kvs = map_of kvs"
  unfolding hash_map_def
  by (rule map_of_eqI) (auto simp: rev_map [symmetric] intro!: map_of_is_SomeI [THEN map_of_SomeD])

lemma hash_map_None_iff: "hash_map kvs k = None \<longleftrightarrow> k \<notin> fst ` set kvs"
  by (simp add: hash_map_def map_of_eq_None_iff)

lemma hash_map_SomeD: "hash_map kvs k = Some v \<Longrightarrow> (k, v) \<in> set kvs"
  by (auto simp: hash_map_def dest: map_of_SomeD)

text \<open>The first index that satisfies a predicate, as \<open>iter().position(..)\<close> returns it.\<close>

fun position :: "('a \<Rightarrow> bool) \<Rightarrow> 'a list \<Rightarrow> nat option" where
  "position P [] = None"
| "position P (x # xs) = (if P x then Some 0 else map_option Suc (position P xs))"

lemma position_SomeD:
  "position P xs = Some i \<Longrightarrow> i < length xs \<and> P (xs ! i) \<and> (\<forall>j<i. \<not> P (xs ! j))"
proof (induction xs arbitrary: i)
  case Nil
  then show ?case by simp
next
  case (Cons x xs)
  then show ?case
    by (auto split: if_splits simp: nth_Cons' less_Suc_eq_0_disj)
qed

lemma position_None_iff: "position P xs = None \<longleftrightarrow> (\<forall>x\<in>set xs. \<not> P x)"
  by (induction xs) auto

lemma take_add_drop: "take m xs @ take n (drop m xs) = take (m + n) xs"
  by (simp add: take_add)

lemma drop_append_le: "n \<le> length xs \<Longrightarrow> drop n (xs @ ys) = drop n xs @ ys"
  by simp

lemma take_append_le: "n \<le> length xs \<Longrightarrow> take n (xs @ ys) = take n xs"
  by simp

lemma nth_append_lt: "n < length xs \<Longrightarrow> (xs @ ys) ! n = xs ! n"
  by (simp add: nth_append)

lemma unat_byte_lt: "unat (b :: byte) < 256"
  using unsigned_less [of b] by simp

end
