(* ===== verification/Core_Types.thy ===== *)
theory Core_Types
  imports Prelude
begin

text \<open>
  Data types of \<open>crates/rustyice-core\<close>: codec identifiers, stream packets and statistics
  (\<open>types.rs\<close>), the error enums (\<open>error.rs\<close>) and the configuration tree with its lookups and its
  validation (\<open>config.rs\<close>). Numeric configuration fields are natural numbers: the TOML and JSON
  readers reject values outside the Rust width, and the places that convert or saturate write
  it out. A socket address is opaque text here: the code only compares and prints it.
\<close>

section \<open>types.rs\<close>

datatype codec_id = MP3 | OPUS | VORBIS | FLAC | AAC | WAV

fun codec_as_str :: "codec_id \<Rightarrow> string" where
  "codec_as_str MP3 = ''mp3''"
| "codec_as_str OPUS = ''opus''"
| "codec_as_str VORBIS = ''vorbis''"
| "codec_as_str FLAC = ''flac''"
| "codec_as_str AAC = ''aac''"
| "codec_as_str WAV = ''wav''"

lemma codec_as_str_inj: "codec_as_str a = codec_as_str b \<longleftrightarrow> a = b"
  by (cases a; cases b) simp_all

record codec_info =
  ci_id :: codec_id
  ci_sample_rate :: nat
  ci_channels :: nat
  ci_bitrate_kbps :: "nat option"

text \<open>
  Decoded samples are 32-bit floats the modelled code only stores, counts and passes on, so a
  sample is its bit pattern.
\<close>

type_synonym sample = "32 word"

record pcm_frame =
  pf_samples :: "sample list"
  pf_sample_rate :: nat
  pf_channels :: nat

record encoded_packet =
  ep_codec :: codec_id
  ep_data :: "byte list"

datatype audio_payload = Encoded encoded_packet | Decoded pcm_frame

text \<open>\<open>pts\<close> is a \<open>Duration\<close>; the model keeps it in nanoseconds.\<close>

record stream_packet =
  sp_payload :: audio_payload
  sp_pts :: nat
  sp_sequence :: nat

record source_stats =
  ss_bytes_received :: nat
  ss_packets_published :: nat
  ss_duration :: nat

definition default_source_stats :: source_stats where
  "default_source_stats = \<lparr>ss_bytes_received = 0, ss_packets_published = 0, ss_duration = 0\<rparr>"

datatype disconnect_reason = ClientDisconnected | SlowListener | Kicked | SourceEnded | ShuttingDown

record listener_stats =
  ls_bytes_sent :: nat
  ls_duration :: nat
  ls_disconnect_reason :: disconnect_reason

section \<open>error.rs\<close>

datatype codec_error = Unsupported | InvalidData string

datatype ingest_error = IngestIo string | MountBusy | IngestCancelled | TranscodeInit string

datatype output_error = OutputIo string | OutputSlowListener | OutputCancelled

datatype auth_error = AuthIo string | ReloadFailed string

datatype config_error = ConfigIo string | ConfigParse string | ConfigInvalid string

section \<open>config.rs: the configuration tree\<close>

type_synonym socket_addr = string

datatype transcode_format = FmtMp3 | FmtVorbis

record transcode_config =
  tc_format :: transcode_format
  tc_sample_rate :: nat
  tc_bitrate_kbps :: nat

record server_config =
  sv_stream_bind :: socket_addr
  sv_admin_bind :: socket_addr
  sv_hostname :: string

datatype log_format = LogJson | LogPretty

record logging_config =
  lg_level :: string
  lg_format :: log_format

datatype user_role = RoleAdmin | RoleOperator

definition default_user_role :: user_role where
  "default_user_role = RoleAdmin"

record user_config =
  us_username :: string
  us_password_bcrypt :: string
  us_role :: user_role

record auth_config =
  au_users :: "user_config list"
  au_source_password :: "string option"

record limits_config =
  lm_max_listeners_global :: nat
  lm_ring_size :: nat
  lm_slow_listener_grace_s :: nat
  lm_source_max_kbps :: "nat option"
  lm_burst_size :: nat

definition default_burst_size :: nat where
  "default_burst_size = 65536"

record mount_config =
  mc_path :: string
  mc_source_password :: string
  mc_max_listeners :: "nat option"
  mc_name :: "string option"
  mc_description :: "string option"
  mc_genre :: "string option"
  mc_url :: "string option"
  mc_transcode :: "transcode_config option"
  mc_burst_size :: "nat option"

datatype play_order = Shuffle | Sequential

definition default_order :: play_order where
  "default_order = Shuffle"

record autodj_config =
  ad_mount :: string
  ad_folder :: string
  ad_name :: "string option"
  ad_description :: "string option"
  ad_genre :: "string option"
  ad_url :: "string option"
  ad_enabled :: bool
  ad_loop_playlist :: bool
  ad_order :: play_order
  ad_max_listeners :: "nat option"
  ad_burst_size :: "nat option"
  ad_transcode :: transcode_config

record relay_config =
  rc_mount :: string
  rc_upstream :: string
  rc_name :: "string option"
  rc_description :: "string option"
  rc_genre :: "string option"
  rc_url :: "string option"
  rc_enabled :: bool
  rc_username :: "string option"
  rc_password :: "string option"
  rc_max_listeners :: "nat option"
  rc_burst_size :: "nat option"
  rc_transcode :: "transcode_config option"

record tls_config =
  tl_acme_domain :: "string option"
  tl_cert_cache_dir :: "string option"

record config =
  cf_server :: server_config
  cf_logging :: logging_config
  cf_auth :: auth_config
  cf_limits :: limits_config
  cf_mounts :: "mount_config list"
  cf_autodjs :: "autodj_config list"
  cf_relays :: "relay_config list"
  cf_tls :: "tls_config option"
  cf_transcode :: "transcode_config option"

section \<open>config.rs: effective settings\<close>

definition or_else :: "'a option \<Rightarrow> 'a option \<Rightarrow> 'a option" where
  "or_else a b = (case a of Some x \<Rightarrow> Some x | None \<Rightarrow> b)"

lemma or_else_simps [simp]: "or_else None b = b" "or_else (Some x) b = Some x"
  by (simp_all add: or_else_def)

definition unwrap_or :: "'a option \<Rightarrow> 'a \<Rightarrow> 'a" where
  "unwrap_or a d = (case a of Some x \<Rightarrow> x | None \<Rightarrow> d)"

lemma unwrap_or_simps [simp]: "unwrap_or None d = d" "unwrap_or (Some x) d = x"
  by (simp_all add: unwrap_or_def)

definition effective_transcode :: "config \<Rightarrow> mount_config \<Rightarrow> transcode_config option" where
  "effective_transcode cfg m = or_else (mc_transcode m) (cf_transcode cfg)"

definition effective_burst_size :: "config \<Rightarrow> mount_config \<Rightarrow> nat" where
  "effective_burst_size cfg m = unwrap_or (mc_burst_size m) (lm_burst_size (cf_limits cfg))"

section \<open>config.rs: validate_paths\<close>

text \<open>
  The three loops of \<open>validate_paths\<close> share one set \<open>seen\<close>; each returns the first error
  or the extended set.
\<close>

fun validate_mount_loop :: "string set \<Rightarrow> mount_config list \<Rightarrow> string + string set" where
  "validate_mount_loop seen [] = Inr seen"
| "validate_mount_loop seen (m # ms) =
     (if mc_path m \<in> seen then Inl (''duplicate mount path: '' @ mc_path m)
      else validate_mount_loop (insert (mc_path m) seen) ms)"

fun validate_autodj_loop :: "string set \<Rightarrow> autodj_config list \<Rightarrow> string + string set" where
  "validate_autodj_loop seen [] = Inr seen"
| "validate_autodj_loop seen (a # as) =
     (if ad_mount a \<in> seen then Inl (''duplicate autodj mount path: '' @ ad_mount a)
      else validate_autodj_loop (insert (ad_mount a) seen) as)"

definition http_url :: "string \<Rightarrow> bool" where
  "http_url u \<longleftrightarrow> starts_with u ''http://'' \<or> starts_with u ''https://''"

fun validate_relay_loop :: "string set \<Rightarrow> relay_config list \<Rightarrow> string + string set" where
  "validate_relay_loop seen [] = Inr seen"
| "validate_relay_loop seen (r # rs) =
     (if rc_mount r \<in> seen then Inl (''duplicate relay mount path: '' @ rc_mount r)
      else if \<not> http_url (rc_upstream r) then
        Inl (''relay '' @ [CHR 0x27] @ rc_mount r @ [CHR 0x27]
             @ '' upstream must be an http:// or https:// URL, got '' @ [CHR 0x27]
             @ rc_upstream r @ [CHR 0x27])
      else (case (rc_username r, rc_password r) of
              (Some _, None) \<Rightarrow>
                Inl (''relay '' @ [CHR 0x27] @ rc_mount r @ [CHR 0x27] @ '' has username but no password'')
            | (None, Some _) \<Rightarrow>
                Inl (''relay '' @ [CHR 0x27] @ rc_mount r @ [CHR 0x27] @ '' has password but no username'')
            | _ \<Rightarrow> validate_relay_loop (insert (rc_mount r) seen) rs))"

definition validate_paths :: "config \<Rightarrow> string + unit" where
  "validate_paths cfg =
     (case validate_mount_loop {} (cf_mounts cfg) of
        Inl e \<Rightarrow> Inl e
      | Inr seen \<Rightarrow>
          (case validate_autodj_loop seen (cf_autodjs cfg) of
             Inl e \<Rightarrow> Inl e
           | Inr seen' \<Rightarrow>
               (case validate_relay_loop seen' (cf_relays cfg) of
                  Inl e \<Rightarrow> Inl e
                | Inr _ \<Rightarrow> Inr ())))"

text \<open>
  \<open>parse_str\<close> and \<open>load\<close>: the file system and the TOML reader are arguments, as they are code
  outside the repository.
\<close>

definition config_parse_str :: "(string \<Rightarrow> string + config) \<Rightarrow> string \<Rightarrow> config_error + config" where
  "config_parse_str toml_from_str toml_text =
     (case toml_from_str toml_text of Inl e \<Rightarrow> Inl (ConfigParse e) | Inr cfg \<Rightarrow> Inr cfg)"

definition config_load ::
  "(string \<Rightarrow> string + string) \<Rightarrow> (string \<Rightarrow> string + config) \<Rightarrow> string \<Rightarrow> config_error + config" where
  "config_load read_to_string toml_from_str path =
     (case read_to_string path of
        Inl e \<Rightarrow> Inl (ConfigIo e)
      | Inr contents \<Rightarrow>
          (case config_parse_str toml_from_str contents of
             Inl e \<Rightarrow> Inl e
           | Inr cfg \<Rightarrow>
               (case validate_paths cfg of
                  Inl e \<Rightarrow> Inl (ConfigInvalid e)
                | Inr _ \<Rightarrow> Inr cfg)))"

section \<open>What validation establishes\<close>

text \<open>Every path a configuration owns, in declaration order.\<close>

definition owned_paths :: "config \<Rightarrow> string list" where
  "owned_paths cfg =
     map mc_path (cf_mounts cfg) @ map ad_mount (cf_autodjs cfg) @ map rc_mount (cf_relays cfg)"

definition relay_ok :: "relay_config \<Rightarrow> bool" where
  "relay_ok r \<longleftrightarrow> http_url (rc_upstream r) \<and> (rc_username r = None \<longleftrightarrow> rc_password r = None)"

definition config_paths_ok :: "config \<Rightarrow> bool" where
  "config_paths_ok cfg \<longleftrightarrow> distinct (owned_paths cfg) \<and> (\<forall>r\<in>set (cf_relays cfg). relay_ok r)"

lemma validate_mount_loop_Inr:
  "validate_mount_loop seen ms = Inr seen' \<longleftrightarrow>
     distinct (map mc_path ms) \<and> seen \<inter> mc_path ` set ms = {} \<and> seen' = seen \<union> mc_path ` set ms"
  by (induction ms arbitrary: seen) auto

lemma validate_autodj_loop_Inr:
  "validate_autodj_loop seen as = Inr seen' \<longleftrightarrow>
     distinct (map ad_mount as) \<and> seen \<inter> ad_mount ` set as = {} \<and> seen' = seen \<union> ad_mount ` set as"
  by (induction as arbitrary: seen) auto

lemma validate_relay_loop_Inr:
  "validate_relay_loop seen rs = Inr seen' \<longleftrightarrow>
     distinct (map rc_mount rs) \<and> seen \<inter> rc_mount ` set rs = {} \<and> (\<forall>r\<in>set rs. relay_ok r) \<and>
     seen' = seen \<union> rc_mount ` set rs"
  by (induction rs arbitrary: seen) (auto simp: relay_ok_def split: option.splits)

lemma validate_paths_Inr_iff: "validate_paths cfg = Inr () \<longleftrightarrow> config_paths_ok cfg"
proof -
  have "validate_paths cfg = Inr () \<longleftrightarrow>
      (\<exists>s1 s2 s3. validate_mount_loop {} (cf_mounts cfg) = Inr s1 \<and>
         validate_autodj_loop s1 (cf_autodjs cfg) = Inr s2 \<and>
         validate_relay_loop s2 (cf_relays cfg) = Inr s3)"
    by (auto simp: validate_paths_def split: sum.splits)
  also have "\<dots> \<longleftrightarrow> config_paths_ok cfg"
    by (auto simp: validate_mount_loop_Inr validate_autodj_loop_Inr validate_relay_loop_Inr
        config_paths_ok_def owned_paths_def)
  finally show ?thesis .
qed

lemma config_load_ok:
  "config_load rd ps path = Inr cfg \<Longrightarrow> config_paths_ok cfg"
  by (auto simp: config_load_def simp flip: validate_paths_Inr_iff split: sum.splits)

end
