(* ===== verification/Mp3_Codec.thy ===== *)
theory Mp3_Codec
  imports Core_Types
begin

text \<open>
  \<open>crates/rustyice-codec/src/mp3.rs\<close>: the MPEG Layer-3 header reader. A slice \<open>&data[i..]\<close> is the
  suffix of the byte list, so the scanning loops recurse over suffixes. Every index the code
  uses is guarded by a length test; the model keeps those tests. The lemmas show that the frame
  sizes are bounded, that the prober and the sizer agree, and that the Xing detector cuts the
  buffer at a frame boundary and never fires on MPEG-2 streams.
\<close>

section \<open>Tables\<close>

definition mpeg2_l3_bitrates :: "nat option list" where
  "mpeg2_l3_bitrates =
     [None, Some 8, Some 16, Some 24, Some 32, Some 40, Some 48, Some 56,
      Some 64, Some 80, Some 96, Some 112, Some 128, Some 144, Some 160, None]"

definition mpeg1_l3_bitrates :: "nat option list" where
  "mpeg1_l3_bitrates =
     [None, Some 32, Some 40, Some 48, Some 56, Some 64, Some 80, Some 96,
      Some 112, Some 128, Some 160, Some 192, Some 224, Some 256, Some 320, None]"

definition sample_rate :: "byte \<Rightarrow> byte \<Rightarrow> nat option" where
  "sample_rate version index =
     (if version = 3 \<and> index = 0 then Some 44100
      else if version = 3 \<and> index = 1 then Some 48000
      else if version = 3 \<and> index = 2 then Some 32000
      else if version = 2 \<and> index = 0 then Some 22050
      else if version = 2 \<and> index = 1 then Some 24000
      else if version = 2 \<and> index = 2 then Some 16000
      else if version = 0 \<and> index = 0 then Some 11025
      else if version = 0 \<and> index = 1 then Some 12000
      else if version = 0 \<and> index = 2 then Some 8000
      else None)"

section \<open>Header fields\<close>

abbreviation version_bits :: "byte list \<Rightarrow> byte" where
  "version_bits h \<equiv> drop_bit 3 (h ! 1) AND 3"

abbreviation layer_bits :: "byte list \<Rightarrow> byte" where
  "layer_bits h \<equiv> drop_bit 1 (h ! 1) AND 3"

abbreviation sr_index :: "byte list \<Rightarrow> byte" where
  "sr_index h \<equiv> drop_bit 2 (h ! 2) AND 3"

abbreviation br_index :: "byte list \<Rightarrow> nat" where
  "br_index h \<equiv> unat (drop_bit 4 (h ! 2) AND 0x0F)"

abbreviation padding_bit :: "byte list \<Rightarrow> nat" where
  "padding_bit h \<equiv> unat (drop_bit 1 (h ! 2) AND 1)"

definition sync_word :: "byte list \<Rightarrow> bool" where
  "sync_word h \<longleftrightarrow> h ! 0 = 0xFF \<and> h ! 1 AND 0xE0 = 0xE0"

section \<open>Probe and frame size\<close>

definition mp3_probe :: "byte list \<Rightarrow> codec_info option" where
  "mp3_probe header =
     (if length header < 4 then None
      else if \<not> sync_word header then None
      else if version_bits header = 1 \<or> layer_bits header = 0 then None
      else if layer_bits header \<noteq> 1 then None
      else (case sample_rate (version_bits header) (sr_index header) of
              None \<Rightarrow> None
            | Some sr \<Rightarrow>
                let bitrate_kbps =
                      (if version_bits header = 3 then mpeg1_l3_bitrates ! br_index header else None);
                    channels = (if drop_bit 6 (header ! 3) = 3 then 1 else 2)
                in Some \<lparr>ci_id = MP3, ci_sample_rate = sr, ci_channels = channels,
                         ci_bitrate_kbps = bitrate_kbps\<rparr>))"

definition mp3_frame_size :: "byte list \<Rightarrow> nat option" where
  "mp3_frame_size header =
     (if length header < 4 then None
      else if \<not> sync_word header then None
      else if version_bits header = 1 \<or> layer_bits header = 0 \<or> layer_bits header \<noteq> 1 then None
      else (case sample_rate (version_bits header) (sr_index header) of
              None \<Rightarrow> None
            | Some sr \<Rightarrow>
                (case (if version_bits header = 3 then mpeg1_l3_bitrates ! br_index header
                       else mpeg2_l3_bitrates ! br_index header) of
                   None \<Rightarrow> None
                 | Some br_kbps \<Rightarrow>
                     Some (if version_bits header = 3
                           then 144 * br_kbps * 1000 div sr + padding_bit header
                           else 72 * br_kbps * 1000 div sr + padding_bit header))))"

text \<open>\<open>decode\<close> and \<open>encode\<close> of the probe-only codec.\<close>

definition mp3_decode :: "encoded_packet \<Rightarrow> codec_error + pcm_frame" where
  "mp3_decode p = Inl Unsupported"

section \<open>Scans\<close>

text \<open>The bitrate of the first frame that states one, in bytes per second.\<close>

fun scan_bitrate_bps :: "byte list \<Rightarrow> nat option" where
  "scan_bitrate_bps [] = None"
| "scan_bitrate_bps (b # bs) =
     (if length (b # bs) \<le> 3 then None
      else if \<not> sync_word (b # bs) then scan_bitrate_bps bs
      else (case mp3_probe (b # bs) of
              None \<Rightarrow> scan_bitrate_bps bs
            | Some info \<Rightarrow>
                (case ci_bitrate_kbps info of
                   None \<Rightarrow> scan_bitrate_bps bs
                 | Some kbps \<Rightarrow> Some (kbps * 1000 div 8))))"

definition xing_tags :: "byte list list" where
  "xing_tags = map bytes_of [''Xing'', ''Info'', ''VBRI'']"

definition xing_tag_offset :: "bool \<Rightarrow> nat \<Rightarrow> nat option" where
  "xing_tag_offset mpeg1 channels =
     (if mpeg1 \<and> channels = 2 then Some (4 + 32)
      else if mpeg1 \<and> channels = 1 \<or> \<not> mpeg1 \<and> channels = 2 then Some (4 + 17)
      else if \<not> mpeg1 \<and> channels = 1 then Some (4 + 9)
      else None)"

text \<open>The body of the loop at a sync word: \<open>header\<close> is \<open>&data[sync..]\<close>; every exit returns.\<close>

definition xing_frame_at :: "byte list \<Rightarrow> nat option" where
  "xing_frame_at header =
     (case mp3_probe header of
        None \<Rightarrow> None
      | Some info \<Rightarrow>
          let mpeg1 = version_bits header = 3 in
          (case xing_tag_offset mpeg1 (ci_channels info) of
             None \<Rightarrow> None
           | Some tag_offset \<Rightarrow>
               if tag_offset + 4 > length header then None
               else if take 4 (drop tag_offset header) \<notin> set xing_tags then None
               else (case ci_bitrate_kbps info of
                       None \<Rightarrow> None
                     | Some kbps \<Rightarrow>
                         let bitrate = kbps * 1000;
                             frame_length =
                               (if mpeg1 then 144 * bitrate div ci_sample_rate info + padding_bit header
                                else 72 * bitrate div ci_sample_rate info + padding_bit header)
                         in if frame_length > length header then None else Some frame_length)))"

fun detect_xing_from :: "nat \<Rightarrow> byte list \<Rightarrow> nat option" where
  "detect_xing_from sync [] = None"
| "detect_xing_from sync (b # bs) =
     (if length (b # bs) \<le> 3 then None
      else if \<not> sync_word (b # bs) then detect_xing_from (Suc sync) bs
      else map_option (\<lambda>n. sync + n) (xing_frame_at (b # bs)))"

definition detect_xing_frame_end :: "byte list \<Rightarrow> nat option" where
  "detect_xing_frame_end data = detect_xing_from 0 data"

section \<open>Frame-size bounds\<close>

lemma br_index_lt [simp]: "unat (x AND (15::byte)) < 16"
proof -
  have "unat (x AND 15) \<le> unat (15 :: byte)"
    by (rule word_and_le1 [THEN word_le_nat_alt [THEN iffD1]])
  then show ?thesis by simp
qed

lemma padding_le: "unat (x AND (1::byte)) \<le> 1"
proof -
  have "unat (x AND 1) \<le> unat (1 :: byte)"
    by (rule word_and_le1 [THEN word_le_nat_alt [THEN iffD1]])
  then show ?thesis by simp
qed

lemma mpeg1_bitrate_range:
  "\<forall>i<16. \<forall>b. mpeg1_l3_bitrates ! i = Some b \<longrightarrow> 32 \<le> b \<and> b \<le> 320"
proof -
  have "\<forall>x\<in>set mpeg1_l3_bitrates. \<forall>b. x = Some b \<longrightarrow> 32 \<le> b \<and> b \<le> 320"
    and "length mpeg1_l3_bitrates = 16"
    by (simp_all add: mpeg1_l3_bitrates_def)
  then show ?thesis by (metis nth_mem)
qed

lemma mpeg2_bitrate_range:
  "\<forall>i<16. \<forall>b. mpeg2_l3_bitrates ! i = Some b \<longrightarrow> 8 \<le> b \<and> b \<le> 160"
proof -
  have "\<forall>x\<in>set mpeg2_l3_bitrates. \<forall>b. x = Some b \<longrightarrow> 8 \<le> b \<and> b \<le> 160"
    and "length mpeg2_l3_bitrates = 16"
    by (simp_all add: mpeg2_l3_bitrates_def)
  then show ?thesis by (metis nth_mem)
qed

lemma sample_rate_mpeg1:
  "sample_rate 3 i = Some sr \<Longrightarrow> sr \<in> {44100, 48000, 32000}"
  by (auto simp: sample_rate_def split: if_splits)

lemma sample_rate_mpeg2:
  "sample_rate v i = Some sr \<Longrightarrow> v \<noteq> 3 \<Longrightarrow> sr \<in> {22050, 24000, 16000, 11025, 12000, 8000}"
  by (auto simp: sample_rate_def split: if_splits)

lemma mpeg1_length_range:
  fixes br sr :: nat
  assumes "32 \<le> br" "br \<le> 320" "sr \<in> {44100, 48000, 32000}"
  shows "96 \<le> 144 * br * 1000 div sr \<and> 144 * br * 1000 div sr \<le> 1440"
proof -
  consider "sr = 44100" | "sr = 48000" | "sr = 32000" using assms by blast
  then show ?thesis using assms(1,2) by cases (auto; arith)+
qed

lemma mpeg2_length_range:
  fixes br sr :: nat
  assumes "8 \<le> br" "br \<le> 160" "sr \<in> {22050, 24000, 16000, 11025, 12000, 8000}"
  shows "24 \<le> 72 * br * 1000 div sr \<and> 72 * br * 1000 div sr \<le> 1440"
proof -
  consider "sr = 22050" | "sr = 24000" | "sr = 16000" | "sr = 11025" | "sr = 12000" | "sr = 8000"
    using assms by blast
  then show ?thesis using assms(1,2) by cases (auto; arith)+
qed

lemma mp3_frame_size_range:
  assumes "mp3_frame_size header = Some n"
  shows "24 \<le> n \<and> n \<le> 1441 \<and> 4 \<le> length header \<and> sync_word header \<and>
    (\<exists>info. mp3_probe header = Some info)"
proof -
  from assms obtain sr br where len: "4 \<le> length header" and sync: "sync_word header"
    and v: "version_bits header \<noteq> 1" and l: "layer_bits header = 1"
    and sr: "sample_rate (version_bits header) (sr_index header) = Some sr"
    and br: "(if version_bits header = 3 then mpeg1_l3_bitrates ! br_index header
              else mpeg2_l3_bitrates ! br_index header) = Some br"
    and n: "n = (if version_bits header = 3 then 144 * br * 1000 div sr + padding_bit header
              else 72 * br * 1000 div sr + padding_bit header)"
    unfolding mp3_frame_size_def by (auto split: if_splits option.splits)
  have "\<exists>info. mp3_probe header = Some info"
    using len sync v l sr by (auto simp: mp3_probe_def Let_def)
  moreover have "24 \<le> n \<and> n \<le> 1441"
  proof (cases "version_bits header = 3")
    case True
    have "sr \<in> {44100, 48000, 32000}"
      using sr unfolding True by (rule sample_rate_mpeg1)
    moreover have "mpeg1_l3_bitrates ! br_index header = Some br"
      using br True by simp
    then have "32 \<le> br \<and> br \<le> 320"
      using mpeg1_bitrate_range [rule_format, OF br_index_lt] by blast
    ultimately
    have "96 \<le> 144 * br * 1000 div sr \<and> 144 * br * 1000 div sr \<le> 1440"
      by (intro mpeg1_length_range) auto
    with True n padding_le [of "drop_bit 1 (header ! 2)"] show ?thesis by simp
  next
    case False
    have "sr \<in> {22050, 24000, 16000, 11025, 12000, 8000}"
      using sr False by (rule sample_rate_mpeg2)
    moreover have "mpeg2_l3_bitrates ! br_index header = Some br"
      using br False by simp
    then have "8 \<le> br \<and> br \<le> 160"
      using mpeg2_bitrate_range [rule_format, OF br_index_lt] by blast
    ultimately
    have "24 \<le> 72 * br * 1000 div sr \<and> 72 * br * 1000 div sr \<le> 1440"
      by (intro mpeg2_length_range) auto
    with False n padding_le [of "drop_bit 1 (header ! 2)"] show ?thesis by simp
  qed
  ultimately show ?thesis using len sync by blast
qed

text \<open>
  A frame size, when the header yields one, lies between 24 and 1441 bytes, and the
  header then is at least four bytes long, carries the sync word and is one the prober accepts.
  So the arithmetic never overflows a machine word, and the loops that skip a whole frame
  always advance.
\<close>

theorem mp3_frame_size_bounds:
  assumes "mp3_frame_size header = Some n"
  shows "24 \<le> n \<and> n \<le> 1441 \<and> 4 \<le> length header \<and> sync_word header \<and>
    (\<exists>info. mp3_probe header = Some info)"
  using assms by (rule mp3_frame_size_range)

theorem mp3_frame_size_bounds_witness:
  "mp3_frame_size [0xFF, 0xFB, 0x90, 0x00] = Some 417 \<and> (24::nat) \<le> 417 \<and> (417::nat) \<le> 1441"
proof -
  have h: "mp3_frame_size [0xFF, 0xFB, 0x90, 0x00] = Some 417"
    by (simp add: mp3_frame_size_def sync_word_def sample_rate_def mpeg1_l3_bitrates_def)
  show ?thesis using h mp3_frame_size_bounds [OF h] by blast
qed

section \<open>Scanning\<close>

lemma mp3_probe_bitrate_mpeg1:
  "mp3_probe h = Some info \<Longrightarrow> ci_bitrate_kbps info = Some k \<Longrightarrow> version_bits h = 3"
  by (auto simp: mp3_probe_def Let_def split: if_splits option.splits)

lemma mp3_probe_frame_size:
  assumes "mp3_probe h = Some info" and "ci_bitrate_kbps info = Some k"
  shows "mp3_frame_size h =
    Some (144 * k * 1000 div ci_sample_rate info + padding_bit h)"
  using assms
  by (auto simp: mp3_probe_def mp3_frame_size_def Let_def split: if_splits option.splits)

lemma scan_bitrate_SomeD:
  "scan_bitrate_bps data = Some bps \<Longrightarrow>
     \<exists>pre h info k. data = pre @ h \<and> mp3_probe h = Some info \<and> ci_bitrate_kbps info = Some k \<and>
       bps = k * 1000 div 8"
proof (induction data)
  case Nil
  then show ?case by simp
next
  case (Cons b bs)
  show ?case
  proof (cases "scan_bitrate_bps bs = Some bps")
    case True
    then show ?thesis using Cons.IH by (metis append_Cons)
  next
    case False
    with Cons.prems show ?thesis
      by (auto split: if_splits option.splits)
  qed
qed

lemma xing_frame_at_frame_size:
  assumes "xing_frame_at h = Some n"
  shows "mp3_frame_size h = Some n \<and> n \<le> length h \<and> version_bits h = 3 \<and>
    (\<exists>off\<in>{21, 36}. take 4 (drop off h) \<in> set xing_tags)"
proof -
  from assms obtain info off kbps where p: "mp3_probe h = Some info"
    and off: "xing_tag_offset (version_bits h = 3) (ci_channels info) = Some off"
    and tag: "take 4 (drop off h) \<in> set xing_tags"
    and k: "ci_bitrate_kbps info = Some kbps"
    and n: "n = (if version_bits h = 3 then 144 * (kbps * 1000) div ci_sample_rate info + padding_bit h
                 else 72 * (kbps * 1000) div ci_sample_rate info + padding_bit h)"
    and le: "n \<le> length h"
    by (auto simp: xing_frame_at_def Let_def split: option.splits if_splits)
  have v: "version_bits h = 3" using p k by (rule mp3_probe_bitrate_mpeg1)
  have "off \<in> {21, 36}"
    using off v by (auto simp: xing_tag_offset_def split: if_splits)
  moreover have "mp3_frame_size h = Some n"
    using mp3_probe_frame_size [OF p k] n v by (simp add: mult.assoc)
  ultimately show ?thesis using v tag le by blast
qed

lemma detect_xing_from_SomeD:
  "detect_xing_from s data = Some e \<Longrightarrow>
     \<exists>pre h n. data = pre @ h \<and> xing_frame_at h = Some n \<and> e = s + length pre + n \<and>
       (\<forall>i<length pre. \<not> sync_word (drop i data))"
proof (induction data arbitrary: s)
  case Nil
  then show ?case by simp
next
  case (Cons b bs)
  show ?case
  proof (cases "sync_word (b # bs)")
    case True
    with Cons.prems obtain n where "xing_frame_at (b # bs) = Some n" "e = s + n"
      by (auto split: if_splits)
    then show ?thesis by (intro exI [of _ "[]"] exI [of _ "b # bs"] exI [of _ n]) simp
  next
    case False
    with Cons.prems have "detect_xing_from (Suc s) bs = Some e" by (simp split: if_splits)
    then obtain pre h n where IH: "bs = pre @ h" "xing_frame_at h = Some n"
      "e = Suc s + length pre + n" "\<forall>i<length pre. \<not> sync_word (drop i bs)"
      using Cons.IH by blast
    have "\<forall>i<length (b # pre). \<not> sync_word (drop i (b # bs))"
      using IH(4) False by (auto simp: less_Suc_eq_0_disj)
    with IH show ?thesis
      by (intro exI [of _ "b # pre"] exI [of _ h] exI [of _ n]) simp
  qed
qed

lemma detect_xing_end_le: "detect_xing_frame_end data = Some e \<Longrightarrow> e \<le> length data"
  by (auto simp: detect_xing_frame_end_def dest!: detect_xing_from_SomeD xing_frame_at_frame_size)

text \<open>
  When the Xing/Info/VBRI detector asks for the first \<open>e\<close> bytes of the buffer to be
  dropped, those bytes end exactly where the first synchronised frame ends: there is a sync
  position before which no sync word occurs, the frame there has the size \<open>mp3_frame_size\<close>
  computes, it lies inside the buffer, and one of the three tags stands at the side-information
  offset.
\<close>

theorem detect_xing_frame_boundary:
  assumes "detect_xing_frame_end data = Some e"
  shows "\<exists>sync n. e = sync + n \<and> e \<le> length data \<and> mp3_frame_size (drop sync data) = Some n \<and>
    (\<forall>i < sync. \<not> sync_word (drop i data)) \<and>
    (\<exists>off\<in>{21, 36}. take 4 (drop (sync + off) data) \<in> set xing_tags)"
proof -
  obtain pre h n where d: "data = pre @ h" "xing_frame_at h = Some n" "e = length pre + n"
    "\<forall>i<length pre. \<not> sync_word (drop i data)"
    using detect_xing_from_SomeD [of 0 data e] assms by (auto simp: detect_xing_frame_end_def)
  with xing_frame_at_frame_size [OF d(2)] show ?thesis
    by (intro exI [of _ "length pre"] exI [of _ n]) auto
qed

definition xing_sample :: "byte list" where
  "xing_sample = [0, 0xFF, 0xFB, 0x10, 0xC0] @ replicate 17 0 @ bytes_of ''Xing'' @ replicate 100 0"

theorem detect_xing_frame_boundary_witness:
  "detect_xing_frame_end xing_sample = Some 105 \<and> mp3_frame_size (drop 1 xing_sample) = Some 104"
proof -
  have h: "detect_xing_frame_end xing_sample = Some 105"
    by (simp add: detect_xing_frame_end_def xing_sample_def sync_word_def xing_frame_at_def
        mp3_probe_def sample_rate_def mpeg1_l3_bitrates_def xing_tag_offset_def xing_tags_def
        bytes_of_def Let_def)
  have n: "mp3_frame_size (drop 1 xing_sample) = Some 104"
    by (simp add: xing_sample_def mp3_frame_size_def sync_word_def sample_rate_def
        mpeg1_l3_bitrates_def)
  from detect_xing_frame_boundary [OF h] h n show ?thesis by blast
qed

text \<open>
  On an MPEG-2 or MPEG-2.5 stream (version bits other than 3 at the first sync word)
  the detector never reports a tag, although the code carries side-information offsets and a
  frame-length formula for exactly those streams: the prober gives them no bitrate.
\<close>

theorem detect_xing_never_mpeg2:
  assumes "\<forall>i < sync. \<not> sync_word (drop i data)" and "sync_word (drop sync data)"
    and "version_bits (drop sync data) \<noteq> 3"
  shows "detect_xing_frame_end data = None"
proof (rule ccontr)
  assume "detect_xing_frame_end data \<noteq> None"
  then obtain pre h n where d: "data = pre @ h" "xing_frame_at h = Some n"
    "\<forall>i<length pre. \<not> sync_word (drop i data)"
    using detect_xing_from_SomeD [of 0 data] by (auto simp: detect_xing_frame_end_def)
  have v: "version_bits h = 3" and "sync_word h"
    using xing_frame_at_frame_size [OF d(2)] mp3_frame_size_range by blast+
  then have "length pre = sync"
    using d assms(1,2) by (metis append_eq_conv_conj linorder_neqE_nat)
  with d v assms(3) show False by auto
qed

definition mpeg2_sample :: "byte list" where
  "mpeg2_sample = [0xFF, 0xF3, 0x40, 0xC0] @ replicate 9 0 @ bytes_of ''Xing'' @ replicate 300 0"

theorem detect_xing_never_mpeg2_witness:
  "detect_xing_frame_end mpeg2_sample = None \<and> mp3_frame_size mpeg2_sample \<noteq> None"
proof -
  have s: "sync_word (drop 0 mpeg2_sample)" and v: "version_bits (drop 0 mpeg2_sample) \<noteq> 3"
    and f: "mp3_frame_size mpeg2_sample \<noteq> None"
    by (simp_all add: mpeg2_sample_def mp3_frame_size_def sync_word_def sample_rate_def
        mpeg2_l3_bitrates_def)
  have "detect_xing_frame_end mpeg2_sample = None"
    by (rule detect_xing_never_mpeg2 [of 0]) (use s v in simp_all)
  with f show ?thesis by blast
qed

end
