(* ===== verification/Vorbis_Codec.thy ===== *)
theory Vorbis_Codec
  imports Core_Types
begin

text \<open>
  \<open>crates/rustyice-codec/src/vorbis.rs\<close>: the Ogg page sizer, the Vorbis identification prober,
  the bitrate scan, and \<open>OggHeaderCapture\<close>, the accumulator that cuts the leading header pages off
  a published stream. The capture loop is a recursion whose cursor grows by at least 27 bytes a
  page. The lemmas show that feeding a stream in any fragmentation gives the same capture, that
  a capture is a prefix of whole pages holding three fresh pages, and what that says about
  packets.
\<close>

definition ogg_magic :: "byte list" where
  "ogg_magic = bytes_of ''OggS''"

definition vorbis_ident :: "byte list" where
  "vorbis_ident = 1 # bytes_of ''vorbis''"

section \<open>Page sizes\<close>

definition ogg_page_size :: "byte list \<Rightarrow> nat option" where
  "ogg_page_size header =
     (if length header < 27 \<or> take 4 header \<noteq> ogg_magic then None
      else let n_segments = unat (header ! 26) in
        if length header < 27 + n_segments then None
        else Some (27 + n_segments + sum_list (map unat (take n_segments (drop 27 header)))))"

section \<open>The identification prober\<close>

definition u32_of_le :: "byte \<Rightarrow> byte \<Rightarrow> byte \<Rightarrow> byte \<Rightarrow> nat" where
  "u32_of_le b0 b1 b2 b3 = unat b0 + 256 * (unat b1 + 256 * (unat b2 + 256 * unat b3))"

definition i32_of_le :: "byte \<Rightarrow> byte \<Rightarrow> byte \<Rightarrow> byte \<Rightarrow> int" where
  "i32_of_le b0 b1 b2 b3 =
     (let n = u32_of_le b0 b1 b2 b3 in if n < 2 ^ 31 then int n else int n - 2 ^ 32)"

definition vorbis_probe :: "byte list \<Rightarrow> codec_info option" where
  "vorbis_probe header =
     (if length header < 27 then None
      else if take 4 header \<noteq> ogg_magic then None
      else if header ! 5 AND 0x02 = 0 then None
      else let header_len = 27 + unat (header ! 26) in
        if length header < header_len + 30 then None
        else let body = drop header_len header in
          if take 7 body \<noteq> vorbis_ident then None
          else if u32_of_le (body ! 7) (body ! 8) (body ! 9) (body ! 10) \<noteq> 0 then None
          else let channels = unat (body ! 11) in
            if channels = 0 then None
            else let sr = u32_of_le (body ! 12) (body ! 13) (body ! 14) (body ! 15) in
              if sr = 0 then None
              else let bitrate_nominal = i32_of_le (body ! 20) (body ! 21) (body ! 22) (body ! 23) in
                Some \<lparr>ci_id = VORBIS, ci_sample_rate = sr, ci_channels = channels,
                      ci_bitrate_kbps =
                        (if bitrate_nominal > 0 then Some (nat bitrate_nominal div 1000) else None)\<rparr>)"

definition vorbis_decode :: "encoded_packet \<Rightarrow> codec_error + pcm_frame" where
  "vorbis_decode p = Inl Unsupported"

fun scan_nominal_bitrate_bps :: "byte list \<Rightarrow> nat option" where
  "scan_nominal_bitrate_bps [] = None"
| "scan_nominal_bitrate_bps (b # bs) =
     (if length (b # bs) < 4 then None
      else if take 4 (b # bs) \<noteq> ogg_magic then scan_nominal_bitrate_bps bs
      else (case vorbis_probe (b # bs) of
              None \<Rightarrow> scan_nominal_bitrate_bps bs
            | Some info \<Rightarrow>
                (case ci_bitrate_kbps info of
                   None \<Rightarrow> scan_nominal_bitrate_bps bs
                 | Some kbps \<Rightarrow> Some (kbps * 1000 div 8))))"

section \<open>The header capture\<close>

definition max_header_buffer :: nat where
  "max_header_buffer = 64 * 1024"

record ogg_capture =
  oc_buf :: "byte list"
  oc_cursor :: nat
  oc_fresh :: nat
  oc_done :: bool
  oc_failed :: bool

definition capture_new :: ogg_capture where
  "capture_new = \<lparr>oc_buf = [], oc_cursor = 0, oc_fresh = 0, oc_done = False, oc_failed = False\<rparr>"

definition is_settled :: "ogg_capture \<Rightarrow> bool" where
  "is_settled c \<longleftrightarrow> oc_done c \<or> oc_failed c"

definition header_bytes :: "ogg_capture \<Rightarrow> byte list option" where
  "header_bytes c = (if oc_done c then Some (oc_buf c) else None)"

text \<open>
  The body of the loop of \<open>push\<close> reads the page at the cursor. It waits, fails on a bad magic,
  or has a complete page of \<open>page_size\<close> bytes.
\<close>

datatype page_status = NeedMore | BadMagic | Page nat bool

definition page_at :: "byte list \<Rightarrow> nat \<Rightarrow> page_status" where
  "page_at buf page_start =
     (if page_start + 27 > length buf then NeedMore
      else if take 4 (drop page_start buf) \<noteq> ogg_magic then BadMagic
      else let n_segments = unat (buf ! (page_start + 26));
               lacing_end = page_start + 27 + n_segments in
        if lacing_end > length buf then NeedMore
        else let body_len = sum_list (map unat (take n_segments (drop (page_start + 27) buf)));
                 page_size = 27 + n_segments + body_len in
          if page_start + page_size > length buf then NeedMore
          else Page page_size (buf ! (page_start + 5) AND 0x01 \<noteq> 0))"

lemma page_at_Page_bounds:
  "page_at buf ps = Page n cont \<Longrightarrow> 27 \<le> n \<and> ps + n \<le> length buf"
  by (auto simp: page_at_def Let_def split: if_splits)

function capture_loop :: "ogg_capture \<Rightarrow> ogg_capture" where
  "capture_loop c =
     (case page_at (oc_buf c) (oc_cursor c) of
        NeedMore \<Rightarrow> c
      | BadMagic \<Rightarrow> c\<lparr>oc_failed := True, oc_buf := []\<rparr>
      | Page page_size is_continuation \<Rightarrow>
          if \<not> is_continuation \<and> oc_fresh c \<ge> 3 then
            c\<lparr>oc_buf := take (oc_cursor c) (oc_buf c), oc_done := True\<rparr>
          else
            capture_loop (c\<lparr>oc_fresh := (if is_continuation then oc_fresh c else oc_fresh c + 1),
                            oc_cursor := oc_cursor c + page_size\<rparr>))"
  by pat_completeness auto
termination
  by (relation "measure (\<lambda>c. length (oc_buf c) - oc_cursor c)")
    (auto dest!: page_at_Page_bounds)

declare capture_loop.simps [simp del]

definition capture_push :: "ogg_capture \<Rightarrow> byte list \<Rightarrow> ogg_capture" where
  "capture_push c data =
     (if is_settled c then c
      else let c' = c\<lparr>oc_buf := oc_buf c @ data\<rparr> in
        if length (oc_buf c') > max_header_buffer then c'\<lparr>oc_failed := True, oc_buf := []\<rparr>
        else capture_loop c')"

section \<open>Fragmentation does not matter\<close>

text \<open>A page that is complete in a buffer is the same page in any longer buffer.\<close>

lemma page_at_append:
  assumes "page_at buf ps \<noteq> NeedMore"
  shows "page_at (buf @ ys) ps = page_at buf ps"
proof -
  have "ps + 27 \<le> length buf" using assms by (auto simp: page_at_def split: if_splits)
  then show ?thesis using assms
    by (auto simp: page_at_def Let_def nth_append split: if_splits)
qed

text \<open>One iteration of the loop, by what it finds at the cursor.\<close>

definition capture_advance :: "ogg_capture \<Rightarrow> nat \<Rightarrow> bool \<Rightarrow> ogg_capture" where
  "capture_advance c n cont =
     c\<lparr>oc_fresh := (if cont then oc_fresh c else oc_fresh c + 1), oc_cursor := oc_cursor c + n\<rparr>"

lemma capture_advance_sel [simp]:
  "oc_buf (capture_advance c n cont) = oc_buf c"
  "oc_cursor (capture_advance c n cont) = oc_cursor c + n"
  "oc_fresh (capture_advance c n cont) = (if cont then oc_fresh c else oc_fresh c + 1)"
  "is_settled (capture_advance c n cont) = is_settled c"
  "capture_advance (c\<lparr>oc_buf := b\<rparr>) n cont = (capture_advance c n cont)\<lparr>oc_buf := b\<rparr>"
  by (simp_all add: capture_advance_def is_settled_def)

lemma capture_loop_NeedMore [guard_simps]:
  "page_at (oc_buf c) (oc_cursor c) = NeedMore \<Longrightarrow> capture_loop c = c"
  by (simp add: capture_loop.simps)

lemma capture_loop_BadMagic [guard_simps]:
  "page_at (oc_buf c) (oc_cursor c) = BadMagic \<Longrightarrow>
     capture_loop c = c\<lparr>oc_failed := True, oc_buf := []\<rparr>"
  by (simp add: capture_loop.simps)

lemma capture_loop_stop [guard_simps]:
  "page_at (oc_buf c) (oc_cursor c) = Page n False \<Longrightarrow> oc_fresh c \<ge> 3 \<Longrightarrow>
     capture_loop c = c\<lparr>oc_buf := take (oc_cursor c) (oc_buf c), oc_done := True\<rparr>"
  by (simp add: capture_loop.simps)

lemma capture_loop_advance:
  "page_at (oc_buf c) (oc_cursor c) = Page n cont \<Longrightarrow> cont \<or> oc_fresh c < 3 \<Longrightarrow>
     capture_loop c = capture_loop (capture_advance c n cont)"
  by (subst capture_loop.simps) (auto simp: capture_advance_def)

lemma capture_loop_induct [case_names NeedMore BadMagic Stop Advance]:
  assumes "\<And>c. page_at (oc_buf c) (oc_cursor c) = NeedMore \<Longrightarrow> P c"
    and "\<And>c. page_at (oc_buf c) (oc_cursor c) = BadMagic \<Longrightarrow> P c"
    and "\<And>c n. page_at (oc_buf c) (oc_cursor c) = Page n False \<Longrightarrow> 3 \<le> oc_fresh c \<Longrightarrow> P c"
    and "\<And>c n cont. page_at (oc_buf c) (oc_cursor c) = Page n cont \<Longrightarrow> cont \<or> oc_fresh c < 3 \<Longrightarrow>
           P (capture_advance c n cont) \<Longrightarrow> P c"
  shows "P c"
proof (induction c rule: capture_loop.induct)
  case (1 c)
  show ?case
  proof (cases "page_at (oc_buf c) (oc_cursor c)")
    case (Page n cont)
    show ?thesis
    proof (cases "\<not> cont \<and> 3 \<le> oc_fresh c")
      case False
      have "P (capture_advance c n cont)"
        using "1.IH" [OF Page False] by (simp add: capture_advance_def)
      with Page False show ?thesis by (metis assms(4) not_le)
    next
      case True
      with Page show ?thesis by (metis assms(3))
    qed
  next
    case NeedMore
    then show ?thesis by (rule assms(1))
  next
    case BadMagic
    then show ?thesis by (rule assms(2))
  qed
qed

lemma capture_loop_settled_append:
  "\<not> is_settled c \<Longrightarrow> is_settled (capture_loop c) \<Longrightarrow>
     capture_loop (c\<lparr>oc_buf := oc_buf c @ ys\<rparr>) = capture_loop c"
proof (induction c rule: capture_loop_induct)
  case (Stop c n)
  with page_at_Page_bounds [of "oc_buf c" "oc_cursor c" n False] show ?case
    by (simp add: guard_simps page_at_append)
next
  case (Advance c n cont)
  have a: "capture_loop c = capture_loop (capture_advance c n cont)"
    using Advance(1,2) by (rule capture_loop_advance)
  have "capture_loop (c\<lparr>oc_buf := oc_buf c @ ys\<rparr>) =
      capture_loop (capture_advance (c\<lparr>oc_buf := oc_buf c @ ys\<rparr>) n cont)"
    using Advance(1,2) by (intro capture_loop_advance) (simp_all add: page_at_append)
  with Advance.IH Advance.prems a show ?case by simp
qed (simp_all add: guard_simps page_at_append)

lemma capture_loop_waiting_append:
  "\<not> is_settled c \<Longrightarrow> \<not> is_settled (capture_loop c) \<Longrightarrow>
     oc_buf (capture_loop c) = oc_buf c \<and>
     capture_loop ((capture_loop c)\<lparr>oc_buf := oc_buf c @ ys\<rparr>) =
       capture_loop (c\<lparr>oc_buf := oc_buf c @ ys\<rparr>)"
proof (induction c rule: capture_loop_induct)
  case (Advance c n cont)
  have a: "capture_loop c = capture_loop (capture_advance c n cont)"
    using Advance(1,2) by (rule capture_loop_advance)
  have "capture_loop (c\<lparr>oc_buf := oc_buf c @ ys\<rparr>) =
      capture_loop (capture_advance (c\<lparr>oc_buf := oc_buf c @ ys\<rparr>) n cont)"
    using Advance(1,2) by (intro capture_loop_advance) (simp_all add: page_at_append)
  with Advance.IH Advance.prems a show ?case by simp
qed (simp_all add: guard_simps is_settled_def)

lemma capture_push_append:
  assumes "length (oc_buf c) + length a + length b \<le> max_header_buffer"
  shows "capture_push (capture_push c a) b = capture_push c (a @ b)"
proof (cases "is_settled c")
  case True
  then show ?thesis by (simp add: capture_push_def)
next
  case False
  let ?ca = "c\<lparr>oc_buf := oc_buf c @ a\<rparr>"
  have ca: "capture_push c a = capture_loop ?ca" and unsettled: "\<not> is_settled ?ca"
    using assms False by (auto simp: capture_push_def is_settled_def)
  have cab: "capture_push c (a @ b) = capture_loop (?ca\<lparr>oc_buf := oc_buf ?ca @ b\<rparr>)"
    using assms False by (auto simp: capture_push_def is_settled_def)
  show ?thesis
  proof (cases "is_settled (capture_loop ?ca)")
    case True
    then have "capture_push (capture_loop ?ca) b = capture_loop ?ca"
      by (simp add: capture_push_def)
    with ca cab capture_loop_settled_append [OF unsettled True] show ?thesis by metis
  next
    case False
    note w = capture_loop_waiting_append [OF unsettled False, of b]
    then have "capture_push (capture_loop ?ca) b = capture_loop ((capture_loop ?ca)\<lparr>oc_buf := oc_buf ?ca @ b\<rparr>)"
      using False assms by (simp add: capture_push_def)
    with w ca cab show ?thesis by metis
  qed
qed

text \<open>
  Claim C23. Capturing does not depend on how the published bytes are split into chunks: as long
  as the stream so far fits the 64 KiB buffer, pushing the chunks one by one leaves exactly the
  state that one push of their concatenation leaves (buffer, cursor, page count and flags).
\<close>

theorem capture_fragmentation:
  assumes "length (concat chunks) \<le> max_header_buffer"
  shows "foldl capture_push capture_new chunks = capture_push capture_new (concat chunks)"
  using assms
proof (induction chunks rule: rev_induct)
  case Nil
  show ?case
    by (simp add: capture_push_def capture_new_def is_settled_def max_header_buffer_def
        capture_loop_NeedMore page_at_def)
next
  case (snoc x xs)
  then have "foldl capture_push capture_new (xs @ [x]) =
      capture_push (capture_push capture_new (concat xs)) x"
    by simp
  also have "\<dots> = capture_push capture_new (concat xs @ x)"
    using snoc.prems by (intro capture_push_append) (simp add: capture_new_def)
  finally show ?case by simp
qed

theorem capture_fragmentation_witness:
  "foldl capture_push capture_new [[0x4F, 0x67], [0x67]] =
     capture_push capture_new (concat [[0x4F, 0x67], [0x67]])"
  by (rule capture_fragmentation) (simp add: max_header_buffer_def)

section \<open>What a capture holds\<close>

text \<open>A complete page, and whether it starts a fresh packet (continuation bit clear).\<close>

definition whole_page :: "byte list \<Rightarrow> bool" where
  "whole_page p \<longleftrightarrow> ogg_page_size p = Some (length p)"

definition fresh_page :: "byte list \<Rightarrow> bool" where
  "fresh_page p \<longleftrightarrow> p ! 5 AND 0x01 = 0"

definition fresh_count :: "byte list list \<Rightarrow> nat" where
  "fresh_count ps = length (filter fresh_page ps)"

lemma fresh_count_simps [simp]:
  "fresh_count [] = 0"
  "fresh_count (p # ps) = (if fresh_page p then Suc (fresh_count ps) else fresh_count ps)"
  by (simp_all add: fresh_count_def)

lemma page_at_whole_page:
  assumes "whole_page p"
  shows "page_at (pre @ p @ rest) (length pre) = Page (length p) (\<not> fresh_page p)"
  using assms
  by (auto simp: whole_page_def page_at_def ogg_page_size_def fresh_page_def Let_def nth_append
      split: if_splits)

lemma page_at_PageD:
  assumes "page_at buf ps = Page n cont"
  shows "whole_page (take n (drop ps buf)) \<and> cont = (\<not> fresh_page (take n (drop ps buf)))"
proof -
  from assms have len: "27 \<le> n" "ps + n \<le> length buf"
    and magic: "take 4 (drop ps buf) = ogg_magic"
    and n: "n = 27 + unat (buf ! (ps + 26)) +
      sum_list (map unat (take (unat (buf ! (ps + 26))) (drop (ps + 27) buf)))"
    and c: "cont = (buf ! (ps + 5) AND 1 \<noteq> 0)"
    by (auto simp: page_at_def Let_def split: if_splits)
  let ?p = "take n (drop ps buf)" and ?k = "unat (buf ! (ps + 26))"
  have nth: "?p ! i = buf ! (ps + i)" if "i < n" for i
    using that len by simp
  have "take 4 ?p = ogg_magic" using magic len by (simp add: min_def)
  moreover have "?p ! 26 = buf ! (ps + 26)" "?p ! 5 = buf ! (ps + 5)"
    using len nth by simp_all
  moreover have "take ?k (drop 27 ?p) = take ?k (drop (ps + 27) buf)"
  proof -
    have "27 + ?k \<le> n" using n by simp
    then show ?thesis by (simp add: drop_take add.commute)
  qed
  moreover have "length ?p = n" using len by simp
  ultimately show ?thesis
    using n len c by (auto simp: whole_page_def ogg_page_size_def fresh_page_def Let_def)
qed

lemma capture_loop_sound:
  "\<not> is_settled c \<Longrightarrow> oc_done (capture_loop c) \<Longrightarrow> oc_fresh c \<le> 3 \<Longrightarrow> oc_cursor c \<le> length (oc_buf c) \<Longrightarrow>
     \<exists>ps q rest. drop (oc_cursor c) (oc_buf c) = concat ps @ q @ rest \<and>
       oc_buf (capture_loop c) = take (oc_cursor c) (oc_buf c) @ concat ps \<and>
       (\<forall>p\<in>set ps. whole_page p) \<and> oc_fresh c + fresh_count ps = 3 \<and> whole_page q \<and> fresh_page q"
proof (induction c rule: capture_loop_induct)
  case (Stop c n)
  let ?d = "drop (oc_cursor c) (oc_buf c)"
  have "?d = concat [] @ take n ?d @ drop n ?d" by (simp del: drop_drop)
  moreover have "whole_page (take n ?d) \<and> fresh_page (take n ?d)"
    using page_at_PageD [OF Stop(1)] by simp
  ultimately show ?case
    using Stop by (intro exI [of _ "[]"] exI [of _ "take n ?d"] exI [of _ "drop n ?d"])
      (simp add: guard_simps)
next
  case (Advance c n cont)
  let ?d = "drop (oc_cursor c) (oc_buf c)" and ?c' = "capture_advance c n cont"
  have a: "capture_loop c = capture_loop ?c'"
    using Advance(1,2) by (rule capture_loop_advance)
  note b = page_at_Page_bounds [OF Advance(1)] and w = page_at_PageD [OF Advance(1)]
  obtain ps q rest where IH: "drop (oc_cursor c + n) (oc_buf c) = concat ps @ q @ rest"
    "oc_buf (capture_loop ?c') = take (oc_cursor c + n) (oc_buf c) @ concat ps"
    "\<forall>p\<in>set ps. whole_page p" "oc_fresh ?c' + fresh_count ps = 3" "whole_page q" "fresh_page q"
  proof -
    have "oc_fresh ?c' \<le> 3" using Advance(2) Advance.prems(3) by auto
    moreover have "oc_cursor ?c' \<le> length (oc_buf ?c')" using b by simp
    ultimately show thesis
      using Advance.IH Advance.prems(1,2) that unfolding a by (simp only: capture_advance_sel) blast
  qed
  have "?d = concat (take n ?d # ps) @ q @ rest"
    using IH(1) by (metis append.assoc append_take_drop_id concat.simps(2) drop_drop add.commute)
  moreover have "oc_buf (capture_loop c) = take (oc_cursor c) (oc_buf c) @ concat (take n ?d # ps)"
    using IH(2) a by (simp add: take_add)
  moreover have "oc_fresh c + fresh_count (take n ?d # ps) = 3"
    using IH(4) w by (auto split: if_splits)
  ultimately show ?case
    using IH(3,5,6) w by (intro exI [of _ "take n ?d # ps"] exI [of _ q] exI [of _ rest]) simp
qed (simp_all add: guard_simps is_settled_def)

lemma capture_loop_complete:
  "\<not> is_settled c \<Longrightarrow> oc_buf c = pre @ concat ps @ q @ rest \<Longrightarrow> oc_cursor c = length pre \<Longrightarrow>
     \<forall>p\<in>set ps. whole_page p \<Longrightarrow> oc_fresh c + fresh_count ps = 3 \<Longrightarrow> whole_page q \<Longrightarrow> fresh_page q \<Longrightarrow>
     oc_done (capture_loop c) \<and> oc_buf (capture_loop c) = pre @ concat ps"
proof (induction ps arbitrary: c pre)
  case Nil
  then show ?case
    by (subst (1 2) capture_loop_stop [of _ "length q"]) (auto simp: page_at_whole_page)
next
  case (Cons p ps)
  let ?c' = "capture_advance c (length p) (\<not> fresh_page p)"
  have page: "page_at (oc_buf c) (oc_cursor c) = Page (length p) (\<not> fresh_page p)"
    using Cons.prems by (simp add: page_at_whole_page)
  have "capture_loop c = capture_loop ?c'"
    by (rule capture_loop_advance [OF page]) (use Cons.prems in \<open>auto split: if_splits\<close>)
  moreover have "oc_done (capture_loop ?c') \<and> oc_buf (capture_loop ?c') = (pre @ p) @ concat ps"
    by (rule Cons.IH) (use Cons.prems in \<open>auto split: if_splits\<close>)
  ultimately show ?case by simp
qed

text \<open>
  The captured prefix is exactly what it is meant to be in terms of pages: for a
  stream that fits the buffer, the capture yields \<open>h\<close> if and only if the stream begins with whole
  Ogg pages \<open>ps\<close>, three of them starting a fresh packet, followed by a whole page that starts a
  fresh packet, and \<open>h\<close> is the concatenation of \<open>ps\<close>.
\<close>

theorem capture_header_bytes_iff:
  assumes "length stream \<le> max_header_buffer"
  shows "header_bytes (capture_push capture_new stream) = Some h \<longleftrightarrow>
    (\<exists>ps q rest. stream = concat ps @ q @ rest \<and> h = concat ps \<and> (\<forall>p\<in>set ps. whole_page p) \<and>
       fresh_count ps = 3 \<and> whole_page q \<and> fresh_page q)"
proof -
  let ?c = "capture_new\<lparr>oc_buf := stream\<rparr>"
  have push: "capture_push capture_new stream = capture_loop ?c"
    using assms by (simp add: capture_push_def is_settled_def capture_new_def)
  have c: "\<not> is_settled ?c" "oc_fresh ?c = 0" "oc_cursor ?c = 0" "oc_buf ?c = stream"
    by (simp_all add: capture_new_def is_settled_def)
  show ?thesis
  proof
    assume "header_bytes (capture_push capture_new stream) = Some h"
    then have d: "oc_done (capture_loop ?c)" and h: "h = oc_buf (capture_loop ?c)"
      by (auto simp: push header_bytes_def split: if_splits)
    from capture_loop_sound [OF c(1) d] c h show "\<exists>ps q rest. stream = concat ps @ q @ rest \<and> h = concat ps \<and>
      (\<forall>p\<in>set ps. whole_page p) \<and> fresh_count ps = 3 \<and> whole_page q \<and> fresh_page q"
      by simp
  next
    assume "\<exists>ps q rest. stream = concat ps @ q @ rest \<and> h = concat ps \<and> (\<forall>p\<in>set ps. whole_page p) \<and>
      fresh_count ps = 3 \<and> whole_page q \<and> fresh_page q"
    then obtain ps q rest where "stream = concat ps @ q @ rest" "h = concat ps"
      "\<forall>p\<in>set ps. whole_page p" "fresh_count ps = 3" "whole_page q" "fresh_page q"
      by blast
    with capture_loop_complete [OF c(1), of "[]" ps q rest] c
    have "oc_done (capture_loop ?c) \<and> oc_buf (capture_loop ?c) = h"
      by simp
    then show "header_bytes (capture_push capture_new stream) = Some h"
      unfolding push by (simp add: header_bytes_def)
  qed
qed

text \<open>A page with the given header type and lacing values, its body all zero.\<close>

definition mk_page :: "byte \<Rightarrow> byte list \<Rightarrow> byte list" where
  "mk_page htype lacing =
     ogg_magic @ [0, htype] @ replicate 20 0 @ [of_nat (length lacing)] @ lacing
       @ replicate (sum_list (map unat lacing)) 0"

lemma whole_page_mk_page:
  "length lacing < 256 \<Longrightarrow> whole_page (mk_page htype lacing)"
  by (simp add: whole_page_def mk_page_def ogg_page_size_def ogg_magic_def bytes_of_def nth_append
      unat_of_nat Let_def)

lemma fresh_page_mk_page: "fresh_page (mk_page htype lacing) \<longleftrightarrow> htype AND 1 = 0"
  by (simp add: fresh_page_def mk_page_def ogg_magic_def bytes_of_def nth_append)

theorem capture_header_bytes_iff_witness:
  "header_bytes (capture_push capture_new
      (concat [mk_page 2 [30], mk_page 0 [9], mk_page 0 [255, 5], mk_page 0 [7]])) =
   Some (concat [mk_page 2 [30], mk_page 0 [9], mk_page 0 [255, 5]])"
proof -
  let ?ps = "[mk_page 2 [30], mk_page 0 [9], mk_page 0 [255, 5]]" and ?q = "mk_page 0 [7]"
  have "length (concat (?ps @ [?q])) \<le> max_header_buffer"
    by (simp add: mk_page_def ogg_magic_def max_header_buffer_def)
  note iff = capture_header_bytes_iff [OF this, of "concat ?ps"]
  have "header_bytes (capture_push capture_new (concat (?ps @ [?q]))) = Some (concat ?ps)"
    unfolding iff
    by (intro exI [of _ ?ps] exI [of _ ?q] exI [of _ "[]"])
      (simp add: whole_page_mk_page fresh_page_mk_page)
  then show ?thesis by simp
qed

text \<open>Packets that end on a page: lacing values below 255.\<close>

definition packets_ending :: "byte list \<Rightarrow> nat" where
  "packets_ending p = length (filter (\<lambda>b. b < 255) (take (unat (p ! 26)) (drop 27 p)))"

lemma packets_ending_mk_page:
  "length lacing < 256 \<Longrightarrow> packets_ending (mk_page htype lacing) = length (filter (\<lambda>b. b < 255) lacing)"
  by (simp add: packets_ending_def mk_page_def ogg_magic_def bytes_of_def nth_append unat_of_nat)

text \<open>
  The capture counts fresh pages, not header packets. On a stream whose second page
  holds both the comment and the setup packet (the layout an encoder produces when it flushes
  the two together), the captured prefix also holds the first audio page: four packets, not
  three.
\<close>

theorem capture_takes_audio_page:
  "let ident = mk_page 2 [30]; comment_setup = mk_page 0 [9, 12]; audio1 = mk_page 0 [7]; audio2 = mk_page 0 [8]
   in header_bytes (capture_push capture_new (concat [ident, comment_setup, audio1, audio2])) =
        Some (concat [ident, comment_setup, audio1])
      \<and> sum_list (map packets_ending [ident, comment_setup]) = 3
      \<and> sum_list (map packets_ending [ident, comment_setup, audio1]) = 4"
proof -
  let ?ps = "[mk_page 2 [30], mk_page 0 [9, 12], mk_page 0 [7]]" and ?q = "mk_page 0 [8]"
  let ?c = "capture_new\<lparr>oc_buf := concat (?ps @ [?q])\<rparr>"
  have "oc_done (capture_loop ?c) \<and> oc_buf (capture_loop ?c) = [] @ concat ?ps"
    by (rule capture_loop_complete [where q = ?q and rest = "[]"])
      (simp_all add: whole_page_mk_page fresh_page_mk_page capture_new_def is_settled_def)
  moreover have "length (concat (?ps @ [?q])) \<le> max_header_buffer"
    by (simp add: mk_page_def ogg_magic_def max_header_buffer_def)
  ultimately have "header_bytes (capture_push capture_new (concat (?ps @ [?q]))) = Some (concat ?ps)"
    by (simp add: capture_push_def header_bytes_def capture_new_def is_settled_def)
  then show ?thesis by (simp add: packets_ending_mk_page Let_def)
qed

section \<open>The prober reads back what an encoder writes\<close>

definition le32 :: "nat \<Rightarrow> byte list" where
  "le32 n = [of_nat n, of_nat (n div 256), of_nat (n div 65536), of_nat (n div 16777216)]"

lemma u32_of_le_le32:
  assumes "n < 2 ^ 32"
  shows "u32_of_le (of_nat n) (of_nat (n div 256)) (of_nat (n div 65536)) (of_nat (n div 16777216)) = n"
proof -
  let ?a = "n div 256" and ?b = "n div 65536" and ?c = "n div 16777216"
  have "?c mod 256 = ?c" using assms by simp
  moreover have "?b mod 256 + 256 * ?c = ?b"
    using mod_mult_div_eq [of ?b 256] by (simp add: div_mult2_eq [symmetric])
  moreover have "?a mod 256 + 256 * ?b = ?a"
    using mod_mult_div_eq [of ?a 256] by (simp add: div_mult2_eq [symmetric])
  moreover have "n mod 256 + 256 * ?a = n" by simp
  moreover have "u32_of_le (of_nat n) (of_nat ?a) (of_nat ?b) (of_nat ?c) =
      n mod 256 + 256 * (?a mod 256 + 256 * (?b mod 256 + 256 * (?c mod 256)))"
    by (simp add: u32_of_le_def unat_of_nat)
  ultimately show ?thesis by simp
qed

text \<open>
  The identification packet and the beginning-of-stream page an encoder writes for a sample
  rate, a channel count and a nominal bitrate in bits per second.
\<close>

definition ident_packet :: "nat \<Rightarrow> byte \<Rightarrow> nat \<Rightarrow> byte list" where
  "ident_packet sr channels nominal =
     vorbis_ident @ le32 0 @ [channels] @ le32 sr @ le32 0 @ le32 nominal @ le32 0 @ [0xB8, 0x01]"

definition bos_page :: "nat \<Rightarrow> byte \<Rightarrow> nat \<Rightarrow> byte list" where
  "bos_page sr channels nominal =
     ogg_magic @ [0, 0x02] @ replicate 20 0 @ [1, 30] @ ident_packet sr channels nominal"

lemma length_ident_packet: "length (ident_packet sr channels nominal) = 30"
  by (simp add: ident_packet_def vorbis_ident_def bytes_of_def le32_def)

lemma length_bos_page: "length (bos_page sr channels nominal) = 58"
  by (simp add: bos_page_def length_ident_packet ogg_magic_def bytes_of_def)

lemma bos_page_parts:
  assumes h: "h = bos_page sr channels nominal @ rest"
  shows "length h = 58 + length rest"
    and "take 4 h = ogg_magic" "h ! 5 = 2" "h ! 26 = 1" "take (Suc 0) (drop 27 h) = [30]"
    and "drop 28 h = ident_packet sr channels nominal @ rest"
  by (simp_all add: h length_bos_page)
    (simp_all add: bos_page_def ogg_magic_def bytes_of_def nth_append)

lemma ident_packet_parts:
  assumes b: "b = ident_packet sr channels nominal @ rest"
  shows "take 7 b = vorbis_ident"
    and "b ! 7 = 0" "b ! 8 = 0" "b ! 9 = 0" "b ! 10 = 0" "b ! 11 = channels"
    and "b ! 12 = of_nat sr" "b ! 13 = of_nat (sr div 256)"
      "b ! 14 = of_nat (sr div 65536)" "b ! 15 = of_nat (sr div 16777216)"
    and "b ! 20 = of_nat nominal" "b ! 21 = of_nat (nominal div 256)"
      "b ! 22 = of_nat (nominal div 65536)" "b ! 23 = of_nat (nominal div 16777216)"
  by (simp_all add: b ident_packet_def vorbis_ident_def bytes_of_def le32_def)

lemma vorbis_probe_bos:
  assumes "0 < sr" and "sr < 2 ^ 32" and "channels \<noteq> 0" and "0 < nominal" and "nominal < 2 ^ 31"
  shows "vorbis_probe (bos_page sr channels nominal @ rest) =
      Some \<lparr>ci_id = VORBIS, ci_sample_rate = sr, ci_channels = unat channels,
            ci_bitrate_kbps = Some (nominal div 1000)\<rparr>
    \<and> ogg_page_size (bos_page sr channels nominal @ rest) = Some (length (bos_page sr channels nominal))"
proof -
  define h where "h = bos_page sr channels nominal @ rest"
  note parts = bos_page_parts [OF h_def]
  define b where "b = drop 28 h"
  note ident = ident_packet_parts [OF trans [OF b_def parts(6)]]
  have "u32_of_le (of_nat sr) (of_nat (sr div 256)) (of_nat (sr div 65536)) (of_nat (sr div 16777216)) = sr"
    using assms by (intro u32_of_le_le32)
  moreover have "i32_of_le (of_nat nominal) (of_nat (nominal div 256)) (of_nat (nominal div 65536))
      (of_nat (nominal div 16777216)) = int nominal"
    using assms by (simp add: i32_of_le_def u32_of_le_le32)
  moreover have "u32_of_le 0 0 0 0 = 0" by (simp add: u32_of_le_def)
  moreover have "unat channels \<noteq> 0" using assms by (simp add: unat_eq_zero)
  ultimately have "vorbis_probe h = Some \<lparr>ci_id = VORBIS, ci_sample_rate = sr,
      ci_channels = unat channels, ci_bitrate_kbps = Some (nominal div 1000)\<rparr>"
    using assms(1,4) parts ident
    by (simp add: vorbis_probe_def Let_def b_def [symmetric])
  moreover have "ogg_page_size h = Some 58"
    using parts by (simp add: ogg_page_size_def Let_def)
  ultimately show ?thesis by (simp add: h_def length_bos_page)
qed

text \<open>
  Round trip of the identification header: probing the beginning-of-stream page
  written for a sample rate, a channel count and a nominal bitrate returns them (the bitrate in
  whole kilobits per second), whatever follows the page, and the page sizer returns the length
  of that page.
\<close>

theorem vorbis_probe_bos_page:
  assumes "0 < sr" and "sr < 2 ^ 32" and "channels \<noteq> 0" and "0 < nominal" and "nominal < 2 ^ 31"
  shows "vorbis_probe (bos_page sr channels nominal @ rest) =
      Some \<lparr>ci_id = VORBIS, ci_sample_rate = sr, ci_channels = unat channels,
            ci_bitrate_kbps = Some (nominal div 1000)\<rparr>
    \<and> ogg_page_size (bos_page sr channels nominal @ rest) = Some (length (bos_page sr channels nominal))"
  using assms by (rule vorbis_probe_bos)

theorem vorbis_probe_bos_page_witness:
  "vorbis_probe (bos_page 44100 2 192000 @ []) =
     Some \<lparr>ci_id = VORBIS, ci_sample_rate = 44100, ci_channels = 2, ci_bitrate_kbps = Some 192\<rparr>"
  using vorbis_probe_bos_page [of 44100 2 192000 "[]"] by simp

end
