(* ===== verification/Http_Types.thy ===== *)
theory Http_Types
  imports Core_Types
begin

text \<open>
  What the handlers see of HTTP. A header map is the lookup the code performs on it: the first
  value of a field, which either is visible text or is not (\<open>to_str\<close> fails). Field names are
  lower case, as the library normalises them. A response is its status, the header fields the
  handler sets, and its text.
\<close>

datatype header_value = HvText string | HvOpaque "byte list"

type_synonym headers = "string \<Rightarrow> header_value option"

fun to_str :: "header_value \<Rightarrow> string option" where
  "to_str (HvText s) = Some s"
| "to_str (HvOpaque _) = None"

definition header_str :: "headers \<Rightarrow> string \<Rightarrow> string option" where
  "header_str hs name = Option.bind (hs name) to_str"

record response =
  re_status :: nat
  re_headers :: "(string \<times> string) list"
  re_body :: string

definition status_response :: "nat \<Rightarrow> string \<Rightarrow> response" where
  "status_response code body = \<lparr>re_status = code, re_headers = [], re_body = body\<rparr>"

text \<open>ASCII lower case, as \<open>to_ascii_lowercase\<close> and \<open>eq_ignore_ascii_case\<close> use it.\<close>

definition ascii_lower :: "char \<Rightarrow> char" where
  "ascii_lower c = (let n = of_char c :: nat in if 65 \<le> n \<and> n \<le> 90 then char_of (n + 32) else c)"

definition to_ascii_lowercase :: "string \<Rightarrow> string" where
  "to_ascii_lowercase s = map ascii_lower s"

definition eq_ignore_ascii_case :: "string \<Rightarrow> string \<Rightarrow> bool" where
  "eq_ignore_ascii_case a b \<longleftrightarrow> to_ascii_lowercase a = to_ascii_lowercase b"

end
