(* ===== verification/Broadcast_Bus.thy ===== *)
theory Broadcast_Bus
  imports Core_Types
begin

text \<open>
  \<open>crates/rustyice-server/src/bus.rs\<close> and the \<open>BroadcastBus\<close> trait of \<open>traits.rs\<close>. The channel
  \<open>tokio::sync::broadcast\<close> is not code of the repository: the model records the packets handed
  to \<open>sender.send\<close>, in order, and for each live receiver how many had been sent when
  \<open>sender.subscribe\<close> was called; by the channel's documented contract a receiver yields the
  packets sent after that point (or reports a lag). Every operation runs under the history lock,
  so each is one atomic step. The locale states what the trait promises its clients: what has
  been published, and that a subscription's prefix continues seamlessly into live packets.
\<close>

definition packet_bytes :: "stream_packet \<Rightarrow> nat" where
  "packet_bytes p = (case sp_payload p of Encoded e \<Rightarrow> length (ep_data e) | Decoded _ \<Rightarrow> 0)"

definition total_bytes :: "stream_packet list \<Rightarrow> nat" where
  "total_bytes ps = sum_list (map packet_bytes ps)"

lemma total_bytes_simps [simp]:
  "total_bytes [] = 0"
  "total_bytes (p # ps) = packet_bytes p + total_bytes ps"
  "total_bytes (ps @ qs) = total_bytes ps + total_bytes qs"
  "total_bytes (rev ps) = total_bytes ps"
  by (simp_all add: total_bytes_def rev_map [symmetric] sum_list_rev)

section \<open>State\<close>

record bus =
  bs_ring_capacity :: nat
  bs_burst_cap :: nat
  bs_packets :: "stream_packet list"
  bs_bytes :: nat
  bs_sent :: "stream_packet list"
  bs_receivers :: "nat list"

definition bus_new :: "nat \<Rightarrow> nat \<Rightarrow> bus" where
  "bus_new ring_capacity burst_bytes =
     \<lparr>bs_ring_capacity = ring_capacity, bs_burst_cap = burst_bytes, bs_packets = [], bs_bytes = 0,
      bs_sent = [], bs_receivers = []\<rparr>"

section \<open>Operations\<close>

text \<open>The eviction loop of \<open>publish\<close>; \<open>saturating_sub\<close> is subtraction on naturals.\<close>

fun evict :: "nat \<Rightarrow> stream_packet list \<Rightarrow> nat \<Rightarrow> stream_packet list \<times> nat" where
  "evict cap (front # p # ps) bytes =
     (if bytes > cap then evict cap (p # ps) (bytes - packet_bytes front)
      else (front # p # ps, bytes))"
| "evict cap ps bytes = (ps, bytes)"

definition publish :: "bus \<Rightarrow> stream_packet \<Rightarrow> bus" where
  "publish b packet =
     (let packets = bs_packets b @ [packet];
          bytes = bs_bytes b + packet_bytes packet;
          (packets', bytes') = evict (bs_burst_cap b) packets bytes
      in b\<lparr>bs_sent := bs_sent b @ [packet], bs_packets := packets', bs_bytes := bytes'\<rparr>)"

text \<open>
  The walk of \<open>subscribe\<close> over the reversed history. \<open>snapshot\<close> grows at the end in the code and
  is reversed afterwards; here it grows at the front, which is the same list.
\<close>

fun burst_walk :: "nat \<Rightarrow> nat \<Rightarrow> stream_packet list \<Rightarrow> stream_packet list \<Rightarrow> stream_packet list" where
  "burst_walk cap acc snapshot [] = snapshot"
| "burst_walk cap acc snapshot (p # rest) =
     (let sz = packet_bytes p in
      if acc + sz > cap \<and> snapshot \<noteq> [] then snapshot
      else if acc + sz \<ge> cap then p # snapshot
      else burst_walk cap (acc + sz) (p # snapshot) rest)"

definition add_receiver :: "bus \<Rightarrow> bus" where
  "add_receiver b = b\<lparr>bs_receivers := bs_receivers b @ [length (bs_sent b)]\<rparr>"

text \<open>The result is the replayed prefix and the bus with the new receiver.\<close>

definition subscribe :: "bus \<Rightarrow> stream_packet list \<times> bus" where
  "subscribe b =
     (if bs_burst_cap b = 0 then ([], add_receiver b)
      else (burst_walk (bs_burst_cap b) 0 [] (rev (bs_packets b)), add_receiver b))"

definition subscribe_live :: "bus \<Rightarrow> stream_packet list \<times> bus" where
  "subscribe_live b = ([], add_receiver b)"

definition subscriber_count :: "bus \<Rightarrow> nat" where
  "subscriber_count b = length (bs_receivers b)"

text \<open>Dropping a subscription drops its receiver.\<close>

definition drop_receiver :: "bus \<Rightarrow> nat \<Rightarrow> bus" where
  "drop_receiver b i = b\<lparr>bs_receivers := take i (bs_receivers b) @ drop (Suc i) (bs_receivers b)\<rparr>"

text \<open>\<open>live_stream\<close>: lag reports are filtered out of what the receiver yields.\<close>

datatype recv_result = Received stream_packet | Lagged nat

definition live_stream :: "recv_result list \<Rightarrow> stream_packet list" where
  "live_stream rs = List.map_filter (\<lambda>r. case r of Received p \<Rightarrow> Some p | Lagged _ \<Rightarrow> None) rs"

section \<open>Invariant\<close>

definition bus_inv :: "bus \<Rightarrow> bool" where
  "bus_inv b \<longleftrightarrow>
     bs_bytes b = total_bytes (bs_packets b) \<and>
     (bs_bytes b \<le> bs_burst_cap b \<or> length (bs_packets b) \<le> 1) \<and>
     suffix (bs_packets b) (bs_sent b) \<and>
     (bs_sent b \<noteq> [] \<longrightarrow> bs_packets b \<noteq> []) \<and>
     (\<forall>r\<in>set (bs_receivers b). r \<le> length (bs_sent b))"

lemma bus_inv_new: "bus_inv (bus_new ring cap)"
  by (simp add: bus_inv_def bus_new_def)

lemma evict_spec:
  "bytes = total_bytes ps \<Longrightarrow> evict cap ps bytes = (ps', bytes') \<Longrightarrow>
     bytes' = total_bytes ps' \<and> (bytes' \<le> cap \<or> length ps' \<le> 1) \<and> suffix ps' ps \<and> (ps \<noteq> [] \<longrightarrow> ps' \<noteq> [])"
proof (induction cap ps bytes rule: evict.induct)
  case (1 cap front p ps bytes)
  show ?case
  proof (cases "bytes > cap")
    case True
    have "bytes - packet_bytes front = total_bytes (p # ps)"
      using "1.prems"(1) by simp
    moreover have "evict cap (p # ps) (bytes - packet_bytes front) = (ps', bytes')"
      using "1.prems"(2) True by simp
    ultimately show ?thesis
      using "1.IH" [OF True] by (auto intro: suffix_ConsI)
  qed (use "1.prems" in auto)
qed auto

lemma publish_sel [simp]:
  "bs_sent (publish b p) = bs_sent b @ [p]"
  "bs_receivers (publish b p) = bs_receivers b"
  "bs_burst_cap (publish b p) = bs_burst_cap b"
  by (simp_all add: publish_def Let_def split: prod.split)

lemma add_receiver_sel [simp]:
  "bs_sent (add_receiver b) = bs_sent b"
  "bs_packets (add_receiver b) = bs_packets b"
  by (simp_all add: add_receiver_def)

lemma bus_inv_add_receiver: "bus_inv b \<Longrightarrow> bus_inv (add_receiver b)"
  by (auto simp: bus_inv_def add_receiver_def)

lemma bus_inv_drop_receiver: "bus_inv b \<Longrightarrow> bus_inv (drop_receiver b i)"
  by (auto simp: bus_inv_def drop_receiver_def dest!: in_set_takeD in_set_dropD)

lemma publish_facts:
  assumes "bus_inv b"
  shows "bus_inv (publish b p) \<and> bs_packets (publish b p) \<noteq> [] \<and> last (bs_packets (publish b p)) = p"
proof -
  obtain ps' bytes' where e: "evict (bs_burst_cap b) (bs_packets b @ [p]) (bs_bytes b + packet_bytes p) = (ps', bytes')"
    by (cases "evict (bs_burst_cap b) (bs_packets b @ [p]) (bs_bytes b + packet_bytes p)")
  have "bs_bytes b + packet_bytes p = total_bytes (bs_packets b @ [p])"
    using assms by (simp add: bus_inv_def)
  note ev = evict_spec [OF this e]
  have pub: "bs_packets (publish b p) = ps'" "bs_bytes (publish b p) = bytes'"
    using e by (simp_all add: publish_def)
  have "suffix ps' (bs_sent b @ [p])"
    using ev assms by (metis append_assoc bus_inv_def suffix_def)
  moreover have "last ps' = p"
    using ev by (metis append_is_Nil_conv last_appendR last_snoc not_Cons_self2 suffix_def)
  ultimately show ?thesis
    using ev pub assms by (auto simp: bus_inv_def)
qed

text \<open>
  Claim C18. Publishing keeps the history ring consistent: the byte total is that of the kept
  packets, at most the burst cap or a single packet is kept, the kept packets are the most
  recent ones published, and the latest packet is always among them.
\<close>

theorem publish_preserves_inv:
  assumes "bus_inv b"
  shows "bus_inv (publish b p) \<and> bs_packets (publish b p) \<noteq> [] \<and> last (bs_packets (publish b p)) = p"
  using assms by (rule publish_facts)

theorem publish_preserves_inv_witness:
  "bus_inv (publish (bus_new 64 4) \<lparr>sp_payload = Encoded \<lparr>ep_codec = MP3, ep_data = [1, 2, 3]\<rparr>, sp_pts = 0, sp_sequence = 0\<rparr>)"
  using publish_preserves_inv [OF bus_inv_new] by blast

section \<open>Burst on connect\<close>

lemma burst_walk_spec:
  "acc = total_bytes snap \<Longrightarrow> total_bytes (rev rest) + total_bytes snap \<le> cap \<or> length rest + length snap \<le> 1 \<Longrightarrow>
   0 < cap \<Longrightarrow> (snap = [] \<or> acc < cap) \<Longrightarrow>
     suffix (burst_walk cap acc snap rest) (rev rest @ snap) \<and>
     suffix snap (burst_walk cap acc snap rest) \<and>
     (rest \<noteq> [] \<longrightarrow> burst_walk cap acc snap rest \<noteq> []) \<and>
     (burst_walk cap acc snap rest = rev rest @ snap \<or> total_bytes (burst_walk cap acc snap rest) = cap)"
proof (induction cap acc snap rest rule: burst_walk.induct)
  case (1 cap acc snap)
  then show ?case by simp
next
  case (2 cap acc snap p rest)
  show ?case
  proof (cases "acc + packet_bytes p \<ge> cap")
    case False
    have ih: "suffix (burst_walk cap (acc + packet_bytes p) (p # snap) rest) (rev rest @ p # snap) \<and>
        suffix (p # snap) (burst_walk cap (acc + packet_bytes p) (p # snap) rest) \<and>
        (rest \<noteq> [] \<longrightarrow> burst_walk cap (acc + packet_bytes p) (p # snap) rest \<noteq> []) \<and>
        (burst_walk cap (acc + packet_bytes p) (p # snap) rest = rev rest @ p # snap \<or>
         total_bytes (burst_walk cap (acc + packet_bytes p) (p # snap) rest) = cap)"
      using False "2.prems" by (intro "2.IH") auto
    then show ?thesis using False
      by (auto simp: Let_def dest: suffix_ConsD)
  next
    case True
    then show ?thesis using "2.prems"
      by (auto simp: Let_def suffix_def)
  qed
qed

lemma subscribe_facts:
  assumes "bus_inv b" and "subscribe b = (burst, b')"
  shows "suffix burst (bs_sent b) \<and> (total_bytes burst \<le> bs_burst_cap b \<or> length burst = 1) \<and>
    (if bs_burst_cap b = 0 then burst = []
     else (bs_sent b \<noteq> [] \<longrightarrow> burst \<noteq> []) \<and> (burst = bs_packets b \<or> total_bytes burst = bs_burst_cap b))"
proof (cases "bs_burst_cap b = 0")
  case True
  with assms show ?thesis by (auto simp: subscribe_def)
next
  case False
  from assms False have burst: "burst = burst_walk (bs_burst_cap b) 0 [] (rev (bs_packets b))"
    by (simp add: subscribe_def)
  have w: "suffix burst (bs_packets b) \<and> (bs_packets b \<noteq> [] \<longrightarrow> burst \<noteq> []) \<and>
      (burst = bs_packets b \<or> total_bytes burst = bs_burst_cap b)"
    using burst_walk_spec [of 0 "[]" "rev (bs_packets b)" "bs_burst_cap b"] assms(1) False burst
    by (auto simp: bus_inv_def)
  have "total_bytes burst \<le> bs_burst_cap b \<or> length burst = 1"
    using w assms(1) by (auto simp: bus_inv_def le_Suc_eq)
  moreover have "suffix burst (bs_sent b)"
    using w assms(1) by (auto simp: bus_inv_def intro: suffix_order.trans)
  ultimately show ?thesis using w False assms(1) by (auto simp: bus_inv_def)
qed

text \<open>
  Burst on connect: with a positive cap, the prefix replayed to a new subscriber is
  the end of what has been published, it is not empty once something has been published, it
  stays within the cap or is a single packet, and it is the whole retained history unless its
  bytes fill the cap exactly. With a cap of zero nothing is replayed.
\<close>

theorem subscribe_burst:
  assumes "bus_inv b" and "subscribe b = (burst, b')"
  shows "suffix burst (bs_sent b) \<and> (total_bytes burst \<le> bs_burst_cap b \<or> length burst = 1) \<and>
    (if bs_burst_cap b = 0 then burst = []
     else (bs_sent b \<noteq> [] \<longrightarrow> burst \<noteq> []) \<and> (burst = bs_packets b \<or> total_bytes burst = bs_burst_cap b))"
  using assms by (rule subscribe_facts)

definition enc_packet :: "byte list \<Rightarrow> nat \<Rightarrow> stream_packet" where
  "enc_packet d n = \<lparr>sp_payload = Encoded \<lparr>ep_codec = MP3, ep_data = d\<rparr>, sp_pts = 0, sp_sequence = n\<rparr>"

definition bus_sample :: bus where
  "bus_sample = foldl publish (bus_new 64 5) [enc_packet [1, 2] 0, enc_packet [3, 4] 1, enc_packet [5, 6] 2]"

lemma bus_inv_sample: "bus_inv bus_sample"
  by (simp add: bus_sample_def publish_facts bus_inv_new)

theorem subscribe_burst_witness:
  "subscribe bus_sample = ([enc_packet [3, 4] 1, enc_packet [5, 6] 2], add_receiver bus_sample) \<and>
   suffix [enc_packet [3, 4] 1, enc_packet [5, 6] 2] (bs_sent bus_sample)"
proof -
  have s: "subscribe bus_sample = ([enc_packet [3, 4] 1, enc_packet [5, 6] 2], add_receiver bus_sample)"
    by (simp add: bus_sample_def subscribe_def publish_def bus_new_def packet_bytes_def enc_packet_def)
  with subscribe_burst [OF bus_inv_sample s] show ?thesis by blast
qed

section \<open>What the bus promises its clients\<close>

locale broadcast_bus =
  fixes sent :: "'b \<Rightarrow> 'p list"
    and put :: "'b \<Rightarrow> 'p \<Rightarrow> 'b"
    and join :: "'b \<Rightarrow> 'p list \<times> 'b"
    and join_live :: "'b \<Rightarrow> 'p list \<times> 'b"
    and ok :: "'b \<Rightarrow> bool"
  assumes sent_put: "sent (put b p) = sent b @ [p]"
    and ok_put: "ok b \<Longrightarrow> ok (put b p)"
    and join_suffix: "ok b \<Longrightarrow> join b = (pre, b') \<Longrightarrow> suffix pre (sent b)"
    and sent_join: "join b = (pre, b') \<Longrightarrow> sent b' = sent b \<and> (ok b \<longrightarrow> ok b')"
    and join_live_empty: "join_live b = (pre, b') \<Longrightarrow> pre = [] \<and> sent b' = sent b \<and> (ok b \<longrightarrow> ok b')"
begin

text \<open>Publishing a list of packets in order.\<close>

definition put_all :: "'b \<Rightarrow> 'p list \<Rightarrow> 'b" where
  "put_all = foldl put"

lemma sent_put_all: "sent (put_all b ps) = sent b @ ps"
  by (induction ps arbitrary: b) (auto simp: put_all_def sent_put)

lemma ok_put_all: "ok b \<Longrightarrow> ok (put_all b ps)"
  by (induction ps arbitrary: b) (auto simp: put_all_def ok_put)

text \<open>A subscriber that keeps up sees its prefix, then everything sent after it joined.\<close>

lemma joined_view_contiguous:
  assumes "ok b" and "join b = (pre, b')"
  shows "suffix (pre @ ps) (sent (put_all b' ps)) \<and>
    drop (length (sent b)) (sent (put_all b' ps)) = ps"
  using join_suffix [OF assms] sent_join [OF assms(2)]
  by (auto simp: sent_put_all suffix_def)

lemma joined_live_view:
  assumes "join_live b = (pre, b')"
  shows "pre @ ps = drop (length (sent b)) (sent (put_all b' ps))"
  using join_live_empty [OF assms] by (simp add: sent_put_all)

end

interpretation tokio_bus: broadcast_bus bs_sent publish subscribe subscribe_live bus_inv
proof unfold_locales
  show "bus_inv b \<Longrightarrow> subscribe b = (pre, b') \<Longrightarrow> suffix pre (bs_sent b)" for b pre b'
    by (rule subscribe_facts [THEN conjunct1])
qed (auto simp: publish_facts subscribe_def subscribe_live_def bus_inv_add_receiver split: if_splits)



lemma live_stream_no_lag: "live_stream (map Received ps) = ps"
  by (induction ps) (auto simp: live_stream_def map_filter_simps)

end
