(* ===== verification/Mount_Model.thy ===== *)
theory Mount_Model
  imports Broadcast_Bus
begin

text \<open>
  \<open>crates/rustyice-core/src/mount.rs\<close>: the live state of a mount point and the registry of
  mounts. An \<open>ActiveMount\<close> is shared through \<open>Arc\<close>, and several tasks write its atomics, so the
  system theories keep mounts in a store indexed by address; this theory gives the record, the
  operations on one mount, and the registry as a map from paths. An instant is a number of
  nanoseconds on the monotonic clock; a cancellation token is its identity.
\<close>

section \<open>Source kind\<close>

datatype source_kind = KindNone | KindLive | KindAutoDj | KindRelay

definition source_kind_from_u8 :: "byte \<Rightarrow> source_kind" where
  "source_kind_from_u8 v =
     (if v = 1 then KindLive else if v = 2 then KindAutoDj else if v = 3 then KindRelay else KindNone)"

fun source_kind_to_u8 :: "source_kind \<Rightarrow> byte" where
  "source_kind_to_u8 KindNone = 0"
| "source_kind_to_u8 KindLive = 1"
| "source_kind_to_u8 KindAutoDj = 2"
| "source_kind_to_u8 KindRelay = 3"

lemma source_kind_roundtrip [simp]: "source_kind_from_u8 (source_kind_to_u8 k) = k"
  by (cases k) (simp_all add: source_kind_from_u8_def)

section \<open>Identity records\<close>

record mount_metadata =
  mm_name :: "string option"
  mm_description :: "string option"
  mm_genre :: "string option"
  mm_url :: "string option"

definition default_metadata :: mount_metadata where
  "default_metadata = \<lparr>mm_name = None, mm_description = None, mm_genre = None, mm_url = None\<rparr>"

record source_overlay =
  so_name :: "string option"
  so_description :: "string option"
  so_genre :: "string option"
  so_url :: "string option"
  so_public :: "bool option"
  so_audio_info :: "string option"
  so_bitrate_kbps :: "nat option"

record effective_identity =
  ei_name :: "string option"
  ei_description :: "string option"
  ei_genre :: "string option"
  ei_url :: "string option"
  ei_public :: "bool option"
  ei_audio_info :: "string option"
  ei_bitrate_kbps :: "nat option"

record mount_info =
  mi_path :: string
  mi_codec :: codec_id
  mi_source_password :: string
  mi_max_listeners :: "nat option"
  mi_metadata :: mount_metadata

text \<open>
  The counters are \<open>AtomicU64\<close> fields incremented with \<open>fetch_add\<close>, which wraps.
\<close>

record mount_stats =
  ms_bytes_received :: "64 word"
  ms_bytes_sent :: "64 word"
  ms_packets_published :: "64 word"
  ms_total_listener_seconds :: "64 word"
  ms_peak_listeners :: "32 word"

definition default_mount_stats :: mount_stats where
  "default_mount_stats = \<lparr>ms_bytes_received = 0, ms_bytes_sent = 0, ms_packets_published = 0,
     ms_total_listener_seconds = 0, ms_peak_listeners = 0\<rparr>"

type_synonym token = nat

record active_mount =
  am_info :: mount_info
  am_bus :: bus
  am_source_connected :: bool
  am_connected_at :: "nat option"
  am_stats :: mount_stats
  am_source_cancel :: "token option"
  am_current_title :: "string option"
  am_source_overlay :: "source_overlay option"
  am_header_bytes :: "byte list option"
  am_source_kind :: byte
  am_preempt_pending :: bool
  am_resume_permit :: bool

text \<open>
  \<open>am_resume_permit\<close> is the one permit a \<open>tokio::sync::Notify\<close> stores when \<open>notify_one\<close> finds no
  waiter.
\<close>

definition active_mount_new :: "mount_info \<Rightarrow> bus \<Rightarrow> active_mount" where
  "active_mount_new info b =
     \<lparr>am_info = info, am_bus = b, am_source_connected = False, am_connected_at = None,
      am_stats = default_mount_stats, am_source_cancel = None, am_current_title = None,
      am_source_overlay = None, am_header_bytes = None,
      am_source_kind = source_kind_to_u8 KindNone, am_preempt_pending = False,
      am_resume_permit = False\<rparr>"

definition listener_count :: "active_mount \<Rightarrow> nat" where
  "listener_count m = subscriber_count (am_bus m)"

definition source_uptime :: "nat \<Rightarrow> active_mount \<Rightarrow> nat option" where
  "source_uptime now m = map_option (\<lambda>t. now - t) (am_connected_at m)"

definition load_source_kind :: "active_mount \<Rightarrow> source_kind" where
  "load_source_kind m = source_kind_from_u8 (am_source_kind m)"

definition store_source_kind :: "source_kind \<Rightarrow> active_mount \<Rightarrow> active_mount" where
  "store_source_kind k m = m\<lparr>am_source_kind := source_kind_to_u8 k\<rparr>"

lemma load_store_source_kind [simp]: "load_source_kind (store_source_kind k m) = k"
  by (simp add: load_source_kind_def store_source_kind_def)

text \<open>\<open>compare_exchange(false, true)\<close> on \<open>source_connected\<close>: \<open>None\<close> when it fails.\<close>

definition cas_connect :: "active_mount \<Rightarrow> active_mount option" where
  "cas_connect m =
     (if am_source_connected m then None else Some (m\<lparr>am_source_connected := True\<rparr>))"

section \<open>Effective identity\<close>

definition audio_info_for :: "transcode_config \<Rightarrow> string" where
  "audio_info_for tc =
     ''samplerate='' @ show_nat (tc_sample_rate tc) @ '';channels=2;bitrate='' @ show_nat (tc_bitrate_kbps tc)"

definition effective_identity_of :: "active_mount \<Rightarrow> transcode_config option \<Rightarrow> effective_identity" where
  "effective_identity_of m transcode =
     (let meta = mi_metadata (am_info m);
          overlay = am_source_overlay m;
          (bitrate_kbps, audio_info) =
            (case transcode of
               Some tc \<Rightarrow> (Some (tc_bitrate_kbps tc), Some (audio_info_for tc))
             | None \<Rightarrow> (Option.bind overlay so_bitrate_kbps, Option.bind overlay so_audio_info))
      in \<lparr>ei_name = or_else (Option.bind overlay so_name) (mm_name meta),
          ei_description = or_else (Option.bind overlay so_description) (mm_description meta),
          ei_genre = or_else (Option.bind overlay so_genre) (mm_genre meta),
          ei_url = or_else (Option.bind overlay so_url) (mm_url meta),
          ei_public = Option.bind overlay so_public,
          ei_audio_info = audio_info,
          ei_bitrate_kbps = bitrate_kbps\<rparr>)"

text \<open>
  Precedence of the advertised identity: a field the connected source supplies wins
  over the configured one, the configured one fills the rest, the public flag only ever comes
  from the source, and a transcode target overrides what the source says about its own bitrate
  and audio format.
\<close>

lemma effective_identity_precedence:
  "(\<forall>o' v. am_source_overlay m = Some o' \<and> so_name o' = Some v \<longrightarrow> ei_name (effective_identity_of m t) = Some v) \<and>
   (Option.bind (am_source_overlay m) so_name = None \<longrightarrow>
      ei_name (effective_identity_of m t) = mm_name (mi_metadata (am_info m))) \<and>
   (am_source_overlay m = None \<longrightarrow> ei_public (effective_identity_of m t) = None) \<and>
   (\<forall>tc. t = Some tc \<longrightarrow>
      ei_bitrate_kbps (effective_identity_of m t) = Some (tc_bitrate_kbps tc) \<and>
      ei_audio_info (effective_identity_of m t) = Some (audio_info_for tc)) \<and>
   (t = None \<and> am_source_overlay m = None \<longrightarrow>
      ei_bitrate_kbps (effective_identity_of m t) = None \<and> ei_audio_info (effective_identity_of m t) = None)"
  by (auto simp: effective_identity_of_def Let_def split: prod.split option.split)

section \<open>The transcode target and output codec of a mount\<close>

text \<open>
  \<open>stream_router.rs\<close> and \<open>api/mounts.rs\<close> each have their own copy of this resolution: the mount
  list decides, and a path outside it (dynamic, AutoDJ or relay) takes the global setting.
\<close>

definition mount_transcode :: "config \<Rightarrow> string \<Rightarrow> transcode_config option" where
  "mount_transcode cfg mount_path =
     (case find_key mc_path mount_path (cf_mounts cfg) of
        Some mc \<Rightarrow> effective_transcode cfg mc
      | None \<Rightarrow> cf_transcode cfg)"

definition resolve_output_codec :: "codec_id \<Rightarrow> transcode_config option \<Rightarrow> codec_id" where
  "resolve_output_codec source_codec transcode =
     (case map_option tc_format transcode of
        Some FmtMp3 \<Rightarrow> MP3
      | Some FmtVorbis \<Rightarrow> VORBIS
      | None \<Rightarrow> source_codec)"

section \<open>Keyed registries\<close>

text \<open>
  The mount registry, the task registries, the session store and the listener map are all hash
  maps behind a lock. Their shared contract: what a lookup returns after an insertion, a
  removal, and on other keys.
\<close>

locale keyed_registry =
  fixes lookup :: "'r \<Rightarrow> 'k \<Rightarrow> 'v option"
    and insert_entry :: "'r \<Rightarrow> 'k \<Rightarrow> 'v \<Rightarrow> 'r"
    and remove_entry :: "'r \<Rightarrow> 'k \<Rightarrow> 'r"
  assumes lookup_insert: "lookup (insert_entry r k v) k' = (if k' = k then Some v else lookup r k')"
    and lookup_remove: "lookup (remove_entry r k) k' = (if k' = k then None else lookup r k')"
begin

definition remove_all :: "'r \<Rightarrow> 'k list \<Rightarrow> 'r" where
  "remove_all = foldl remove_entry"

definition insert_all :: "'r \<Rightarrow> ('k \<times> 'v) list \<Rightarrow> 'r" where
  "insert_all = foldl (\<lambda>r (k, v). insert_entry r k v)"

lemma lookup_insert_same: "lookup (insert_entry r k v) k = Some v"
  by (simp add: lookup_insert)

lemma lookup_insert_remove:
  "lookup (remove_entry (insert_entry r k v) k) k' = lookup (remove_entry r k) k'"
  by (simp add: lookup_insert lookup_remove)

lemma lookup_remove_all:
  "lookup (remove_all r ks) k = (if k \<in> set ks then None else lookup r k)"
  by (induction ks arbitrary: r) (auto simp: remove_all_def lookup_remove)

lemma lookup_insert_all:
  "lookup (insert_all r kvs) k = (case hash_map kvs k of Some v \<Rightarrow> Some v | None \<Rightarrow> lookup r k)"
proof (induction kvs arbitrary: r)
  case Nil
  then show ?case by (simp add: insert_all_def hash_map_def)
next
  case (Cons kv kvs)
  then show ?case
    by (cases kv)
      (auto simp: insert_all_def hash_map_def lookup_insert map_add_def split: option.split)
qed

end

section \<open>The mount registry\<close>

text \<open>
  Paths map to addresses of mounts in a store. \<open>add\<close> files a mount under the path its info names
  at that moment, replacing what was there.
\<close>

type_synonym mount_addr = nat
type_synonym registry = "string \<rightharpoonup> mount_addr"
type_synonym mount_store = "mount_addr \<Rightarrow> active_mount"

definition registry_new :: registry where
  "registry_new = Map.empty"

definition registry_put :: "registry \<Rightarrow> string \<Rightarrow> mount_addr \<Rightarrow> registry" where
  "registry_put r path a = r(path \<mapsto> a)"

definition registry_add :: "mount_store \<Rightarrow> registry \<Rightarrow> mount_addr \<Rightarrow> registry" where
  "registry_add st r a = registry_put r (mi_path (am_info (st a))) a"

definition registry_remove :: "registry \<Rightarrow> string \<Rightarrow> registry" where
  "registry_remove r path = r(path := None)"

definition registry_get :: "registry \<Rightarrow> string \<Rightarrow> mount_addr option" where
  "registry_get r path = r path"

definition registry_list :: "registry \<Rightarrow> mount_addr set" where
  "registry_list r = ran r"

interpretation mount_registry: keyed_registry registry_get registry_put registry_remove
  by unfold_locales (auto simp: registry_get_def registry_put_def registry_remove_def)

text \<open>Every mount is filed under its own path.\<close>

definition registry_consistent :: "mount_store \<Rightarrow> registry \<Rightarrow> bool" where
  "registry_consistent st r \<longleftrightarrow> (\<forall>path a. r path = Some a \<longrightarrow> mi_path (am_info (st a)) = path)"

lemma registry_consistent_add [inv_intros]:
  "registry_consistent st r \<Longrightarrow> registry_consistent st (registry_add st r a)"
  by (auto simp: registry_consistent_def registry_add_def registry_put_def)

lemma registry_consistent_remove [inv_intros]:
  "registry_consistent st r \<Longrightarrow> registry_consistent st (registry_remove r path)"
  by (auto simp: registry_consistent_def registry_remove_def)

lemma registry_consistent_update [inv_intros]:
  "registry_consistent st r \<Longrightarrow> mi_path (am_info m) = mi_path (am_info (st a)) \<Longrightarrow>
     registry_consistent (st(a := m)) r"
  by (auto simp: registry_consistent_def)

end
