(* ===== verification/Auth_Sessions.thy ===== *)
theory Auth_Sessions
  imports Http_Types Mount_Model
begin

text \<open>
  Who may do what: the credential store of \<open>crates/rustyice-auth/src/toml_bcrypt.rs\<close>, the session
  store and the listener map of \<open>crates/rustyice-admin/src/state.rs\<close>, and the login, the middleware
  and the route table of the admin API (\<open>api/auth.rs\<close>, \<open>router.rs\<close>). The password hash check is a
  library function and an argument; a session token is the random identifier a login draws. An
  instant is a number; the clock reading of an operation is an argument.
\<close>

section \<open>Credentials\<close>

record toml_bcrypt_auth =
  ta_users :: "string \<rightharpoonup> string"
  ta_mount_passwords :: "string \<rightharpoonup> string"
  ta_default_source_password :: "string option"

definition user_map :: "config \<Rightarrow> string \<rightharpoonup> string" where
  "user_map cfg = hash_map (map (\<lambda>u. (us_username u, us_password_bcrypt u)) (au_users (cf_auth cfg)))"

definition mount_map :: "config \<Rightarrow> string \<rightharpoonup> string" where
  "mount_map cfg = hash_map (map (\<lambda>m. (mc_path m, mc_source_password m)) (cf_mounts cfg))"

definition auth_new :: "config \<Rightarrow> toml_bcrypt_auth" where
  "auth_new cfg = \<lparr>ta_users = user_map cfg, ta_mount_passwords = mount_map cfg,
     ta_default_source_password = au_source_password (cf_auth cfg)\<rparr>"

definition verify_admin ::
  "(string \<Rightarrow> string \<Rightarrow> string + bool) \<Rightarrow> toml_bcrypt_auth \<Rightarrow> string \<Rightarrow> string \<Rightarrow> auth_error + bool" where
  "verify_admin bcrypt_verify a username password =
     (case ta_users a username of
        None \<Rightarrow> Inr False
      | Some hash \<Rightarrow> (case bcrypt_verify password hash of Inl e \<Rightarrow> Inl (AuthIo e) | Inr ok \<Rightarrow> Inr ok))"

definition verify_default_source :: "toml_bcrypt_auth \<Rightarrow> string \<Rightarrow> auth_error + bool" where
  "verify_default_source a password =
     Inr (case ta_default_source_password a of Some p \<Rightarrow> p = password | None \<Rightarrow> False)"

definition verify_source :: "toml_bcrypt_auth \<Rightarrow> string \<Rightarrow> string \<Rightarrow> auth_error + bool" where
  "verify_source a mount_path password =
     (case ta_mount_passwords a mount_path of
        Some stored \<Rightarrow> Inr (stored = password)
      | None \<Rightarrow> verify_default_source a password)"

definition auth_reload :: "toml_bcrypt_auth \<Rightarrow> config \<Rightarrow> (auth_error + unit) \<times> toml_bcrypt_auth" where
  "auth_reload a cfg =
     (Inr (), a\<lparr>ta_users := user_map cfg, ta_mount_passwords := mount_map cfg,
                ta_default_source_password := au_source_password (cf_auth cfg)\<rparr>)"

text \<open>
  The contract of a credential store: after a reload it decides as a fresh one for the new
  configuration, and a mount without a password of its own is decided by the default one.
\<close>

locale auth_backend =
  fixes fresh :: "config \<Rightarrow> 'a"
    and reload :: "'a \<Rightarrow> config \<Rightarrow> 'a"
    and source_ok :: "'a \<Rightarrow> string \<Rightarrow> string \<Rightarrow> bool"
    and default_ok :: "'a \<Rightarrow> string \<Rightarrow> bool"
    and own_password :: "config \<Rightarrow> string \<Rightarrow> string option"
  assumes source_reload: "source_ok (reload a cfg) path pw = source_ok (fresh cfg) path pw"
    and default_reload: "default_ok (reload a cfg) pw = default_ok (fresh cfg) pw"
    and source_own: "own_password cfg path = Some stored \<Longrightarrow> source_ok (fresh cfg) path pw = (stored = pw)"
    and source_fallback: "own_password cfg path = None \<Longrightarrow> source_ok (fresh cfg) path pw = default_ok (fresh cfg) pw"
begin

text \<open>After any sequence of reloads only the last configuration counts.\<close>

lemma reloads_last:
  "source_ok (foldl reload a (cfgs @ [cfg])) path pw = source_ok (fresh cfg) path pw"
  by (simp add: source_reload)

lemma revoked_password:
  assumes "own_password cfg path = Some stored" and "pw \<noteq> stored"
  shows "\<not> source_ok (foldl reload a (cfgs @ [cfg])) path pw"
  unfolding reloads_last using assms by (simp add: source_own)

end

definition accepts :: "auth_error + bool \<Rightarrow> bool" where
  "accepts r \<longleftrightarrow> r = Inr True"

interpretation toml_auth: auth_backend auth_new "\<lambda>a cfg. snd (auth_reload a cfg)"
  "\<lambda>a path pw. accepts (verify_source a path pw)" "\<lambda>a pw. accepts (verify_default_source a pw)" mount_map
  by unfold_locales
    (auto simp: auth_reload_def auth_new_def verify_source_def verify_default_source_def accepts_def
      split: option.splits)

text \<open>
  Claim C24. Which source password a mount accepts, after any history of reloads: for a path with
  an entry in the mount list, exactly the password of the last such entry, with no fallback; for
  any other path (AutoDJ, relay or unknown), exactly the global source password, and none when
  that is not configured.
\<close>

theorem verify_source_decides:
  "accepts (verify_source (foldl (\<lambda>a c. snd (auth_reload a c)) a (cfgs @ [cfg])) path pw) \<longleftrightarrow>
     (case find_key mc_path path (rev (cf_mounts cfg)) of
        Some m \<Rightarrow> pw = mc_source_password m
      | None \<Rightarrow> au_source_password (cf_auth cfg) = Some pw)"
proof -
  have m: "mount_map cfg path = map_option mc_source_password (find_key mc_path path (rev (cf_mounts cfg)))"
  proof -
    have "map_of (map (\<lambda>m. (mc_path m, mc_source_password m)) ms) path =
        map_option mc_source_password (find_key mc_path path ms)" for ms
      by (induction ms) auto
    then show ?thesis by (simp add: mount_map_def hash_map_def rev_map)
  qed
  have "accepts (verify_source (foldl (\<lambda>a c. snd (auth_reload a c)) a (cfgs @ [cfg])) path pw) =
      accepts (verify_source (auth_new cfg) path pw)"
    by (rule toml_auth.reloads_last)
  also have "\<dots> \<longleftrightarrow> (case find_key mc_path path (rev (cf_mounts cfg)) of
        Some m \<Rightarrow> pw = mc_source_password m
      | None \<Rightarrow> au_source_password (cf_auth cfg) = Some pw)"
    by (auto simp: verify_source_def auth_new_def m accepts_def verify_default_source_def split: option.split)
  finally show ?thesis .
qed

section \<open>Sessions\<close>

record session_entry =
  se_user :: string
  se_expires_at :: nat

record session_store =
  ss_sessions :: "string \<rightharpoonup> session_entry"
  ss_ttl :: nat

definition session_store_new :: "nat \<Rightarrow> session_store" where
  "session_store_new ttl = \<lparr>ss_sessions = Map.empty, ss_ttl = ttl\<rparr>"

definition session_lookup :: "session_store \<Rightarrow> string \<Rightarrow> session_entry option" where
  "session_lookup st token = ss_sessions st token"

definition session_put :: "session_store \<Rightarrow> string \<Rightarrow> session_entry \<Rightarrow> session_store" where
  "session_put st token e = st\<lparr>ss_sessions := (ss_sessions st)(token \<mapsto> e)\<rparr>"

definition session_create :: "nat \<Rightarrow> string \<Rightarrow> string \<Rightarrow> session_store \<Rightarrow> string \<times> session_store" where
  "session_create now token user st =
     (token, session_put st token \<lparr>se_user = user, se_expires_at = now + ss_ttl st\<rparr>)"

definition session_revoke :: "session_store \<Rightarrow> string \<Rightarrow> session_store" where
  "session_revoke st token = st\<lparr>ss_sessions := (ss_sessions st)(token := None)\<rparr>"

definition session_touch :: "nat \<Rightarrow> string \<Rightarrow> session_store \<Rightarrow> string option \<times> session_store" where
  "session_touch now token st =
     (case session_lookup st token of
        None \<Rightarrow> (None, st)
      | Some e \<Rightarrow>
          if se_expires_at e < now then (None, session_revoke st token)
          else (Some (se_user e), session_put st token (e\<lparr>se_expires_at := now + ss_ttl st\<rparr>)))"

interpretation sessions: keyed_registry session_lookup session_put session_revoke
  by unfold_locales (auto simp: session_lookup_def session_put_def session_revoke_def)

lemma session_ttl [simp]:
  "ss_ttl (session_put st k e) = ss_ttl st" "ss_ttl (session_revoke st k) = ss_ttl st"
  "ss_ttl (snd (session_touch now k st)) = ss_ttl st"
  by (simp_all add: session_put_def session_revoke_def session_touch_def split: option.split)

text \<open>A session used at these times, in order: whether the last use is accepted.\<close>

fun touches :: "nat list \<Rightarrow> string \<Rightarrow> session_store \<Rightarrow> bool" where
  "touches [] token st = True"
| "touches (t # ts) token st =
     (case session_touch t token st of (u, st') \<Rightarrow> (ts = [] \<longrightarrow> u \<noteq> None) \<and> touches ts token st')"

text \<open>No two consecutive times are further apart than the given limit.\<close>

fun gaps_within :: "nat \<Rightarrow> nat \<Rightarrow> nat list \<Rightarrow> bool" where
  "gaps_within limit t0 [] = True"
| "gaps_within limit t0 (t # ts) = (t \<le> t0 + limit \<and> gaps_within limit t ts)"

lemma touches_dead: "session_lookup st token = None \<Longrightarrow> touches ts token st \<longleftrightarrow> ts = []"
  by (induction ts) (auto simp: session_touch_def)

lemma touches_gaps:
  "session_lookup st token = Some e \<Longrightarrow> se_expires_at e = t0 + ss_ttl st \<Longrightarrow>
     touches ts token st \<longleftrightarrow> gaps_within (ss_ttl st) t0 ts"
proof (induction ts arbitrary: st e t0)
  case (Cons t ts)
  show ?case
  proof (cases "t \<le> t0 + ss_ttl st")
    case True
    let ?st = "session_put st token (e\<lparr>se_expires_at := t + ss_ttl st\<rparr>)"
    have touch: "session_touch t token st = (Some (se_user e), ?st)"
      using Cons.prems True by (simp add: session_touch_def)
    have "touches ts token ?st \<longleftrightarrow> gaps_within (ss_ttl ?st) t ts"
      using Cons.IH [of ?st "e\<lparr>se_expires_at := t + ss_ttl st\<rparr>" t] by (simp add: sessions.lookup_insert)
    with touch True show ?thesis by simp
  next
    case False
    then have "session_touch t token st = (None, session_revoke st token)"
      using Cons.prems by (simp add: session_touch_def)
    with False touches_dead [of "session_revoke st token" token ts] show ?thesis
      by (auto simp: sessions.lookup_remove)
  qed
qed simp

text \<open>
  Session lifetime: a session used at a sequence of times after its creation is
  accepted at the last of them exactly when no two consecutive uses, counting the creation, were
  further apart than the time to live. One longer pause ends it for good; each use renews it, so
  a session that is used often enough never ends. A revoked session is never accepted.
\<close>

theorem session_sliding_expiry:
  "(touches ts token (snd (session_create t0 token user st)) \<longleftrightarrow> gaps_within (ss_ttl st) t0 ts) \<and>
   (touches ts token (session_revoke st token) \<longleftrightarrow> ts = [])"
proof -
  let ?st = "snd (session_create t0 token user st)"
  have l: "session_lookup ?st token = Some \<lparr>se_user = user, se_expires_at = t0 + ss_ttl ?st\<rparr>"
    by (simp add: session_create_def sessions.lookup_insert)
  show ?thesis
    using touches_gaps [OF l, of t0 ts] touches_dead [of "session_revoke st token" token ts]
    by (simp add: session_create_def sessions.lookup_remove)
qed

section \<open>Listeners\<close>

record listener_entry =
  li_id :: nat
  li_mount_path :: string
  li_peer_addr :: "string option"
  li_connected_at :: nat
  li_cancel :: token

text \<open>
  The map of running listeners, with the tokens that have been cancelled so far. Identifiers come
  from a counter (64 bits in the code).
\<close>

record listener_map =
  lm_entries :: "nat \<rightharpoonup> listener_entry"
  lm_next_id :: nat
  lm_cancelled :: "token set"

definition listener_map_new :: listener_map where
  "listener_map_new = \<lparr>lm_entries = Map.empty, lm_next_id = 0, lm_cancelled = {}\<rparr>"

definition listener_register ::
  "nat \<Rightarrow> string \<Rightarrow> string option \<Rightarrow> token \<Rightarrow> listener_map \<Rightarrow> nat \<times> listener_map" where
  "listener_register now path peer cancel lm =
     (lm_next_id lm,
      lm\<lparr>lm_next_id := lm_next_id lm + 1,
         lm_entries := (lm_entries lm)(lm_next_id lm \<mapsto>
           \<lparr>li_id = lm_next_id lm, li_mount_path = path, li_peer_addr = peer, li_connected_at = now,
            li_cancel = cancel\<rparr>)\<rparr>)"

definition listener_deregister :: "nat \<Rightarrow> listener_map \<Rightarrow> listener_map" where
  "listener_deregister i lm = lm\<lparr>lm_entries := (lm_entries lm)(i := None)\<rparr>"

definition listener_kick :: "nat \<Rightarrow> listener_map \<Rightarrow> bool \<times> listener_map" where
  "listener_kick i lm =
     (case lm_entries lm i of
        Some e \<Rightarrow> (True, lm\<lparr>lm_cancelled := insert (li_cancel e) (lm_cancelled lm)\<rparr>)
      | None \<Rightarrow> (False, lm))"

definition ids_for_mount :: "string \<Rightarrow> listener_map \<Rightarrow> nat set" where
  "ids_for_mount path lm = {i. \<exists>e. lm_entries lm i = Some e \<and> li_mount_path e = path}"

definition details_for_mount :: "string \<Rightarrow> listener_map \<Rightarrow> (nat \<times> string option) set" where
  "details_for_mount path lm =
     {(i, a). \<exists>e. lm_entries lm i = Some e \<and> li_mount_path e = path \<and> a = li_peer_addr e}"

definition total_count :: "listener_map \<Rightarrow> nat" where
  "total_count lm = card (dom (lm_entries lm))"

definition listeners_inv :: "listener_map \<Rightarrow> bool" where
  "listeners_inv lm \<longleftrightarrow>
     finite (dom (lm_entries lm)) \<and>
     (\<forall>i e. lm_entries lm i = Some e \<longrightarrow> i < lm_next_id lm \<and> li_id e = i)"

lemma listeners_inv_new: "listeners_inv listener_map_new"
  by (simp add: listeners_inv_def listener_map_new_def)

lemma listeners_inv_register [inv_intros]:
  "listeners_inv lm \<Longrightarrow> listeners_inv (snd (listener_register now p a c lm))"
  by (auto simp: listeners_inv_def listener_register_def less_Suc_eq split: if_splits)

lemma listeners_inv_deregister [inv_intros]: "listeners_inv lm \<Longrightarrow> listeners_inv (listener_deregister i lm)"
  by (auto simp: listeners_inv_def listener_deregister_def split: if_splits intro: finite_subset)

lemma listeners_inv_kick [inv_intros]: "listeners_inv lm \<Longrightarrow> listeners_inv (snd (listener_kick i lm))"
  by (auto simp: listeners_inv_def listener_kick_def split: option.splits)

lemma total_count_register:
  "listeners_inv lm \<Longrightarrow> total_count (snd (listener_register now p a c lm)) = Suc (total_count lm)"
  by (auto simp: total_count_def listener_register_def listeners_inv_def card_insert_if)

lemma total_count_deregister:
  "listeners_inv lm \<Longrightarrow> total_count (listener_deregister i lm) =
     (if lm_entries lm i = None then total_count lm else total_count lm - 1)"
  by (auto simp: total_count_def listener_deregister_def listeners_inv_def dom_def [symmetric] card_Diff_singleton_if)

end
