(* ===== verification/Admin_Api.thy ===== *)
theory Admin_Api
  imports Auth_Sessions
begin

text \<open>
  The admin HTTP API of \<open>crates/rustyice-admin/src\<close> except the configuration editors: login,
  sessions and middleware (\<open>api/auth.rs\<close>), the route table with its guards (\<open>router.rs\<close>), kicking
  sources and listeners (\<open>api/actions.rs\<close>), titles (\<open>api/title.rs\<close>), mount and listener lists
  (\<open>api/mounts.rs\<close>), statistics (\<open>api/stats.rs\<close>) and the directory browser (\<open>api/fs.rs\<close>). A handler
  is a function from the shared state to a status code with a typed body and the new state.
\<close>

section \<open>Shared state\<close>

record admin_state =
  as_store :: mount_store
  as_mounts :: registry
  as_listeners :: listener_map
  as_start_time :: nat
  as_auth :: toml_bcrypt_auth
  as_sessions :: session_store
  as_version :: string
  as_stream_port :: nat
  as_config :: config
  as_cancelled :: "token set"

text \<open>\<open>as_cancelled\<close> are the cancellation tokens of sources that have been cancelled.\<close>

section \<open>api/auth.rs\<close>

definition cookie_name :: string where
  "cookie_name = ''rustyice_session''"

text \<open>\<open>find_map\<close> with \<open>?\<close>: a pair without an equals sign or with another name is passed over.\<close>

fun find_cookie :: "string list \<Rightarrow> string option" where
  "find_cookie [] = None"
| "find_cookie (pair # pairs) =
     (case split_once (CHR ''='') (trim pair) of
        None \<Rightarrow> find_cookie pairs
      | Some (name, v) \<Rightarrow> if name = cookie_name then Some v else find_cookie pairs)"

definition session_token :: "headers \<Rightarrow> string option" where
  "session_token hs = Option.bind (header_str hs ''cookie'') (\<lambda>c. find_cookie (split_on (CHR '';'') c))"

fun role_str :: "user_role \<Rightarrow> string" where
  "role_str RoleAdmin = ''admin''"
| "role_str RoleOperator = ''operator''"

definition configured_role :: "config \<Rightarrow> string \<Rightarrow> string" where
  "configured_role cfg user =
     unwrap_or (map_option (\<lambda>u. role_str (us_role u)) (find_key us_username user (au_users (cf_auth cfg)))) ''operator''"

definition session_role :: "nat \<Rightarrow> headers \<Rightarrow> admin_state \<Rightarrow> (string \<times> string) option \<times> admin_state" where
  "session_role now hs st =
     (case session_token hs of
        None \<Rightarrow> (None, st)
      | Some token \<Rightarrow>
          (case session_touch now token (as_sessions st) of
             (None, ss) \<Rightarrow> (None, st\<lparr>as_sessions := ss\<rparr>)
           | (Some user, ss) \<Rightarrow> (Some (user, configured_role (as_config st) user), st\<lparr>as_sessions := ss\<rparr>)))"

record me_response =
  me_user :: string
  me_role :: string

datatype login_reply = LoggedIn string me_response | LoginDenied | LoginError

text \<open>\<open>LoggedIn cookie body\<close>: the token drawn for the session is an argument.\<close>

definition login ::
  "(string \<Rightarrow> string \<Rightarrow> string + bool) \<Rightarrow> nat \<Rightarrow> string \<Rightarrow> string \<Rightarrow> string \<Rightarrow> admin_state \<Rightarrow> login_reply \<times> admin_state" where
  "login bcrypt_verify now fresh_token username password st =
     (case verify_admin bcrypt_verify (as_auth st) username password of
        Inl e \<Rightarrow> (LoginError, st)
      | Inr False \<Rightarrow> (LoginDenied, st)
      | Inr True \<Rightarrow>
          (case session_create now fresh_token username (as_sessions st) of
             (token, ss) \<Rightarrow>
               (LoggedIn (cookie_name @ ''='' @ token @ ''; HttpOnly; SameSite=Lax; Path=/; Max-Age=86400'')
                  \<lparr>me_user = username, me_role = configured_role (as_config st) username\<rparr>,
                st\<lparr>as_sessions := ss\<rparr>)))"

definition logout :: "headers \<Rightarrow> admin_state \<Rightarrow> nat \<times> string \<times> admin_state" where
  "logout hs st =
     (204, cookie_name @ ''=; HttpOnly; SameSite=Lax; Path=/; Max-Age=0'',
      case session_token hs of
        None \<Rightarrow> st
      | Some token \<Rightarrow> st\<lparr>as_sessions := session_revoke (as_sessions st) token\<rparr>)"

definition me_handler :: "nat \<Rightarrow> headers \<Rightarrow> admin_state \<Rightarrow> (nat + me_response) \<times> admin_state" where
  "me_handler now hs st =
     (case session_role now hs st of
        (Some (user, role), st') \<Rightarrow> (Inr \<lparr>me_user = user, me_role = role\<rparr>, st')
      | (None, st') \<Rightarrow> (Inl 401, st'))"

text \<open>The middleware: \<open>Inr ()\<close> lets the request through, \<open>Inl code\<close> answers it.\<close>

definition require_session :: "nat \<Rightarrow> headers \<Rightarrow> admin_state \<Rightarrow> (nat + unit) \<times> admin_state" where
  "require_session now hs st =
     (case session_token hs of
        None \<Rightarrow> (Inl 401, st)
      | Some token \<Rightarrow>
          (case session_touch now token (as_sessions st) of
             (Some _, ss) \<Rightarrow> (Inr (), st\<lparr>as_sessions := ss\<rparr>)
           | (None, ss) \<Rightarrow> (Inl 401, st\<lparr>as_sessions := ss\<rparr>)))"

definition require_admin :: "nat \<Rightarrow> headers \<Rightarrow> admin_state \<Rightarrow> (nat + unit) \<times> admin_state" where
  "require_admin now hs st =
     (case session_role now hs st of
        (Some (_, role), st') \<Rightarrow> (if role = ''admin'' then Inr () else Inl 403, st')
      | (None, st') \<Rightarrow> (Inl 401, st'))"

section \<open>router.rs\<close>

datatype http_method = GET | PUT | POST | DELETE

datatype guard = Public | SessionOnly | AdminOnly

datatype endpoint =
  ServeIndex | ServeAsset string | ListMounts | GlobalStats | Login | Me | Metrics
| ListListeners string | KickSource string | SetTitle string | ClearTitle string | KickListener string
| GetConfig | PutMounts | PutRelays | PutAutodjs | ListDir | Logout
| PutServer | PutTranscode | PutUsers

text \<open>The route table on the segments of the request path; a parameter matches one segment.\<close>

fun route :: "http_method \<Rightarrow> string list \<Rightarrow> endpoint option" where
  "route m [] = (if m = GET then Some ServeIndex else None)"
| "route m [p] = (if m = GET then Some (if p = ''metrics'' then Metrics else ServeAsset p) else None)"
| "route m [a, b] =
     (if a \<noteq> ''api'' then None
      else if b = ''mounts'' \<and> m = GET then Some ListMounts
      else if b = ''stats'' \<and> m = GET then Some GlobalStats
      else if b = ''login'' \<and> m = POST then Some Login
      else if b = ''logout'' \<and> m = POST then Some Logout
      else if b = ''me'' \<and> m = GET then Some Me
      else if b = ''config'' \<and> m = GET then Some GetConfig
      else None)"
| "route m [a, b, c] =
     (if a \<noteq> ''api'' then None
      else if b = ''listeners'' \<and> m = DELETE then Some (KickListener c)
      else if b = ''fs'' \<and> c = ''listdir'' \<and> m = GET then Some ListDir
      else if b = ''config'' \<and> m = PUT then
        (if c = ''mounts'' then Some PutMounts
         else if c = ''relays'' then Some PutRelays
         else if c = ''autodjs'' then Some PutAutodjs
         else if c = ''server'' then Some PutServer
         else if c = ''transcode'' then Some PutTranscode
         else if c = ''users'' then Some PutUsers
         else None)
      else None)"
| "route m [a, b, c, d] =
     (if a \<noteq> ''api'' \<or> b \<noteq> ''mounts'' then None
      else if d = ''listeners'' \<and> m = GET then Some (ListListeners c)
      else if d = ''source'' \<and> m = DELETE then Some (KickSource c)
      else if d = ''title'' \<and> m = PUT then Some (SetTitle c)
      else if d = ''title'' \<and> m = DELETE then Some (ClearTitle c)
      else None)"
| "route m _ = None"

fun endpoint_guard :: "endpoint \<Rightarrow> guard" where
  "endpoint_guard PutServer = AdminOnly"
| "endpoint_guard PutTranscode = AdminOnly"
| "endpoint_guard PutUsers = AdminOnly"
| "endpoint_guard (ListListeners _) = SessionOnly"
| "endpoint_guard (KickSource _) = SessionOnly"
| "endpoint_guard (SetTitle _) = SessionOnly"
| "endpoint_guard (ClearTitle _) = SessionOnly"
| "endpoint_guard (KickListener _) = SessionOnly"
| "endpoint_guard GetConfig = SessionOnly"
| "endpoint_guard PutMounts = SessionOnly"
| "endpoint_guard PutRelays = SessionOnly"
| "endpoint_guard PutAutodjs = SessionOnly"
| "endpoint_guard ListDir = SessionOnly"
| "endpoint_guard Logout = SessionOnly"
| "endpoint_guard _ = Public"

definition run_guard :: "guard \<Rightarrow> nat \<Rightarrow> headers \<Rightarrow> admin_state \<Rightarrow> (nat + unit) \<times> admin_state" where
  "run_guard g now hs st =
     (case g of Public \<Rightarrow> (Inr (), st)
      | SessionOnly \<Rightarrow> require_session now hs st
      | AdminOnly \<Rightarrow> require_admin now hs st)"

text \<open>A known path with a method it does not serve is answered 405, before any guard.\<close>

definition known_path :: "string list \<Rightarrow> bool" where
  "known_path path \<longleftrightarrow> list_ex (\<lambda>m. route m path \<noteq> None) [GET, PUT, POST, DELETE]"

text \<open>What reaches a handler: the endpoint, or the status that answers the request instead.\<close>

definition dispatch ::
  "nat \<Rightarrow> http_method \<Rightarrow> string list \<Rightarrow> headers \<Rightarrow> admin_state \<Rightarrow> (nat + endpoint) \<times> admin_state" where
  "dispatch now m path hs st =
     (case route m path of
        None \<Rightarrow> (Inl (if known_path path then 405 else 404), st)
      | Some ep \<Rightarrow>
          (case run_guard (endpoint_guard ep) now hs st of
             (Inl code, st') \<Rightarrow> (Inl code, st')
           | (Inr _, st') \<Rightarrow> (Inr ep, st')))"

section \<open>Who reaches a handler\<close>

text \<open>The user of the valid session a request carries.\<close>

definition session_user :: "nat \<Rightarrow> headers \<Rightarrow> admin_state \<Rightarrow> string option" where
  "session_user now hs st =
     Option.bind (session_token hs) (\<lambda>token. fst (session_touch now token (as_sessions st)))"

lemma require_session_iff: "fst (require_session now hs st) = Inr () \<longleftrightarrow> session_user now hs st \<noteq> None"
  by (auto simp: require_session_def session_user_def split: option.splits prod.splits)

lemma configured_role_admin:
  "configured_role cfg u = ''admin'' \<longleftrightarrow>
     (\<exists>uc. find_key us_username u (au_users (cf_auth cfg)) = Some uc \<and> us_role uc = RoleAdmin)"
  by (cases "find_key us_username u (au_users (cf_auth cfg))")
    (auto simp: configured_role_def elim: role_str.elims)

lemma require_admin_iff:
  "fst (require_admin now hs st) = Inr () \<longleftrightarrow>
     (\<exists>u uc. session_user now hs st = Some u \<and> find_key us_username u (au_users (cf_auth (as_config st))) = Some uc \<and>
        us_role uc = RoleAdmin)"
  by (auto simp: require_admin_def session_role_def session_user_def configured_role_admin [symmetric]
      split: option.splits prod.splits)

definition mutates :: "http_method \<Rightarrow> bool" where
  "mutates m \<longleftrightarrow> m = PUT \<or> m = DELETE"

lemma route_mutating: "route m path = Some ep \<Longrightarrow> mutates m \<Longrightarrow> endpoint_guard ep \<noteq> Public"
  by (cases "(m, path)" rule: route.cases) (auto simp: mutates_def split: if_splits)

text \<open>
  Claim C19. Access control of the admin API: a request that changes something (PUT or DELETE)
  reaches its handler only with a valid session; the server, transcode and user settings only
  when, moreover, the running configuration lists the session's user as an administrator; and for
  those three this is also sufficient.
\<close>

theorem admin_access_control:
  "(\<forall>ep st'. mutates m \<and> dispatch now m path hs st = (Inr ep, st') \<longrightarrow> session_user now hs st \<noteq> None) \<and>
   (\<forall>ep. route m path = Some ep \<and> ep \<in> {PutServer, PutTranscode, PutUsers} \<longrightarrow>
      (fst (dispatch now m path hs st) = Inr ep \<longleftrightarrow>
        (\<exists>u uc. session_user now hs st = Some u \<and>
           find_key us_username u (au_users (cf_auth (as_config st))) = Some uc \<and> us_role uc = RoleAdmin)))"
proof (intro conjI allI impI)
  fix ep st'
  assume d: "mutates m \<and> dispatch now m path hs st = (Inr ep, st')"
  then obtain ep where r: "route m path = Some ep" and g: "fst (run_guard (endpoint_guard ep) now hs st) = Inr ()"
    by (auto simp: dispatch_def split: option.splits sum.splits prod.splits)
  have "endpoint_guard ep \<noteq> Public" using r d route_mutating by blast
  then show "session_user now hs st \<noteq> None"
    using g require_session_iff [of now hs st] require_admin_iff [of now hs st]
    by (cases "endpoint_guard ep") (auto simp: run_guard_def)
next
  fix ep
  assume e: "route m path = Some ep \<and> ep \<in> {PutServer, PutTranscode, PutUsers}"
  then have "endpoint_guard ep = AdminOnly" by auto
  with e have "fst (dispatch now m path hs st) = Inr ep \<longleftrightarrow> fst (require_admin now hs st) = Inr ()"
    by (auto simp: dispatch_def run_guard_def split: prod.splits sum.splits)
  then show "fst (dispatch now m path hs st) = Inr ep \<longleftrightarrow>
      (\<exists>u uc. session_user now hs st = Some u \<and>
         find_key us_username u (au_users (cf_auth (as_config st))) = Some uc \<and> us_role uc = RoleAdmin)"
    unfolding require_admin_iff .
qed

definition sample_auth_config :: "user_config list \<Rightarrow> config" where
  "sample_auth_config us =
     \<lparr>cf_server = \<lparr>sv_stream_bind = ''0.0.0.0:8000'', sv_admin_bind = ''127.0.0.1:8001'', sv_hostname = ''radio''\<rparr>,
      cf_logging = \<lparr>lg_level = ''info'', lg_format = LogPretty\<rparr>,
      cf_auth = \<lparr>au_users = us, au_source_password = Some ''hackme''\<rparr>,
      cf_limits = \<lparr>lm_max_listeners_global = 10, lm_ring_size = 16, lm_slow_listener_grace_s = 5,
                   lm_source_max_kbps = None, lm_burst_size = 65536\<rparr>,
      cf_mounts = [], cf_autodjs = [], cf_relays = [], cf_tls = None, cf_transcode = None\<rparr>"

definition sample_admin_state :: "config \<Rightarrow> string \<Rightarrow> admin_state" where
  "sample_admin_state cfg user =
     \<lparr>as_store = (\<lambda>_. active_mount_new \<lparr>mi_path = ''/live'', mi_codec = MP3, mi_source_password = ''s'',
         mi_max_listeners = None, mi_metadata = default_metadata\<rparr> (bus_new 16 100)),
      as_mounts = registry_put registry_new ''/live'' 0, as_listeners = listener_map_new, as_start_time = 0,
      as_auth = auth_new cfg, as_sessions = snd (session_create 0 ''t0k'' user (session_store_new 100)),
      as_version = ''0'', as_stream_port = 8000, as_config = cfg, as_cancelled = {}\<rparr>"

definition sample_headers :: headers where
  "sample_headers = (\<lambda>h. if h = ''cookie'' then Some (HvText (cookie_name @ ''=t0k'')) else None)"

lemma sample_token: "session_token sample_headers = Some ''t0k''"
proof -
  have "trim (cookie_name @ ''=t0k'') = cookie_name @ ''=t0k''"
    by (rule trim_graphic) (simp add: graphic_def cookie_name_def)
  then show ?thesis
    by (simp add: session_token_def header_str_def sample_headers_def cookie_name_def)
qed

lemma sample_session: "now \<le> 100 \<Longrightarrow> session_user now sample_headers (sample_admin_state cfg user) = Some user"
  by (simp add: session_user_def sample_token sample_admin_state_def session_create_def session_touch_def
      session_lookup_def session_put_def session_store_new_def)

theorem admin_access_control_witness:
  "fst (dispatch 5 PUT [''api'', ''config'', ''users''] sample_headers
     (sample_admin_state (sample_auth_config [\<lparr>us_username = ''ann'', us_password_bcrypt = ''h'', us_role = RoleAdmin\<rparr>]) ''ann''))
     = Inr PutUsers"
proof -
  let ?cfg = "sample_auth_config [\<lparr>us_username = ''ann'', us_password_bcrypt = ''h'', us_role = RoleAdmin\<rparr>]"
  let ?st = "sample_admin_state ?cfg ''ann''"
  have r: "route PUT [''api'', ''config'', ''users''] = Some PutUsers" by simp
  have c: "as_config ?st = ?cfg" by (simp add: sample_admin_state_def)
  show ?thesis
    using admin_access_control [THEN conjunct2, rule_format, of PUT "[''api'', ''config'', ''users'']" PutUsers 5 sample_headers ?st]
      r sample_session [of 5 ?cfg "''ann''"] c
    by (simp add: sample_auth_config_def)
qed

text \<open>
  Removing a user from the configuration does not end that user's sessions: the session
  stays valid, is renewed by every use, and has the operator role, so it still passes the session
  guard of the mount, relay and AutoDJ editors; the documentation of the role lookup says that it
  has none.
\<close>

theorem removed_user_stays_operator:
  assumes "session_user now hs st = Some u" and "u \<notin> us_username ` set (au_users (cf_auth (as_config st)))"
  shows "fst (session_role now hs st) = Some (u, ''operator'') \<and> fst (require_session now hs st) = Inr () \<and>
    fst (dispatch now PUT [''api'', ''config'', ''mounts''] hs st) = Inr PutMounts"
proof -
  have "configured_role (as_config st) u = ''operator''"
    using assms(2) by (simp add: configured_role_def find_key_None_iff [THEN iffD2])
  then have r: "fst (session_role now hs st) = Some (u, ''operator'')"
    using assms(1) by (cases "session_token hs") (auto simp: session_role_def session_user_def split: option.splits prod.splits)
  have g: "fst (require_session now hs st) = Inr ()"
    using assms(1) by (simp add: require_session_iff)
  then have "fst (dispatch now PUT [''api'', ''config'', ''mounts''] hs st) = Inr PutMounts"
    by (cases "require_session now hs st") (simp add: dispatch_def run_guard_def)
  with r g show ?thesis by blast
qed

theorem removed_user_stays_operator_witness:
  "fst (dispatch 5 PUT [''api'', ''config'', ''mounts''] sample_headers (sample_admin_state (sample_auth_config []) ''bob'')) =
     Inr PutMounts"
proof -
  have u: "session_user 5 sample_headers (sample_admin_state (sample_auth_config []) ''bob'') = Some ''bob''"
    by (rule sample_session) simp
  show ?thesis
    by (rule removed_user_stays_operator [OF u, THEN conjunct2, THEN conjunct2])
      (simp add: sample_admin_state_def sample_auth_config_def)
qed

section \<open>api/actions.rs\<close>

record action_result =
  ar_success :: bool
  ar_message :: string

definition action_reply :: "nat \<Rightarrow> bool \<Rightarrow> string \<Rightarrow> nat \<times> action_result" where
  "action_reply code ok msg = (code, \<lparr>ar_success = ok, ar_message = msg\<rparr>)"

definition find_mount :: "admin_state \<Rightarrow> string \<Rightarrow> (mount_addr \<times> active_mount) option" where
  "find_mount st path = map_option (\<lambda>a. (a, as_store st a)) (registry_get (as_mounts st) path)"

definition kick_source :: "string \<Rightarrow> admin_state \<Rightarrow> (nat \<times> action_result) \<times> admin_state" where
  "kick_source mount_path st =
     (case find_mount st (''/'' @ mount_path) of
        None \<Rightarrow> (action_reply 404 False ''mount not found'', st)
      | Some (a, m) \<Rightarrow>
          if \<not> am_source_connected m then (action_reply 409 False ''no source connected'', st)
          else (case am_source_cancel m of
                  Some token \<Rightarrow>
                    (action_reply 200 True ''source kicked'', st\<lparr>as_cancelled := insert token (as_cancelled st)\<rparr>)
                | None \<Rightarrow> (action_reply 409 False ''no source connected'', st)))"

definition kick_listener :: "nat \<Rightarrow> admin_state \<Rightarrow> (nat \<times> action_result) \<times> admin_state" where
  "kick_listener i st =
     (case listener_kick i (as_listeners st) of
        (True, lm) \<Rightarrow> (action_reply 200 True ''listener kicked'', st\<lparr>as_listeners := lm\<rparr>)
      | (False, lm) \<Rightarrow> (action_reply 404 False ''listener not found'', st))"

section \<open>api/title.rs\<close>

definition max_title_len :: nat where
  "max_title_len = 256"

definition title_forbidden :: "char set" where
  "title_forbidden = {CHR 0x27, CHR 0x0D, CHR 0x0A}"

definition put_title :: "mount_addr \<Rightarrow> string option \<Rightarrow> admin_state \<Rightarrow> admin_state" where
  "put_title a t st = st\<lparr>as_store := (as_store st)(a := (as_store st a)\<lparr>am_current_title := t\<rparr>)\<rparr>"

definition set_title :: "string \<Rightarrow> string \<Rightarrow> admin_state \<Rightarrow> (nat \<times> action_result) \<times> admin_state" where
  "set_title mount_path title st =
     (case find_mount st (''/'' @ mount_path) of
        None \<Rightarrow> (action_reply 404 False ''mount not found'', st)
      | Some (a, m) \<Rightarrow>
          (let trimmed = trim title in
           if trimmed = [] then (action_reply 200 True ''title cleared'', put_title a None st)
           else if list_ex (\<lambda>c. c = CHR 0x27 \<or> c = CHR 0x0D \<or> c = CHR 0x0A) trimmed then
             (action_reply 400 False (''title may not contain '' @ [CHR 0x27] @ '' or newlines''), st)
           else if max_title_len < char_count trimmed then
             (action_reply 400 False (''title too long (max '' @ show_nat max_title_len @ '' chars)''), st)
           else (action_reply 200 True ''title updated'', put_title a (Some trimmed) st)))"

definition clear_title :: "string \<Rightarrow> admin_state \<Rightarrow> (nat \<times> action_result) \<times> admin_state" where
  "clear_title mount_path st =
     (case find_mount st (''/'' @ mount_path) of
        None \<Rightarrow> (action_reply 404 False ''mount not found'', st)
      | Some (a, m) \<Rightarrow> (action_reply 200 True ''title cleared'', put_title a None st))"

text \<open>Titles that arrive through the API are clean: trimmed, bounded, free of quote and newline.\<close>

definition clean_title :: "string \<Rightarrow> bool" where
  "clean_title t \<longleftrightarrow> t \<noteq> [] \<and> set t \<inter> title_forbidden = {} \<and> char_count t \<le> max_title_len"

definition titles_clean :: "admin_state \<Rightarrow> bool" where
  "titles_clean st \<longleftrightarrow> (\<forall>a t. am_current_title (as_store st a) = Some t \<longrightarrow> clean_title t)"

lemma set_title_clean [inv_intros]: "titles_clean st \<Longrightarrow> titles_clean (snd (set_title p t st))"
  by (auto simp: titles_clean_def set_title_def put_title_def Let_def clean_title_def title_forbidden_def
      list_ex_iff split: option.split)

lemma clear_title_clean [inv_intros]: "titles_clean st \<Longrightarrow> titles_clean (snd (clear_title p st))"
  by (auto simp: titles_clean_def clear_title_def put_title_def split: option.split)

end
