(* ===== verification/Slot_Protocol.thy ===== *)
theory Slot_Protocol
  imports Admin_Api
begin

text \<open>
  How the owners of a mount share its slot. A live source (\<open>handle_source_connection\<close> and its
  \<open>SourceDisconnectGuard\<close>), a relay (\<open>relay/mod.rs\<close>) and an AutoDJ (\<open>player.rs\<close>) all claim a mount by
  compare-and-swap on \<open>source_connected\<close>, then write its other fields one by one, and clear them one
  by one when they let go. The tasks run in parallel, so claims and releases are lists of atomic
  writes, and the system is a step relation that interleaves them.
\<close>

section \<open>Writes\<close>

datatype owner = LiveOwner | RelayOwner | AutoDjOwner

datatype slot_write =
  StoreConnected bool
| SetCancel "token option"
| SetConnectedAt "nat option"
| SetCodec codec_id
| SetOverlay "source_overlay option"
| SetHeader "byte list option"
| SetKind source_kind
| NotifyResume

fun apply_write :: "slot_write \<Rightarrow> active_mount \<Rightarrow> active_mount" where
  "apply_write (StoreConnected b) m = m\<lparr>am_source_connected := b\<rparr>"
| "apply_write (SetCancel t) m = m\<lparr>am_source_cancel := t\<rparr>"
| "apply_write (SetConnectedAt t) m = m\<lparr>am_connected_at := t\<rparr>"
| "apply_write (SetCodec c) m = m\<lparr>am_info := (am_info m)\<lparr>mi_codec := c\<rparr>\<rparr>"
| "apply_write (SetOverlay ov) m = m\<lparr>am_source_overlay := ov\<rparr>"
| "apply_write (SetHeader h) m = m\<lparr>am_header_bytes := h\<rparr>"
| "apply_write (SetKind k) m = store_source_kind k m"
| "apply_write NotifyResume m = m\<lparr>am_resume_permit := True\<rparr>"

definition apply_writes :: "slot_write list \<Rightarrow> active_mount \<Rightarrow> active_mount" where
  "apply_writes ws m = foldl (\<lambda>m w. apply_write w m) m ws"

fun owner_kind :: "owner \<Rightarrow> source_kind" where
  "owner_kind LiveOwner = KindNone"
| "owner_kind RelayOwner = KindRelay"
| "owner_kind AutoDjOwner = KindAutoDj"

text \<open>
  The writes after a successful compare-and-swap. The live handler never stores a source kind.
\<close>

definition live_claim_writes :: "token \<Rightarrow> nat \<Rightarrow> codec_id \<Rightarrow> source_overlay \<Rightarrow> slot_write list" where
  "live_claim_writes token now codec overlay =
     [SetCancel (Some token), SetConnectedAt (Some now), SetCodec codec, SetOverlay (Some overlay)]"

definition relay_claim_writes :: "token \<Rightarrow> nat \<Rightarrow> slot_write list" where
  "relay_claim_writes token now =
     [SetKind KindRelay, SetConnectedAt (Some now), SetCancel (Some token)]"

definition autodj_claim_writes :: "token \<Rightarrow> nat \<Rightarrow> slot_write list" where
  "autodj_claim_writes token now =
     [SetKind KindAutoDj, SetConnectedAt (Some now), SetCancel (Some token)]"

definition guard_release_writes :: "slot_write list" where
  "guard_release_writes =
     [StoreConnected False, SetCancel None, SetConnectedAt None, SetOverlay None, SetHeader None, NotifyResume]"

definition relay_release_writes :: "slot_write list" where
  "relay_release_writes =
     [SetCancel None, SetConnectedAt None, SetOverlay None, SetHeader None, SetKind KindNone, StoreConnected False]"

definition autodj_release_writes :: "slot_write list" where
  "autodj_release_writes =
     [SetCancel None, SetConnectedAt None, SetOverlay None, SetHeader None, SetKind KindNone, StoreConnected False]"

fun claim_writes :: "owner \<Rightarrow> token \<Rightarrow> nat \<Rightarrow> codec_id \<Rightarrow> source_overlay \<Rightarrow> slot_write list" where
  "claim_writes LiveOwner tok now codec ov = live_claim_writes tok now codec ov"
| "claim_writes RelayOwner tok now codec ov = relay_claim_writes tok now"
| "claim_writes AutoDjOwner tok now codec ov = autodj_claim_writes tok now"

fun release_writes :: "owner \<Rightarrow> slot_write list" where
  "release_writes LiveOwner = guard_release_writes"
| "release_writes RelayOwner = relay_release_writes"
| "release_writes AutoDjOwner = autodj_release_writes"

text \<open>Both as one atomic action, when no other task is running.\<close>

definition relay_claim_slot :: "token \<Rightarrow> nat \<Rightarrow> active_mount \<Rightarrow> bool \<times> active_mount" where
  "relay_claim_slot token now m =
     (case cas_connect m of
        None \<Rightarrow> (False, m)
      | Some m' \<Rightarrow> (True, apply_writes (relay_claim_writes token now) m'))"

definition autodj_claim_slot :: "token \<Rightarrow> nat \<Rightarrow> active_mount \<Rightarrow> bool \<times> active_mount" where
  "autodj_claim_slot token now m =
     (case cas_connect m of
        None \<Rightarrow> (False, m)
      | Some m' \<Rightarrow> (True, apply_writes (autodj_claim_writes token now) m'))"

definition relay_release_slot :: "active_mount \<Rightarrow> active_mount" where
  "relay_release_slot m = apply_writes relay_release_writes m"

definition autodj_release_slot :: "active_mount \<Rightarrow> active_mount" where
  "autodj_release_slot m = apply_writes autodj_release_writes m"

text \<open>The test at the head of \<open>preempt_non_live_if_present\<close>.\<close>

definition non_live_present :: "active_mount \<Rightarrow> bool" where
  "non_live_present m \<longleftrightarrow>
     am_source_connected m \<and> load_source_kind m \<noteq> KindNone \<and> load_source_kind m \<noteq> KindLive"

section \<open>Interleavings\<close>

datatype slot_pc = Outside | Claiming "slot_write list" | Holding | Releasing "slot_write list"

type_synonym slot_state = "active_mount \<times> (nat \<Rightarrow> slot_pc)"

text \<open>
  While it holds the slot an owner may replace the header bytes and the codec; anyone may raise or
  clear the pre-emption flag and take the resume permit.
\<close>

inductive slot_step :: "(nat \<Rightarrow> owner) \<Rightarrow> slot_state \<Rightarrow> slot_state \<Rightarrow> bool" for own where
  claim: "pc i = Outside \<Longrightarrow> cas_connect m = Some m' \<Longrightarrow>
     slot_step own (m, pc) (m', pc(i := Claiming (claim_writes (own i) tok now codec ov)))"
| claim_write: "pc i = Claiming (w # ws) \<Longrightarrow>
     slot_step own (m, pc) (apply_write w m, pc(i := Claiming ws))"
| claimed: "pc i = Claiming [] \<Longrightarrow> slot_step own (m, pc) (m, pc(i := Holding))"
| capture: "pc i = Holding \<Longrightarrow> slot_step own (m, pc) (apply_write (SetHeader (Some h)) m, pc)"
| recode: "pc i = Holding \<Longrightarrow> slot_step own (m, pc) (apply_write (SetCodec c) m, pc)"
| release: "pc i = Holding \<Longrightarrow> slot_step own (m, pc) (m, pc(i := Releasing (release_writes (own i))))"
| release_write: "pc i = Releasing (w # ws) \<Longrightarrow>
     slot_step own (m, pc) (apply_write w m, pc(i := Releasing ws))"
| released: "pc i = Releasing [] \<Longrightarrow> slot_step own (m, pc) (m, pc(i := Outside))"
| preempt_flag: "slot_step own (m, pc) (m\<lparr>am_preempt_pending := b\<rparr>, pc)"
| resume_taken: "slot_step own (m, pc) (m\<lparr>am_resume_permit := False\<rparr>, pc)"

inductive slot_reach :: "(nat \<Rightarrow> owner) \<Rightarrow> slot_state \<Rightarrow> bool" for own where
  start: "slot_reach own (active_mount_new info b, \<lambda>_. Outside)"
| step: "slot_reach own s \<Longrightarrow> slot_step own s s' \<Longrightarrow> slot_reach own s'"

inductive_cases slot_stepE: "slot_step own (m, pc) s'"

section \<open>Mutual exclusion\<close>

text \<open>Between its compare-and-swap and its store of \<open>false\<close> a task has the slot.\<close>

fun has_slot :: "slot_pc \<Rightarrow> bool" where
  "has_slot Outside = False"
| "has_slot (Claiming _) = True"
| "has_slot Holding = True"
| "has_slot (Releasing ws) = (StoreConnected False \<in> set ws)"

text \<open>A program counter of an owner: the writes left are the last ones of its claim or release.\<close>

definition pc_ok :: "owner \<Rightarrow> slot_pc \<Rightarrow> bool" where
  "pc_ok ow p \<longleftrightarrow>
     (case p of
        Claiming ws \<Rightarrow> (\<exists>tok now codec ov. suffix ws (claim_writes ow tok now codec ov))
      | Releasing ws \<Rightarrow> suffix ws (release_writes ow)
      | _ \<Rightarrow> True)"

definition slot_inv :: "(nat \<Rightarrow> owner) \<Rightarrow> slot_state \<Rightarrow> bool" where
  "slot_inv own s \<longleftrightarrow>
     (\<forall>i. pc_ok (own i) (snd s i)) \<and>
     (\<forall>i j. has_slot (snd s i) \<and> has_slot (snd s j) \<longrightarrow> i = j) \<and>
     (am_source_connected (fst s) \<longleftrightarrow> (\<exists>i. has_slot (snd s i))) \<and>
     (load_source_kind (fst s) \<noteq> KindNone \<longrightarrow>
        (\<exists>i. has_slot (snd s i) \<and> own i \<noteq> LiveOwner \<and> load_source_kind (fst s) = owner_kind (own i))) \<and>
     (\<forall>i ws. snd s i = Releasing ws \<and> own i \<noteq> LiveOwner \<and> StoreConnected False \<in> set ws \<and>
        SetKind KindNone \<notin> set ws \<longrightarrow> load_source_kind (fst s) = KindNone)"

lemmas slot_writes_defs =
  live_claim_writes_def relay_claim_writes_def autodj_claim_writes_def
  guard_release_writes_def relay_release_writes_def autodj_release_writes_def

lemma pc_ok_simps [simp]: "pc_ok ow Outside" "pc_ok ow Holding" "pc_ok ow (Releasing (release_writes ow))"
  by (simp_all add: pc_ok_def)

lemma pc_ok_claim: "pc_ok ow (Claiming (claim_writes ow tok now codec ov))"
  unfolding pc_ok_def by (auto intro: exI [of _ tok])

lemma pc_ok_tl:
  "pc_ok ow (Claiming (w # ws)) \<Longrightarrow> pc_ok ow (Claiming ws)"
  "pc_ok ow (Releasing (w # ws)) \<Longrightarrow> pc_ok ow (Releasing ws)"
  by (simp_all add: pc_ok_def) (blast dest: suffix_ConsD)+

lemma load_kind_write [simp]:
  "load_source_kind (apply_write w m) = (case w of SetKind k \<Rightarrow> k | _ \<Rightarrow> load_source_kind m)"
  by (cases w) (simp_all add: load_source_kind_def store_source_kind_def)

lemma connected_write [simp]:
  "am_source_connected (apply_write w m) = (case w of StoreConnected b \<Rightarrow> b | _ \<Rightarrow> am_source_connected m)"
  by (cases w) (simp_all add: store_source_kind_def)

declare apply_write.simps [simp del]

lemma suffix_Cons2: "suffix xs (y # ys) \<longleftrightarrow> xs = y # ys \<or> suffix xs ys"
  by (auto simp: suffix_Cons)

lemma claim_write_head:
  assumes "pc_ok ow (Claiming (w # ws))"
  shows "(\<forall>b. w \<noteq> StoreConnected b) \<and> (\<forall>k. w = SetKind k \<longrightarrow> ow \<noteq> LiveOwner \<and> k = owner_kind ow)"
  using assms by (cases ow) (auto simp: pc_ok_def suffix_Cons2 slot_writes_defs)

lemma release_write_head:
  assumes "pc_ok ow (Releasing (w # ws))"
  shows "(\<forall>b. w = StoreConnected b \<longrightarrow> \<not> b \<and> StoreConnected False \<notin> set ws \<and> (ow \<noteq> LiveOwner \<longrightarrow> ws = [])) \<and>
    (\<forall>k. w = SetKind k \<longrightarrow> k = KindNone \<and> StoreConnected False \<in> set ws) \<and>
    (ow \<noteq> LiveOwner \<and> w = StoreConnected False \<longrightarrow> SetKind KindNone \<notin> set (w # ws)) \<and>
    (ow \<noteq> LiveOwner \<longrightarrow> w = StoreConnected False \<or> StoreConnected False \<in> set ws)"
  using assms by (cases ow) (auto simp: pc_ok_def suffix_Cons2 slot_writes_defs)


lemma slot_invD:
  assumes "slot_inv own (m, pc)"
  shows "pc_ok (own i) (pc i)"
    and "has_slot (pc i) \<Longrightarrow> has_slot (pc j) \<Longrightarrow> i = j"
    and "am_source_connected m \<longleftrightarrow> (\<exists>i. has_slot (pc i))"
    and "load_source_kind m \<noteq> KindNone \<Longrightarrow>
      \<exists>i. has_slot (pc i) \<and> own i \<noteq> LiveOwner \<and> load_source_kind m = owner_kind (own i)"
    and "pc i = Releasing ws \<Longrightarrow> own i \<noteq> LiveOwner \<Longrightarrow> StoreConnected False \<in> set ws \<Longrightarrow>
      SetKind KindNone \<notin> set ws \<Longrightarrow> load_source_kind m = KindNone"
  using assms unfolding slot_inv_def fst_conv snd_conv by blast+

text \<open>A step that moves one task and keeps who has the slot, and the kind.\<close>

lemma slot_inv_move:
  assumes inv: "slot_inv own (m, pc)" and ok: "pc_ok (own i) p" and h: "has_slot p = has_slot (pc i)"
    and c: "am_source_connected m' = am_source_connected m" and k: "load_source_kind m' = load_source_kind m"
    and r: "\<And>ws. p = Releasing ws \<Longrightarrow> own i \<noteq> LiveOwner \<Longrightarrow> StoreConnected False \<in> set ws \<Longrightarrow>
       SetKind KindNone \<notin> set ws \<Longrightarrow> load_source_kind m = KindNone"
  shows "slot_inv own (m', pc(i := p))"
proof -
  have h': "has_slot ((pc(i := p)) j) = has_slot (pc j)" for j using h by simp
  show ?thesis
    unfolding slot_inv_def fst_conv snd_conv h' c k
  proof (intro conjI)
    show "\<forall>j. pc_ok (own j) ((pc(i := p)) j)" using slot_invD(1) [OF inv] ok by simp
    show "\<forall>j k. has_slot (pc j) \<and> has_slot (pc k) \<longrightarrow> j = k" using slot_invD(2) [OF inv] by blast
    show "am_source_connected m = (\<exists>i. has_slot (pc i))" by (rule slot_invD(3) [OF inv])
    show "load_source_kind m \<noteq> KindNone \<longrightarrow>
        (\<exists>i. has_slot (pc i) \<and> own i \<noteq> LiveOwner \<and> load_source_kind m = owner_kind (own i))"
      using slot_invD(4) [OF inv] by blast
    show "\<forall>j ws. (pc(i := p)) j = Releasing ws \<and> own j \<noteq> LiveOwner \<and> StoreConnected False \<in> set ws \<and>
        SetKind KindNone \<notin> set ws \<longrightarrow> load_source_kind m = KindNone"
      using slot_invD(5) [OF inv] r by (metis fun_upd_apply)
  qed
qed

text \<open>A step of the task that has the slot: the clauses on the others are vacuous.\<close>

lemma slot_inv_owner:
  assumes inv: "slot_inv own (m, pc)" and hi: "has_slot (pc i)" and ok: "pc_ok (own i) p"
    and c: "am_source_connected m' \<longleftrightarrow> has_slot p"
    and k: "load_source_kind m' \<noteq> KindNone \<Longrightarrow>
       has_slot p \<and> own i \<noteq> LiveOwner \<and> load_source_kind m' = owner_kind (own i)"
    and r: "\<And>ws. p = Releasing ws \<Longrightarrow> own i \<noteq> LiveOwner \<Longrightarrow> StoreConnected False \<in> set ws \<Longrightarrow>
       SetKind KindNone \<notin> set ws \<Longrightarrow> load_source_kind m' = KindNone"
  shows "slot_inv own (m', pc(i := p))"
proof -
  have others: "\<not> has_slot (pc j)" if "j \<noteq> i" for j using slot_invD(2) [OF inv hi, of j] that by blast
  show ?thesis
    unfolding slot_inv_def fst_conv snd_conv
  proof (intro conjI)
    show "\<forall>j. pc_ok (own j) ((pc(i := p)) j)" using slot_invD(1) [OF inv] ok by simp
    show "\<forall>j k. has_slot ((pc(i := p)) j) \<and> has_slot ((pc(i := p)) k) \<longrightarrow> j = k"
      using others by (metis fun_upd_apply)
    show "am_source_connected m' = (\<exists>j. has_slot ((pc(i := p)) j))"
      using c others by (metis fun_upd_apply)
    show "load_source_kind m' \<noteq> KindNone \<longrightarrow>
        (\<exists>j. has_slot ((pc(i := p)) j) \<and> own j \<noteq> LiveOwner \<and> load_source_kind m' = owner_kind (own j))"
      using k by (metis fun_upd_same)
    show "\<forall>j ws. (pc(i := p)) j = Releasing ws \<and> own j \<noteq> LiveOwner \<and> StoreConnected False \<in> set ws \<and>
        SetKind KindNone \<notin> set ws \<longrightarrow> load_source_kind m' = KindNone"
      using r others by (metis fun_upd_apply has_slot.simps(4))
  qed
qed

lemma slot_inv_flags:
  assumes "slot_inv own (m, pc)" and "am_source_connected m' = am_source_connected m"
    and "load_source_kind m' = load_source_kind m"
  shows "slot_inv own (m', pc)"
  using assms unfolding slot_inv_def fst_conv snd_conv by simp

lemma slot_kind_live:
  assumes "slot_inv own (m, pc)" and "has_slot (pc i)"
  shows "load_source_kind m \<noteq> KindNone \<Longrightarrow> own i \<noteq> LiveOwner \<and> load_source_kind m = owner_kind (own i)"
  using slot_invD(4) [OF assms(1)] slot_invD(2) [OF assms(1,2)] by blast

lemma slot_inv_step:
  assumes "slot_step own s s'" and "slot_inv own s"
  shows "slot_inv own s'"
  using assms
proof (induction rule: slot_step.induct)
  case (claim pc i m m' tok now codec ov)
  have free: "\<not> am_source_connected m" and m': "m' = m\<lparr>am_source_connected := True\<rparr>"
    using claim.hyps(2) by (auto simp: cas_connect_def split: if_splits)
  have none: "\<not> has_slot (pc j)" for j using slot_invD(3) [OF claim.prems] free by blast
  have k: "load_source_kind m' = load_source_kind m" by (simp add: m' load_source_kind_def)
  have kn: "load_source_kind m = KindNone" using slot_invD(4) [OF claim.prems] none by blast
  show ?case
    unfolding slot_inv_def fst_conv snd_conv k kn
    using none pc_ok_claim [of "own i" tok now codec ov] slot_invD(1) [OF claim.prems] by (auto simp: m')
next
  case (claim_write pc i w ws m)
  have ok: "pc_ok (own i) (Claiming (w # ws))" using slot_invD(1) [OF claim_write.prems, of i] claim_write.hyps by simp
  have hi: "has_slot (pc i)" using claim_write.hyps by simp
  show ?case
  proof (rule slot_inv_owner [OF claim_write.prems hi])
    show "pc_ok (own i) (Claiming ws)" by (rule pc_ok_tl(1) [OF ok])
    show "am_source_connected (apply_write w m) \<longleftrightarrow> has_slot (Claiming ws)"
      using slot_invD(3) [OF claim_write.prems] hi claim_write_head [OF ok] by (auto split: slot_write.split)
    show "has_slot (Claiming ws) \<and> own i \<noteq> LiveOwner \<and> load_source_kind (apply_write w m) = owner_kind (own i)"
      if "load_source_kind (apply_write w m) \<noteq> KindNone"
      using that slot_kind_live [OF claim_write.prems hi] claim_write_head [OF ok] by (cases w) auto
  qed simp
next
  case (claimed pc i m)
  then show ?case by (intro slot_inv_move) simp_all
next
  case (capture pc i m h)
  then show ?case by (elim slot_inv_flags) simp_all
next
  case (recode pc i m c)
  then show ?case by (elim slot_inv_flags) simp_all
next
  case (release pc i m)
  have "SetKind KindNone \<in> set (release_writes (own i))" if "own i \<noteq> LiveOwner"
    using that by (cases "own i") (auto simp: slot_writes_defs)
  moreover have "StoreConnected False \<in> set (release_writes (own i))"
    by (cases "own i") (auto simp: slot_writes_defs)
  ultimately show ?case using release by (intro slot_inv_move) auto
next
  case (release_write pc i w ws m)
  have ok: "pc_ok (own i) (Releasing (w # ws))" using slot_invD(1) [OF release_write.prems, of i] release_write.hyps by simp
  note head = release_write_head [OF ok]
  show ?case
  proof (cases "has_slot (pc i)")
    case True
    have con: "am_source_connected m" using slot_invD(3) [OF release_write.prems] True by blast
    show ?thesis
    proof (rule slot_inv_owner [OF release_write.prems True])
      show "pc_ok (own i) (Releasing ws)" by (rule pc_ok_tl(2) [OF ok])
      show "am_source_connected (apply_write w m) \<longleftrightarrow> has_slot (Releasing ws)"
        using con True release_write.hyps head by (cases w) auto
      show "has_slot (Releasing ws) \<and> own i \<noteq> LiveOwner \<and> load_source_kind (apply_write w m) = owner_kind (own i)"
        if k: "load_source_kind (apply_write w m) \<noteq> KindNone"
      proof (cases "w = StoreConnected False")
        case True
        with k have km: "load_source_kind m \<noteq> KindNone" by simp
        have nl: "own i \<noteq> LiveOwner"
          using slot_kind_live [OF release_write.prems \<open>has_slot (pc i)\<close> km] by blast
        have "StoreConnected False \<in> set (w # ws)" using True by simp
        moreover have "SetKind KindNone \<notin> set (w # ws)" using True nl head by blast
        ultimately have "load_source_kind m = KindNone"
          by (rule slot_invD(5) [OF release_write.prems release_write.hyps nl])
        with km show ?thesis by blast
      next
        case False
        have nk: "w \<noteq> SetKind k'" for k'
        proof
          assume w: "w = SetKind k'"
          then have "k' = KindNone" using head by blast
          with w k show False by simp
        qed
        have "load_source_kind (apply_write w m) = load_source_kind m"
          using nk by (cases w) auto
        moreover have "has_slot (Releasing ws)" using True release_write.hyps False by simp
        ultimately show ?thesis
          using slot_kind_live [OF release_write.prems True] k by simp
      qed
      show "load_source_kind (apply_write w m) = KindNone"
        if "Releasing ws = Releasing us" "own i \<noteq> LiveOwner" "StoreConnected False \<in> set us" "SetKind KindNone \<notin> set us" for us
        using that slot_invD(5) [OF release_write.prems release_write.hyps] head by (cases w) auto
    qed
  next
    case False
    then have "StoreConnected False \<notin> set (w # ws)" using release_write.hyps by simp
    moreover from this head have "\<forall>b. w \<noteq> StoreConnected b" "\<forall>k. w \<noteq> SetKind k" by auto
    ultimately show ?thesis
      using release_write pc_ok_tl(2) [OF ok] by (intro slot_inv_move) (auto split: slot_write.split)
  qed
next
  case (released pc i m)
  then show ?case by (intro slot_inv_move) simp_all
next
  case (preempt_flag m pc b)
  then show ?case by (elim slot_inv_flags) (simp_all add: load_source_kind_def)
next
  case (resume_taken m pc)
  then show ?case by (elim slot_inv_flags) (simp_all add: load_source_kind_def)
qed

lemma slot_inv_reach: "slot_reach own s \<Longrightarrow> slot_inv own s"
proof (induction rule: slot_reach.induct)
  case (start info b)
  show ?case by (simp add: slot_inv_def active_mount_new_def load_source_kind_def source_kind_from_u8_def)
next
  case (step s s')
  then show ?case by (blast intro: slot_inv_step)
qed

text \<open>
  Claim C2. Exclusive use of a mount: in every interleaving of any number of live sources, relays
  and AutoDJs, at most one of them is between its successful compare-and-swap and its store of
  \<open>false\<close>, the connected flag tells exactly whether there is one, and while a live source has the
  slot no source kind of a relay or AutoDJ is left, so that it is neither reported nor pre-empted
  as one.
\<close>

theorem slot_exclusive:
  assumes "slot_reach own (m, pc)"
  shows "(\<forall>i j. has_slot (pc i) \<and> has_slot (pc j) \<longrightarrow> i = j) \<and>
    (am_source_connected m \<longleftrightarrow> (\<exists>i. has_slot (pc i))) \<and>
    (\<forall>i. has_slot (pc i) \<and> own i = LiveOwner \<longrightarrow> load_source_kind m = KindNone \<and> \<not> non_live_present m)"
proof -
  note inv = slot_inv_reach [OF assms]
  have "load_source_kind m = KindNone" if "has_slot (pc i)" "own i = LiveOwner" for i
    using slot_kind_live [OF inv that(1)] that(2) by blast
  then show ?thesis
    using slot_invD(2,3) [OF inv] by (simp add: non_live_present_def) blast
qed

section \<open>Owners that are not live\<close>

text \<open>
  Relays and AutoDJs release the slot last, so a free slot is clean; and one that holds it has its
  kind and its cancellation token in place.
\<close>

definition slot_clean :: "active_mount \<Rightarrow> bool" where
  "slot_clean m \<longleftrightarrow> am_source_cancel m = None \<and> am_connected_at m = None \<and> am_source_overlay m = None \<and>
     am_header_bytes m = None \<and> load_source_kind m = KindNone"

definition owned_ok :: "owner \<Rightarrow> active_mount \<Rightarrow> bool" where
  "owned_ok ow m \<longleftrightarrow> load_source_kind m = owner_kind ow \<and> am_source_cancel m \<noteq> None \<and> am_connected_at m \<noteq> None"

text \<open>The writes left to a claim or a release complete it; a task that has let go has none left.\<close>

definition phase_ok :: "owner \<Rightarrow> active_mount \<Rightarrow> slot_pc \<Rightarrow> bool" where
  "phase_ok ow m p \<longleftrightarrow>
     (case p of
        Outside \<Rightarrow> True
      | Claiming ws \<Rightarrow> owned_ok ow (apply_writes ws m)
      | Holding \<Rightarrow> owned_ok ow m
      | Releasing ws \<Rightarrow> if has_slot p then slot_clean (apply_writes ws m) else ws = [])"

definition non_live_inv :: "(nat \<Rightarrow> owner) \<Rightarrow> slot_state \<Rightarrow> bool" where
  "non_live_inv own s \<longleftrightarrow>
     (\<forall>i. phase_ok (own i) (fst s) (snd s i)) \<and> (\<not> am_source_connected (fst s) \<longrightarrow> slot_clean (fst s))"

lemma apply_writes_simps [simp]:
  "apply_writes [] m = m" "apply_writes (w # ws) m = apply_writes ws (apply_write w m)"
  by (simp_all add: apply_writes_def)

lemmas slot_write_simps = apply_write.simps store_source_kind_def load_source_kind_def

lemma claim_establishes:
  "ow \<noteq> LiveOwner \<Longrightarrow> owned_ok ow (apply_writes (claim_writes ow tok now codec ov) m)"
  by (cases ow) (simp_all add: slot_writes_defs owned_ok_def slot_write_simps source_kind_from_u8_def)

lemma release_clears:
  "ow \<noteq> LiveOwner \<Longrightarrow> slot_clean (apply_writes (release_writes ow) m)"
  by (cases ow) (simp_all add: slot_writes_defs slot_clean_def slot_write_simps source_kind_from_u8_def)

text \<open>The two flags any task may change are not looked at.\<close>

definition plain_flags :: "active_mount \<Rightarrow> active_mount" where
  "plain_flags m = m\<lparr>am_preempt_pending := False, am_resume_permit := False\<rparr>"

lemma plain_flags_write: "plain_flags (apply_write w m) = plain_flags (apply_write w (plain_flags m))"
  by (cases w) (simp_all add: plain_flags_def slot_write_simps)

lemma plain_flags_writes: "plain_flags (apply_writes ws m) = plain_flags (apply_writes ws (plain_flags m))"
proof (induction ws arbitrary: m)
  case Nil
  then show ?case by (simp add: plain_flags_def)
next
  case (Cons w ws)
  show ?case
    using Cons.IH [of "apply_write w m"] Cons.IH [of "apply_write w (plain_flags m)"]
    by (simp add: plain_flags_write [of w m, symmetric])
qed

lemma ok_plain_flags:
  "owned_ok ow (plain_flags m) = owned_ok ow m" "slot_clean (plain_flags m) = slot_clean m"
  by (simp_all add: plain_flags_def owned_ok_def slot_clean_def load_source_kind_def)

lemma phase_ok_flags:
  assumes "plain_flags m' = plain_flags m"
  shows "phase_ok ow m' p = phase_ok ow m p"
proof -
  have w: "owned_ok ow (apply_writes ws m') = owned_ok ow (apply_writes ws m)"
      "slot_clean (apply_writes ws m') = slot_clean (apply_writes ws m)" for ws
    by (metis assms ok_plain_flags plain_flags_writes)+
  show ?thesis using w [of "[]"] by (simp add: phase_ok_def w split: slot_pc.split)
qed

lemma phase_ok_outside:
  "\<not> has_slot p \<Longrightarrow> phase_ok ow m p \<longleftrightarrow> p = Outside \<or> p = Releasing []"
  by (cases p) (auto simp: phase_ok_def)

lemma non_live_invI:
  assumes inv: "slot_inv own (m', pc')" and i: "phase_ok (own i) m' (pc' i)"
    and others: "\<And>j. j \<noteq> i \<Longrightarrow> \<not> has_slot (pc' j) \<and> phase_ok (own j) m (pc' j)"
    and free: "\<not> am_source_connected m' \<Longrightarrow> slot_clean m'"
  shows "non_live_inv own (m', pc')"
  unfolding non_live_inv_def fst_conv snd_conv
proof (intro conjI allI impI)
  fix j
  show "phase_ok (own j) m' (pc' j)"
    using i others [of j] phase_ok_outside [of "pc' j"] by (cases "j = i") auto
qed (rule free)

lemma non_live_invD:
  assumes "non_live_inv own (m, pc)"
  shows "phase_ok (own i) m (pc i)" and "\<not> am_source_connected m \<Longrightarrow> slot_clean m"
  using assms by (auto simp: non_live_inv_def)

lemma non_live_inv_step:
  assumes "slot_step own s s'" and "slot_inv own s" and "non_live_inv own s" and nl: "\<forall>i. own i \<noteq> LiveOwner"
  shows "non_live_inv own s'"
  using assms(1) slot_inv_step [OF assms(1,2)] assms(2,3)
proof (induction rule: slot_step.induct)
  case (claim pc i m m' tok now codec ov)
  have m': "m' = m\<lparr>am_source_connected := True\<rparr>" and free: "\<not> am_source_connected m"
    using claim.hyps(2) by (auto simp: cas_connect_def split: if_splits)
  have none: "\<not> has_slot (pc j)" for j using slot_invD(3) [OF claim.prems(2)] free by blast
  show ?case
  proof (rule non_live_invI [OF claim.prems(1), of i m])
    show "phase_ok (own i) m' ((pc(i := Claiming (claim_writes (own i) tok now codec ov))) i)"
      using claim_establishes nl by (simp add: phase_ok_def)
    show "\<not> has_slot ((pc(i := Claiming (claim_writes (own i) tok now codec ov))) j) \<and>
        phase_ok (own j) m ((pc(i := Claiming (claim_writes (own i) tok now codec ov))) j)" if "j \<noteq> i" for j
      using that none non_live_invD(1) [OF claim.prems(3)] by simp
  qed (simp add: m')
next
  case (claim_write pc i w ws m)
  have hi: "has_slot (pc i)" using claim_write.hyps by simp
  show ?case
  proof (rule non_live_invI [OF claim_write.prems(1), of i m])
    show "phase_ok (own i) (apply_write w m) ((pc(i := Claiming ws)) i)"
      using non_live_invD(1) [OF claim_write.prems(3), of i] claim_write.hyps by (simp add: phase_ok_def)
    show "\<not> has_slot ((pc(i := Claiming ws)) j) \<and> phase_ok (own j) m ((pc(i := Claiming ws)) j)" if "j \<noteq> i" for j
      using that slot_invD(2) [OF claim_write.prems(2) hi, of j] non_live_invD(1) [OF claim_write.prems(3)] by auto
    show "slot_clean (apply_write w m)" if "\<not> am_source_connected (apply_write w m)"
      using that slot_invD(3) [OF claim_write.prems(1)] by (metis fun_upd_same has_slot.simps(2))
  qed
next
  case (claimed pc i m)
  have hi: "has_slot (pc i)" using claimed.hyps by simp
  show ?case
  proof (rule non_live_invI [OF claimed.prems(1), of i m])
    show "phase_ok (own i) m ((pc(i := Holding)) i)"
      using non_live_invD(1) [OF claimed.prems(3), of i] claimed.hyps by (simp add: phase_ok_def)
    show "\<not> has_slot ((pc(i := Holding)) j) \<and> phase_ok (own j) m ((pc(i := Holding)) j)" if "j \<noteq> i" for j
      using that slot_invD(2) [OF claimed.prems(2) hi, of j] non_live_invD(1) [OF claimed.prems(3)] by auto
  qed (rule non_live_invD(2) [OF claimed.prems(3)])
next
  case (capture pc i m h)
  have hi: "has_slot (pc i)" using capture.hyps by simp
  show ?case
  proof (rule non_live_invI [OF capture.prems(1), of i m])
    show "phase_ok (own i) (apply_write (SetHeader (Some h)) m) (pc i)"
      using non_live_invD(1) [OF capture.prems(3), of i] capture.hyps
      by (simp add: phase_ok_def owned_ok_def slot_write_simps)
    show "\<not> has_slot (pc j) \<and> phase_ok (own j) m (pc j)" if "j \<noteq> i" for j
      using that slot_invD(2) [OF capture.prems(2) hi, of j] non_live_invD(1) [OF capture.prems(3)] by auto
    show "slot_clean (apply_write (SetHeader (Some h)) m)" if "\<not> am_source_connected (apply_write (SetHeader (Some h)) m)"
      using that slot_invD(3) [OF capture.prems(1)] hi by blast
  qed
next
  case (recode pc i m c)
  have hi: "has_slot (pc i)" using recode.hyps by simp
  show ?case
  proof (rule non_live_invI [OF recode.prems(1), of i m])
    show "phase_ok (own i) (apply_write (SetCodec c) m) (pc i)"
      using non_live_invD(1) [OF recode.prems(3), of i] recode.hyps
      by (simp add: phase_ok_def owned_ok_def slot_write_simps)
    show "\<not> has_slot (pc j) \<and> phase_ok (own j) m (pc j)" if "j \<noteq> i" for j
      using that slot_invD(2) [OF recode.prems(2) hi, of j] non_live_invD(1) [OF recode.prems(3)] by auto
    show "slot_clean (apply_write (SetCodec c) m)" if "\<not> am_source_connected (apply_write (SetCodec c) m)"
      using that slot_invD(3) [OF recode.prems(1)] hi by blast
  qed
next
  case (release pc i m)
  have hi: "has_slot (pc i)" using release.hyps by simp
  have r: "has_slot (Releasing (release_writes (own i)))"
    by (cases "own i") (simp_all add: slot_writes_defs)
  show ?case
  proof (rule non_live_invI [OF release.prems(1), of i m])
    show "phase_ok (own i) m ((pc(i := Releasing (release_writes (own i)))) i)"
      using r release_clears nl by (simp add: phase_ok_def)
    show "\<not> has_slot ((pc(i := Releasing (release_writes (own i)))) j) \<and>
        phase_ok (own j) m ((pc(i := Releasing (release_writes (own i)))) j)" if "j \<noteq> i" for j
      using that slot_invD(2) [OF release.prems(2) hi, of j] non_live_invD(1) [OF release.prems(3)] by auto
  qed (rule non_live_invD(2) [OF release.prems(3)])
next
  case (release_write pc i w ws m)
  have ok: "pc_ok (own i) (Releasing (w # ws))" using slot_invD(1) [OF release_write.prems(2), of i] release_write.hyps by simp
  note head = release_write_head [OF ok]
  have ph: "phase_ok (own i) m (Releasing (w # ws))" using non_live_invD(1) [OF release_write.prems(3), of i] release_write.hyps by simp
  then have hi': "has_slot (Releasing (w # ws))" by (cases "has_slot (Releasing (w # ws))") (simp_all add: phase_ok_def)
  then have hi: "has_slot (pc i)" using release_write.hyps by simp
  have cl: "slot_clean (apply_writes ws (apply_write w m))" using ph hi' by (simp add: phase_ok_def)
  have last: "w = StoreConnected False \<and> ws = [] \<or> StoreConnected False \<in> set ws" using head nl by blast
  show ?case
  proof (rule non_live_invI [OF release_write.prems(1), of i m])
    show "phase_ok (own i) (apply_write w m) ((pc(i := Releasing ws)) i)"
      using cl last by (auto simp: phase_ok_def)
    show "\<not> has_slot ((pc(i := Releasing ws)) j) \<and> phase_ok (own j) m ((pc(i := Releasing ws)) j)" if "j \<noteq> i" for j
      using that slot_invD(2) [OF release_write.prems(2) hi, of j] non_live_invD(1) [OF release_write.prems(3)] by auto
    show "slot_clean (apply_write w m)" if c: "\<not> am_source_connected (apply_write w m)"
    proof -
      have "\<not> has_slot (Releasing ws)"
        using c slot_invD(3) [OF release_write.prems(1)] by (metis fun_upd_same)
      with last have "ws = []" by auto
      with cl show ?thesis by simp
    qed
  qed
next
  case (released pc i m)
  show ?case
    using released.prems(3) by (auto simp: non_live_inv_def phase_ok_def)
next
  case (preempt_flag m pc b)
  have "plain_flags (m\<lparr>am_preempt_pending := b\<rparr>) = plain_flags m" by (simp add: plain_flags_def)
  from phase_ok_flags [OF this] preempt_flag.prems(3) show ?case
    by (simp add: non_live_inv_def slot_clean_def load_source_kind_def)
next
  case (resume_taken m pc)
  have "plain_flags (m\<lparr>am_resume_permit := False\<rparr>) = plain_flags m" by (simp add: plain_flags_def)
  from phase_ok_flags [OF this] resume_taken.prems(3) show ?case
    by (simp add: non_live_inv_def slot_clean_def load_source_kind_def)
qed

lemma non_live_inv_reach:
  "slot_reach own s \<Longrightarrow> \<forall>i. own i \<noteq> LiveOwner \<Longrightarrow> non_live_inv own s"
proof (induction rule: slot_reach.induct)
  case (start info b)
  show ?case
    by (simp add: non_live_inv_def phase_ok_def slot_clean_def active_mount_new_def load_source_kind_def
        source_kind_from_u8_def)
next
  case (step s s')
  then show ?case by (blast intro: non_live_inv_step slot_inv_reach)
qed

section \<open>Running a schedule\<close>

text \<open>
  A scheduler's choice: the next claim of a task, or its next action. An executable interpreter of
  the step relation, for concrete interleavings.
\<close>

datatype slot_act = ActClaim nat token nat codec_id source_overlay | ActNext nat

fun slot_exec :: "(nat \<Rightarrow> owner) \<Rightarrow> slot_act \<Rightarrow> slot_state \<Rightarrow> slot_state option" where
  "slot_exec own (ActClaim i tok now codec ov) (m, pc) =
     (if pc i = Outside then
        map_option (\<lambda>m'. (m', pc(i := Claiming (claim_writes (own i) tok now codec ov)))) (cas_connect m)
      else None)"
| "slot_exec own (ActNext i) (m, pc) =
     (case pc i of
        Outside \<Rightarrow> None
      | Claiming (w # ws) \<Rightarrow> Some (apply_write w m, pc(i := Claiming ws))
      | Claiming [] \<Rightarrow> Some (m, pc(i := Holding))
      | Holding \<Rightarrow> Some (m, pc(i := Releasing (release_writes (own i))))
      | Releasing (w # ws) \<Rightarrow> Some (apply_write w m, pc(i := Releasing ws))
      | Releasing [] \<Rightarrow> Some (m, pc(i := Outside)))"

fun slot_run :: "(nat \<Rightarrow> owner) \<Rightarrow> slot_act list \<Rightarrow> slot_state \<Rightarrow> slot_state option" where
  "slot_run own [] s = Some s"
| "slot_run own (a # as) s = Option.bind (slot_exec own a s) (slot_run own as)"

lemma slot_exec_step: "slot_exec own a s = Some s' \<Longrightarrow> slot_step own s s'"
  by (cases "(own, a, s)" rule: slot_exec.cases)
    (auto split: if_splits slot_pc.splits list.splits intro: slot_step.intros)

lemma slot_run_reach: "slot_run own as s = Some s' \<Longrightarrow> slot_reach own s \<Longrightarrow> slot_reach own s'"
  by (induction own as s rule: slot_run.induct)
    (auto split: bind_splits dest: slot_exec_step intro: slot_reach.step)


definition no_overlay :: source_overlay where
  "no_overlay = \<lparr>so_name = None, so_description = None, so_genre = None, so_url = None, so_public = None,
     so_audio_info = None, so_bitrate_kbps = None\<rparr>"

definition start_state :: "mount_info \<Rightarrow> bus \<Rightarrow> slot_state" where
  "start_state info b = (active_mount_new info b, \<lambda>_. Outside)"

lemma start_state_reach: "slot_reach own (start_state info b)"
  unfolding start_state_def by (rule slot_reach.start)

lemmas slot_run_simps =
  start_state_def active_mount_new_def cas_connect_def slot_writes_defs slot_write_simps source_kind_from_u8_def

definition relay_turn :: "slot_act list" where
  "relay_turn = ActClaim 0 7 1 MP3 no_overlay # [ActNext 0, ActNext 0, ActNext 0, ActNext 0]"

lemma relay_turn_run:
  "\<exists>m pc. slot_run (\<lambda>_. RelayOwner) relay_turn (start_state info b) = Some (m, pc) \<and> pc 0 = Holding"
  by (simp add: relay_turn_def slot_run_simps)


definition live_turn :: "slot_act list" where
  "live_turn = ActClaim 0 7 1 MP3 no_overlay # [ActNext 0, ActNext 0, ActNext 0, ActNext 0, ActNext 0]"

lemma live_turn_run:
  "\<exists>m pc. slot_run (\<lambda>_. LiveOwner) live_turn (start_state info b) = Some (m, pc) \<and> pc 0 = Holding"
  by (simp add: live_turn_def slot_run_simps)

theorem slot_exclusive_witness:
  "\<exists>m pc. slot_reach (\<lambda>_. LiveOwner) (m, pc) \<and> has_slot (pc 0) \<and> am_source_connected m \<and> \<not> non_live_present m"
proof -
  obtain m pc where r: "slot_run (\<lambda>_. LiveOwner) live_turn (start_state info b) = Some (m, pc)" "pc 0 = Holding"
    using live_turn_run by blast
  have reach: "slot_reach (\<lambda>_. LiveOwner) (m, pc)" by (rule slot_run_reach [OF r(1) start_state_reach])
  have "has_slot (pc 0)" using r(2) by simp
  then show ?thesis using slot_exclusive [OF reach] reach by blast
qed

section \<open>Two windows\<close>

text \<open>
  The guard of a live source frees the slot first and clears the fields afterwards. Source 1 takes
  the slot in between, and the rest of the cleanup of source 0 falls on it.
\<close>

definition cleanup_race :: "slot_act list" where
  "cleanup_race =
     live_turn @ [ActNext 0, ActNext 0] @ (ActClaim 1 8 2 MP3 no_overlay # [ActNext 1, ActNext 1, ActNext 1, ActNext 1, ActNext 1]) @
     [ActNext 0, ActNext 0, ActNext 0, ActNext 0, ActNext 0]"

lemma cleanup_race_run:
  "\<exists>m pc. slot_run (\<lambda>_. LiveOwner) cleanup_race (start_state info b) = Some (m, pc) \<and> pc 1 = Holding \<and>
     am_source_connected m \<and> am_source_cancel m = None \<and> am_connected_at m = None \<and> am_source_overlay m = None"
  by (simp add: cleanup_race_def live_turn_def slot_run_simps)

text \<open>
  Claim C40. The cleanup of a live source can hit its successor: there is an interleaving of two
  live sources after which the second one streams with its cancellation token, connection time and
  station headers erased, so that an administrator who kicks it is told that no source is connected.
\<close>

theorem live_cleanup_race:
  "\<exists>m pc. slot_reach (\<lambda>_. LiveOwner) (m, pc) \<and> pc 1 = Holding \<and> am_source_connected m \<and>
     am_source_cancel m = None \<and> am_source_overlay m = None \<and>
     (\<forall>st path a. fst (kick_source path
        (st\<lparr>as_store := (as_store st)(a := m), as_mounts := registry_put (as_mounts st) (''/'' @ path) a\<rparr>)) =
      action_reply 409 False ''no source connected'')"
proof -
  obtain m pc where r: "slot_run (\<lambda>_. LiveOwner) cleanup_race (start_state undefined undefined) = Some (m, pc)"
    "pc 1 = Holding" "am_source_connected m" "am_source_cancel m = None" "am_source_overlay m = None"
    using cleanup_race_run by blast
  have "slot_reach (\<lambda>_. LiveOwner) (m, pc)" by (rule slot_run_reach [OF r(1) start_state_reach])
  with r show ?thesis
    by (intro exI [of _ m] exI [of _ pc])
      (simp add: kick_source_def find_mount_def registry_get_def registry_put_def)
qed

text \<open>
  A relay stores its kind after it has the slot, and its token after its kind. A live source that
  looks in between either sees nothing to pre-empt, and is refused, or raises the pre-emption flag
  and finds no token to cancel.
\<close>

lemma claim_window_run:
  "\<exists>m pc. slot_run (\<lambda>_. RelayOwner) (take 1 relay_turn) (start_state info b) = Some (m, pc) \<and>
     am_source_connected m \<and> \<not> non_live_present m"
  "\<exists>m pc. slot_run (\<lambda>_. RelayOwner) (take 2 relay_turn) (start_state info b) = Some (m, pc) \<and>
     non_live_present m \<and> am_source_cancel m = None"
  by (simp_all add: relay_turn_def slot_run_simps non_live_present_def)

end
