(* ===== verification/App_State.thy ===== *)
theory App_State
  imports Slot_Protocol
begin

text \<open>
  The state the stream side of the server shares (\<open>state.rs\<close>): the store and registry of mounts,
  the listener map, credentials and configuration. Tokens and mounts are allocated from counters;
  \<open>ap_cancelled\<close> are the cancelled tokens. The ingest and output strategies of the code have no
  state and are the definitions of their theories; the shutdown token is modelled where a task
  looks at it.
\<close>

record app_state =
  ap_store :: mount_store
  ap_next_addr :: mount_addr
  ap_mounts :: registry
  ap_auth :: toml_bcrypt_auth
  ap_listeners :: listener_map
  ap_config :: config
  ap_cancelled :: "token set"
  ap_next_token :: token

definition pkg_version :: string where
  "pkg_version = ''1.0.5''"

definition session_ttl_ns :: nat where
  "session_ttl_ns = 24 * 3600 * 1000000000"

text \<open>\<open>AppState::admin_state\<close>; the port is that of the configured address, whose text is opaque.\<close>

definition app_admin_state :: "(socket_addr \<Rightarrow> nat) \<Rightarrow> nat \<Rightarrow> app_state \<Rightarrow> admin_state" where
  "app_admin_state port_of now st =
     \<lparr>as_store = ap_store st, as_mounts = ap_mounts st, as_listeners = ap_listeners st, as_start_time = now,
      as_auth = ap_auth st, as_sessions = session_store_new session_ttl_ns, as_version = pkg_version,
      as_stream_port = port_of (sv_stream_bind (cf_server (ap_config st))), as_config = ap_config st,
      as_cancelled = ap_cancelled st\<rparr>"

definition app_mount :: "app_state \<Rightarrow> mount_addr \<Rightarrow> active_mount" where
  "app_mount st a = ap_store st a"

definition put_mount :: "mount_addr \<Rightarrow> active_mount \<Rightarrow> app_state \<Rightarrow> app_state" where
  "put_mount a m st = st\<lparr>ap_store := (ap_store st)(a := m)\<rparr>"

definition find_app_mount :: "app_state \<Rightarrow> string \<Rightarrow> mount_addr option" where
  "find_app_mount st path = registry_get (ap_mounts st) path"

text \<open>\<open>Arc::new(ActiveMount::new(..))\<close> and \<open>MountRegistry::add\<close>.\<close>

definition add_mount :: "mount_info \<Rightarrow> bus \<Rightarrow> app_state \<Rightarrow> mount_addr \<times> app_state" where
  "add_mount info b st =
     (let a = ap_next_addr st in
      (a, st\<lparr>ap_store := (ap_store st)(a := active_mount_new info b), ap_next_addr := Suc a,
             ap_mounts := registry_put (ap_mounts st) (mi_path info) a\<rparr>))"

definition remove_mount :: "string \<Rightarrow> app_state \<Rightarrow> app_state" where
  "remove_mount path st = st\<lparr>ap_mounts := registry_remove (ap_mounts st) path\<rparr>"

definition cancel_token :: "token \<Rightarrow> app_state \<Rightarrow> app_state" where
  "cancel_token t st = st\<lparr>ap_cancelled := insert t (ap_cancelled st)\<rparr>"

definition fresh_token :: "app_state \<Rightarrow> token \<times> app_state" where
  "fresh_token st = (ap_next_token st, st\<lparr>ap_next_token := Suc (ap_next_token st)\<rparr>)"

section \<open>Invariant\<close>

text \<open>
  Every registered mount is allocated, lies under its own path, and no mount is registered twice.
\<close>

definition app_inv :: "app_state \<Rightarrow> bool" where
  "app_inv st \<longleftrightarrow>
     registry_consistent (ap_store st) (ap_mounts st) \<and>
     (\<forall>path a. ap_mounts st path = Some a \<longrightarrow> a < ap_next_addr st)"

lemma put_mount_sel [simp]:
  "ap_mounts (put_mount a m st) = ap_mounts st" "ap_config (put_mount a m st) = ap_config st"
  "ap_auth (put_mount a m st) = ap_auth st" "ap_listeners (put_mount a m st) = ap_listeners st"
  "ap_cancelled (put_mount a m st) = ap_cancelled st" "ap_next_addr (put_mount a m st) = ap_next_addr st"
  "ap_next_token (put_mount a m st) = ap_next_token st"
  "app_mount (put_mount a m st) b = (if b = a then m else app_mount st b)"
  "find_app_mount (put_mount a m st) path = find_app_mount st path"
  by (simp_all add: put_mount_def app_mount_def find_app_mount_def)

lemma remove_mount_sel [simp]:
  "ap_store (remove_mount p st) = ap_store st" "ap_config (remove_mount p st) = ap_config st"
  "ap_auth (remove_mount p st) = ap_auth st" "ap_listeners (remove_mount p st) = ap_listeners st"
  "ap_cancelled (remove_mount p st) = ap_cancelled st" "app_mount (remove_mount p st) a = app_mount st a"
  "find_app_mount (remove_mount p st) q = (if q = p then None else find_app_mount st q)"
  "ap_next_addr (remove_mount p st) = ap_next_addr st"
  by (simp_all add: remove_mount_def app_mount_def find_app_mount_def mount_registry.lookup_remove)

lemma find_add_mount [simp]:
  "find_app_mount (snd (add_mount info b st)) q =
     (if q = mi_path info then Some (ap_next_addr st) else find_app_mount st q)"
  by (simp add: add_mount_def Let_def find_app_mount_def mount_registry.lookup_insert)

lemma app_mount_add [simp]:
  "app_mount (snd (add_mount info b st)) a = (if a = ap_next_addr st then active_mount_new info b else app_mount st a)"
  by (simp add: add_mount_def Let_def app_mount_def)

lemma add_mount_sel [simp]:
  "fst (add_mount info b st) = ap_next_addr st"
  "ap_config (snd (add_mount info b st)) = ap_config st" "ap_auth (snd (add_mount info b st)) = ap_auth st"
  "ap_cancelled (snd (add_mount info b st)) = ap_cancelled st"
  "ap_listeners (snd (add_mount info b st)) = ap_listeners st"
  "ap_next_addr (snd (add_mount info b st)) = Suc (ap_next_addr st)"
  by (simp_all add: add_mount_def Let_def)

lemma app_inv_put [inv_intros]:
  "app_inv st \<Longrightarrow> mi_path (am_info m) = mi_path (am_info (app_mount st a)) \<Longrightarrow> app_inv (put_mount a m st)"
  by (simp add: app_inv_def put_mount_def app_mount_def registry_consistent_update)

lemma app_inv_remove [inv_intros]: "app_inv st \<Longrightarrow> app_inv (remove_mount p st)"
  by (auto simp: app_inv_def remove_mount_def registry_remove_def registry_consistent_def)

lemma app_inv_add [inv_intros]: "app_inv st \<Longrightarrow> app_inv (snd (add_mount info b st))"
  by (fastforce simp: app_inv_def add_mount_def Let_def registry_consistent_def registry_put_def
      active_mount_new_def)

lemma app_inv_distinct:
  assumes "app_inv st" and "find_app_mount st p = Some a" and "find_app_mount st q = Some a"
  shows "p = q"
  using assms unfolding app_inv_def registry_consistent_def find_app_mount_def registry_get_def by metis

section \<open>A concrete state\<close>

definition sample_cfg :: "transcode_config option \<Rightarrow> config" where
  "sample_cfg tc =
     \<lparr>cf_server = \<lparr>sv_stream_bind = ''0.0.0.0:8000'', sv_admin_bind = ''127.0.0.1:8001'', sv_hostname = ''radio''\<rparr>,
      cf_logging = \<lparr>lg_level = ''info'', lg_format = LogPretty\<rparr>,
      cf_auth = \<lparr>au_users = [], au_source_password = Some ''hackme''\<rparr>,
      cf_limits = \<lparr>lm_max_listeners_global = 10, lm_ring_size = 16, lm_slow_listener_grace_s = 5,
                   lm_source_max_kbps = None, lm_burst_size = 65536\<rparr>,
      cf_mounts = [], cf_autodjs = [], cf_relays = [], cf_tls = None, cf_transcode = tc\<rparr>"

definition sample_app :: "transcode_config option \<Rightarrow> app_state" where
  "sample_app tc =
     \<lparr>ap_store = (\<lambda>_. active_mount_new \<lparr>mi_path = ''/dj'', mi_codec = MP3, mi_source_password = [],
         mi_max_listeners = None, mi_metadata = default_metadata\<rparr> (bus_new 16 100)),
      ap_next_addr = 1, ap_mounts = registry_put registry_new ''/dj'' 0, ap_auth = auth_new (sample_cfg tc),
      ap_listeners = listener_map_new, ap_config = sample_cfg tc, ap_cancelled = {}, ap_next_token = 5\<rparr>"

lemma sample_find: "find_app_mount (sample_app tc) p = (if p = ''/dj'' then Some 0 else None)"
  by (simp add: sample_app_def find_app_mount_def mount_registry.lookup_insert) (simp add: registry_new_def registry_get_def)

lemma sample_mount:
  "am_source_connected (app_mount (sample_app tc) a) = False"
  by (simp add: sample_app_def app_mount_def active_mount_new_def)

end
