(* ===== verification/Async_Io.thy ===== *)
theory Async_Io
  imports Core_Types
begin

text \<open>
  The reading side of the sockets. \<open>tokio::io::AsyncRead\<close> is an interface: one poll is given room
  for some bytes and answers pending, an error, or at most that many bytes, none of them meaning
  the end of the stream. The socket itself is a script of what the peer and the network do; the
  two adaptors of \<open>source_protocol.rs\<close> (\<open>ChainReader\<close>, \<open>CountingReader\<close>) are generic in the
  reader they wrap, as in the code. The locales state the contract and what a client that reads
  in a loop obtains from it; the adaptors are shown to keep it.
\<close>

section \<open>Polls and the scripted socket\<close>

datatype io_kind =
  UnexpectedEof | InvalidDataKind | TimedOut | BrokenPipe | ConnectionReset | ConnectionAborted | OtherIo

datatype io_err = IoErr io_kind string

datatype poll_result = RdPending | RdErr io_err | RdOk "byte list"

datatype net_event = NetData "byte list" | NetPending | NetErr io_err

type_synonym net_reader = "net_event list"

fun net_poll :: "nat \<Rightarrow> net_reader \<Rightarrow> poll_result \<times> net_reader" where
  "net_poll room [] = (RdOk [], [])"
| "net_poll room (NetPending # es) = (RdPending, es)"
| "net_poll room (NetErr e # es) = (RdErr e, es)"
| "net_poll room (NetData bs # es) =
     (if length bs \<le> room then (RdOk bs, es) else (RdOk (take room bs), NetData (drop room bs) # es))"

fun net_bytes :: "net_reader \<Rightarrow> byte list" where
  "net_bytes [] = []"
| "net_bytes (NetData bs # es) = bs @ net_bytes es"
| "net_bytes (_ # es) = net_bytes es"

text \<open>A connection on which nothing goes wrong: only data, no empty segment.\<close>

definition plain_net :: "net_reader \<Rightarrow> bool" where
  "plain_net es \<longleftrightarrow> (\<forall>e\<in>set es. \<exists>bs. e = NetData bs \<and> bs \<noteq> [])"

lemma plain_net_simps [simp]:
  "plain_net []"
  "plain_net (NetData bs # es) \<longleftrightarrow> bs \<noteq> [] \<and> plain_net es"
  "\<not> plain_net (NetPending # es)"
  "\<not> plain_net (NetErr e # es)"
  by (auto simp: plain_net_def)

lemma plain_net_poll:
  assumes "plain_net es" and "0 < room"
  obtains bs es' where "net_poll room es = (RdOk bs, es')" "net_bytes es = bs @ net_bytes es'"
    "plain_net es'" "length bs \<le> room" "bs = [] \<longleftrightarrow> net_bytes es = []"
proof (cases es)
  case Nil
  with that show thesis by simp
next
  case (Cons e es1)
  with assms obtain bs where e: "e = NetData bs" "bs \<noteq> []" "plain_net es1"
    by (auto simp: plain_net_def)
  show thesis
  proof (cases "length bs \<le> room")
    case True
    with e Cons show thesis by (intro that [of bs es1]) auto
  next
    case False
    with e Cons assms(2) show thesis
      by (intro that [of "take room bs" "NetData (drop room bs) # es1"]) auto
  qed
qed

lemma plain_net_poll_1:
  assumes "plain_net es" and "net_bytes es = b # rest"
  obtains es' where "net_poll 1 es = (RdOk [b], es')" "net_bytes es' = rest" "plain_net es'"
proof -
  obtain bs es' where p: "net_poll 1 es = (RdOk bs, es')" "net_bytes es = bs @ net_bytes es'"
    "plain_net es'" "length bs \<le> 1" "bs = [] \<longleftrightarrow> net_bytes es = []"
    using plain_net_poll [OF assms(1), of 1] by auto
  with assms(2) have "bs = [b]" by (cases bs) auto
  with p assms(2) show thesis by (intro that) auto
qed

section \<open>Adaptors\<close>

text \<open>\<open>ChainReader\<close>: bytes read past the request head are replayed before the socket is read.\<close>

record 'r chain_reader =
  ch_buffer :: "byte list"
  ch_pos :: nat
  ch_inner :: 'r

definition chain_new :: "byte list \<Rightarrow> 'r \<Rightarrow> 'r chain_reader" where
  "chain_new buffer inner = \<lparr>ch_buffer = buffer, ch_pos = 0, ch_inner = inner\<rparr>"

definition chain_poll ::
  "(nat \<Rightarrow> 'r \<Rightarrow> poll_result \<times> 'r) \<Rightarrow> nat \<Rightarrow> 'r chain_reader \<Rightarrow> poll_result \<times> 'r chain_reader" where
  "chain_poll poll room c =
     (if ch_pos c < length (ch_buffer c) then
        (let remaining = drop (ch_pos c) (ch_buffer c);
             n = min (length remaining) room
         in (RdOk (take n remaining), c\<lparr>ch_pos := ch_pos c + n\<rparr>))
      else (case poll room (ch_inner c) of (r, inner') \<Rightarrow> (r, c\<lparr>ch_inner := inner'\<rparr>)))"

text \<open>\<open>CountingReader\<close>: every successful read adds its length to \<open>bytes_received\<close>, modulo 2^64.\<close>

record 'r counting_reader =
  cr_inner :: 'r
  cr_bytes_received :: "64 word"

definition counting_poll ::
  "(nat \<Rightarrow> 'r \<Rightarrow> poll_result \<times> 'r) \<Rightarrow> nat \<Rightarrow> 'r counting_reader \<Rightarrow> poll_result \<times> 'r counting_reader" where
  "counting_poll poll room c =
     (case poll room (cr_inner c) of
        (RdOk bs, inner') \<Rightarrow>
          (RdOk bs, c\<lparr>cr_inner := inner',
                      cr_bytes_received :=
                        (if 0 < length bs then cr_bytes_received c + of_nat (length bs) else cr_bytes_received c)\<rparr>)
      | (r, inner') \<Rightarrow> (r, c\<lparr>cr_inner := inner'\<rparr>))"

section \<open>The contract of a reader\<close>

locale sized_reader =
  fixes poll :: "nat \<Rightarrow> 'r \<Rightarrow> poll_result \<times> 'r"
  assumes poll_len: "poll room r = (RdOk bs, r') \<Longrightarrow> length bs \<le> room"
begin

text \<open>A sequence of polls with the given rooms; the bytes of the successful ones, in order.\<close>

primrec polls :: "nat list \<Rightarrow> 'r \<Rightarrow> byte list \<times> 'r" where
  "polls [] r = ([], r)"
| "polls (k # ks) r =
     (case poll k r of (x, r') \<Rightarrow>
        (case polls ks r' of (out, r'') \<Rightarrow> ((case x of RdOk bs \<Rightarrow> bs | _ \<Rightarrow> []) @ out, r'')))"

lemma polls_length: "length (fst (polls ks r)) \<le> sum_list ks"
proof (induction ks arbitrary: r)
  case Nil
  then show ?case by simp
next
  case (Cons k ks)
  obtain x r' where p: "poll k r = (x, r')" by (cases "poll k r")
  obtain out r'' where q: "polls ks r' = (out, r'')" by (cases "polls ks r'")
  have "length out \<le> sum_list ks" using Cons [of r'] q by simp
  moreover have "length (case x of RdOk bs \<Rightarrow> bs | _ \<Rightarrow> []) \<le> k"
    using poll_len p by (cases x) auto
  ultimately show ?case using p q by simp
qed

end

locale faithful_reader = sized_reader poll for poll :: "nat \<Rightarrow> 'r \<Rightarrow> poll_result \<times> 'r" +
  fixes unread :: "'r \<Rightarrow> byte list"
  assumes poll_ok: "poll room r = (RdOk bs, r') \<Longrightarrow> unread r = bs @ unread r'"
    and poll_pending: "poll room r = (RdPending, r') \<Longrightarrow> unread r' = unread r"
    and poll_err: "poll room r = (RdErr e, r') \<Longrightarrow> unread r' = unread r"
begin

text \<open>Whatever rooms a client polls with, it receives a prefix of what was there, and loses nothing.\<close>

lemma polls_prefix: "polls ks r = (out, r') \<Longrightarrow> unread r = out @ unread r'"
proof (induction ks arbitrary: r out)
  case Nil
  then show ?case by simp
next
  case (Cons k ks)
  obtain x r1 where p: "poll k r = (x, r1)" by (cases "poll k r")
  obtain out1 where q: "polls ks r1 = (out1, r')" and
    out: "out = (case x of RdOk bs \<Rightarrow> bs | _ \<Rightarrow> []) @ out1"
    using Cons.prems p by (auto split: prod.splits)
  have "unread r1 = out1 @ unread r'" using Cons.IH q by simp
  then show ?case
    using p out poll_ok poll_pending poll_err by (cases x) auto
qed

end

interpretation net: faithful_reader net_poll net_bytes
proof unfold_locales
  show "net_poll k r = (RdOk bs, r') \<Longrightarrow> length bs \<le> k" for k r bs r'
    by (cases "(k, r)" rule: net_poll.cases) (auto split: if_splits)
  show "net_poll k r = (RdOk bs, r') \<Longrightarrow> net_bytes r = bs @ net_bytes r'" for k r bs r'
    by (cases "(k, r)" rule: net_poll.cases) (auto split: if_splits)
  show "net_poll k r = (RdPending, r') \<Longrightarrow> net_bytes r' = net_bytes r" for k r r'
    by (cases "(k, r)" rule: net_poll.cases) (auto split: if_splits)
  show "net_poll k r = (RdErr e, r') \<Longrightarrow> net_bytes r' = net_bytes r" for k r e r'
    by (cases "(k, r)" rule: net_poll.cases) (auto split: if_splits)
qed

text \<open>The two adaptors keep the contract of any reader they wrap.\<close>

context faithful_reader
begin

definition chain_unread :: "'r chain_reader \<Rightarrow> byte list" where
  "chain_unread c = drop (ch_pos c) (ch_buffer c) @ unread (ch_inner c)"

lemma chain_poll_ok:
  "chain_poll poll room c = (RdOk bs, c') \<Longrightarrow>
     length bs \<le> room \<and> chain_unread c = bs @ chain_unread c'"
  by (auto simp: chain_poll_def chain_unread_def Let_def min_def take_add_drop add.commute
      simp flip: drop_drop split: if_splits prod.splits dest: poll_len poll_ok)

lemma chain_poll_not_ok:
  "chain_poll poll room c = (x, c') \<Longrightarrow> (\<nexists>bs. x = RdOk bs) \<Longrightarrow> chain_unread c' = chain_unread c"
  by (cases x)
    (auto simp: chain_poll_def chain_unread_def Let_def split: if_splits prod.splits
      dest: poll_pending poll_err)

definition counting_unread :: "'r counting_reader \<Rightarrow> byte list" where
  "counting_unread c = unread (cr_inner c)"

lemma counting_poll_ok:
  "counting_poll poll room c = (RdOk bs, c') \<Longrightarrow>
     length bs \<le> room \<and> counting_unread c = bs @ counting_unread c' \<and>
     cr_bytes_received c' = cr_bytes_received c + of_nat (length bs)"
  by (auto simp: counting_poll_def counting_unread_def split: if_splits prod.splits poll_result.splits
      dest: poll_len poll_ok)

lemma counting_poll_not_ok:
  "counting_poll poll room c = (x, c') \<Longrightarrow> (\<nexists>bs. x = RdOk bs) \<Longrightarrow>
     counting_unread c' = counting_unread c \<and> cr_bytes_received c' = cr_bytes_received c"
  by (auto simp: counting_poll_def counting_unread_def split: prod.splits poll_result.splits
      dest: poll_pending poll_err)

end

text \<open>The stack the source handler builds: leftover bytes, then the socket, counted.\<close>

interpretation chained: faithful_reader "chain_poll net_poll" net.chain_unread
  by unfold_locales (auto dest: net.chain_poll_ok net.chain_poll_not_ok)

interpretation counted: faithful_reader "counting_poll (chain_poll net_poll)" chained.counting_unread
  by unfold_locales (auto dest: chained.counting_poll_ok chained.counting_poll_not_ok)

lemma counted_polls_count:
  "counted.polls ks c = (out, c') \<Longrightarrow>
     cr_bytes_received c' = cr_bytes_received c + of_nat (length out)"
proof (induction ks arbitrary: c out)
  case Nil
  then show ?case by simp
next
  case (Cons k ks)
  obtain x c1 where p: "counting_poll (chain_poll net_poll) k c = (x, c1)"
    by (cases "counting_poll (chain_poll net_poll) k c")
  obtain out1 where q: "counted.polls ks c1 = (out1, c')" and
    out: "out = (case x of RdOk bs \<Rightarrow> bs | _ \<Rightarrow> []) @ out1"
    using Cons.prems p by (auto split: prod.splits)
  have "cr_bytes_received c' = cr_bytes_received c1 + of_nat (length out1)"
    using Cons.IH q by simp
  then show ?case
    using p out chained.counting_poll_ok [of k c] chained.counting_poll_not_ok [of k c]
    by (cases x) auto
qed

text \<open>
  The body reader of a source connection replays the bytes that arrived with the
  request head and continues with the socket: for any sequence of reads, what has been delivered
  followed by what is still unread is the leftover followed by the socket's bytes, and the
  inbound byte counter has advanced by exactly the bytes delivered.
\<close>

theorem body_reader_faithful:
  assumes "counted.polls ks \<lparr>cr_inner = chain_new leftover es, cr_bytes_received = n\<rparr> = (out, c')"
  shows "leftover @ net_bytes es = out @ chained.counting_unread c' \<and>
    cr_bytes_received c' = n + of_nat (length out)"
  using counted.polls_prefix [OF assms] counted_polls_count [OF assms]
  by (simp add: chained.counting_unread_def net.chain_unread_def chain_new_def)

theorem body_reader_faithful_witness:
  "\<exists>c'. counted.polls [2, 4] \<lparr>cr_inner = chain_new [1, 2, 3] [NetPending, NetData [4, 5]], cr_bytes_received = 0\<rparr> =
     ([1, 2, 3], c') \<and> cr_bytes_received c' = 3"
proof -
  obtain c' where c: "counted.polls [2, 4] \<lparr>cr_inner = chain_new [1, 2, 3] [NetPending, NetData [4, 5]],
      cr_bytes_received = 0\<rparr> = ([1, 2, 3], c')"
    by (simp add: counting_poll_def chain_poll_def chain_new_def Let_def)
  with body_reader_faithful [OF c] show ?thesis by auto
qed

end
