(* ===== verification/Source_Head.thy ===== *)
theory Source_Head
  imports Mount_Model Http_Types Async_Io
begin

text \<open>
  The head of a source request: dispatching a connection (\<open>stream_listener.rs\<close>,
  \<open>source_layer.rs\<close>), reading and parsing the head, the credentials and the codec, the status
  lines (\<open>source_protocol.rs\<close>), and the station headers (\<open>source_headers.rs\<close>). The parser
  \<open>httparse\<close>, the validity checks of the \<open>http\<close> crate and base64 are arguments.
\<close>

section \<open>stream_listener.rs and source_layer.rs\<close>

datatype classification = ClassSource | ClassOther

text \<open>\<open>peeked\<close> is what one \<open>peek\<close> of eight bytes returns, or \<open>None\<close> on an error or timeout.\<close>

definition classify :: "byte list option \<Rightarrow> classification" where
  "classify peeked =
     (case peeked of
        None \<Rightarrow> ClassOther
      | Some buf \<Rightarrow>
          if 4 \<le> length buf \<and> take 4 buf = bytes_of ''PUT '' \<or>
             7 \<le> length buf \<and> take 7 buf = bytes_of ''SOURCE '' then ClassSource
          else ClassOther)"

definition rewrite_method :: "string \<Rightarrow> string" where
  "rewrite_method m = (if m = ''SOURCE'' then ''PUT'' else m)"

section \<open>source_headers.rs\<close>

definition header_or :: "headers \<Rightarrow> string \<Rightarrow> string \<Rightarrow> string option" where
  "header_or hs primary fallback = Option.bind (or_else (hs primary) (hs fallback)) to_str"

definition read_string :: "headers \<Rightarrow> string \<Rightarrow> string \<Rightarrow> string option" where
  "read_string hs primary fallback =
     Option.bind (header_or hs primary fallback)
       (\<lambda>raw. let trimmed = trim raw in if trimmed = [] then None else Some trimmed)"

definition read_public :: "headers \<Rightarrow> bool option" where
  "read_public hs =
     Option.bind (header_or hs ''ice-public'' ''icy-pub'')
       (\<lambda>raw. let s = trim raw in
          if s = ''1'' then Some True else if s = ''0'' then Some False else None)"

definition read_bitrate :: "headers \<Rightarrow> nat option" where
  "read_bitrate hs =
     Option.bind (header_or hs ''ice-bitrate'' ''icy-br'') (\<lambda>raw. parse_uint 32 (trim raw))"

definition parse_source_overlay :: "headers \<Rightarrow> source_overlay" where
  "parse_source_overlay hs =
     \<lparr>so_name = read_string hs ''ice-name'' ''icy-name'',
      so_description = read_string hs ''ice-description'' ''icy-description'',
      so_genre = read_string hs ''ice-genre'' ''icy-genre'',
      so_url = read_string hs ''ice-url'' ''icy-url'',
      so_public = read_public hs,
      so_audio_info = read_string hs ''ice-audio-info'' ''icy-audioinfo'',
      so_bitrate_kbps = read_bitrate hs\<rparr>"

section \<open>source_protocol.rs: header helpers\<close>

definition extract_source_password :: "(string \<Rightarrow> byte list option) \<Rightarrow> headers \<Rightarrow> string" where
  "extract_source_password base64_decode hs =
     unwrap_or
       (map_option
          (\<lambda>decoded. case split_once (CHR '':'') decoded of Some (_, pw) \<Rightarrow> pw | None \<Rightarrow> decoded)
          (Option.bind (Option.bind (Option.bind (header_str hs ''authorization'')
             (strip_prefix ''Basic '')) base64_decode) str_from_utf8))
       []"

definition detect_codec_from_content_type :: "headers \<Rightarrow> codec_id" where
  "detect_codec_from_content_type hs =
     (case header_str hs ''content-type'' of
        Some ct \<Rightarrow>
          if contains_sub ct ''mpeg'' then MP3
          else if contains_sub ct ''ogg'' \<or> contains_sub ct ''vorbis'' then VORBIS
          else if contains_sub ct ''aac'' then AAC
          else MP3
      | None \<Rightarrow> MP3)"

definition content_length_of :: "headers \<Rightarrow> nat option" where
  "content_length_of hs = Option.bind (header_str hs ''content-length'') (parse_uint 64)"

definition expects_continue :: "headers \<Rightarrow> bool" where
  "expects_continue hs \<longleftrightarrow>
     (case header_str hs ''expect'' of None \<Rightarrow> False | Some v \<Rightarrow> eq_ignore_ascii_case (trim v) ''100-continue'')"

definition is_chunked :: "headers \<Rightarrow> bool" where
  "is_chunked hs \<longleftrightarrow>
     (case header_str hs ''transfer-encoding'' of
        None \<Rightarrow> False | Some v \<Rightarrow> contains_sub (to_ascii_lowercase v) ''chunked'')"

definition is_classic_icecast :: "headers \<Rightarrow> bool" where
  "is_classic_icecast hs \<longleftrightarrow> \<not> expects_continue hs \<and> content_length_of hs = None \<and> \<not> is_chunked hs"

definition crlf :: string where
  "crlf = [CHR 0x0D, CHR 0x0A]"

definition upfront_response :: "headers \<Rightarrow> string" where
  "upfront_response hs =
     (if expects_continue hs then ''HTTP/1.1 100 Continue'' @ crlf @ crlf
      else if is_classic_icecast hs then ''HTTP/1.0 200 OK'' @ crlf @ crlf
      else [])"

text \<open>How the body is framed: chunked supersedes a length, and without either it ends with the stream.\<close>

datatype body_framing = BodyChunked | BodyTake nat | BodyToEnd

definition body_framing_of :: "headers \<Rightarrow> body_framing" where
  "body_framing_of hs =
     (if is_chunked hs then BodyChunked
      else (case content_length_of hs of Some len \<Rightarrow> BodyTake len | None \<Rightarrow> BodyToEnd))"

section \<open>source_protocol.rs: response writers\<close>

definition write_status :: "nat \<Rightarrow> string \<Rightarrow> string" where
  "write_status code reason =
     ''HTTP/1.1 '' @ show_nat code @ '' '' @ reason @ crlf @ ''Content-Length: 0'' @ crlf @
     ''Connection: close'' @ crlf @ crlf"

definition write_status_retry_after :: "nat \<Rightarrow> string \<Rightarrow> nat \<Rightarrow> string" where
  "write_status_retry_after code reason retry_after_s =
     ''HTTP/1.1 '' @ show_nat code @ '' '' @ reason @ crlf @ ''Content-Length: 0'' @ crlf @
     ''Retry-After: '' @ show_nat retry_after_s @ crlf @ ''Connection: close'' @ crlf @ crlf"

definition write_status_with_auth_challenge :: string where
  "write_status_with_auth_challenge =
     ''HTTP/1.1 401 Unauthorized'' @ crlf @ ''WWW-Authenticate: Basic realm='' @ [CHR 0x22] @ ''Icecast'' @
     [CHR 0x22] @ crlf @ ''Content-Length: 0'' @ crlf @ ''Connection: close'' @ crlf @ crlf"

section \<open>source_protocol.rs: reading the head\<close>

record parsed_head =
  ph_path :: string
  ph_headers :: headers
  ph_leftover :: "byte list"

text \<open>What \<open>httparse\<close> says of the bytes so far.\<close>

datatype parse_status =
  ParseComplete nat "string option" "(string \<times> byte list) list" | ParsePartial | ParseBad string

definition max_header_bytes :: nat where
  "max_header_bytes = 16 * 1024"

text \<open>\<open>HeaderMap::append\<close> as \<open>get\<close> sees it: the first value of a name stays.\<close>

definition append_header :: "headers \<Rightarrow> string \<Rightarrow> header_value \<Rightarrow> headers" where
  "append_header hm name v = (case hm name of None \<Rightarrow> hm(name \<mapsto> v) | Some _ \<Rightarrow> hm)"

fun collect_headers ::
  "(string \<Rightarrow> string option) \<Rightarrow> (byte list \<Rightarrow> header_value option) \<Rightarrow> (string \<times> byte list) list \<Rightarrow> headers \<Rightarrow> headers"
where
  "collect_headers name_of value_of [] hm = hm"
| "collect_headers name_of value_of ((n, v) # hs) hm =
     (case (name_of n, value_of v) of
        (Some name, Some value') \<Rightarrow> collect_headers name_of value_of hs (append_header hm name value')
      | _ \<Rightarrow> collect_headers name_of value_of hs hm)"

text \<open>
  What the reads before the deadline return. A script that has run out is a client that sends
  nothing more until the deadline.
\<close>

datatype head_event = HeadData "byte list" | HeadFail io_err | HeadDeadline

fun read_head_loop ::
  "(byte list \<Rightarrow> parse_status) \<Rightarrow> (string \<Rightarrow> string option) \<Rightarrow> (byte list \<Rightarrow> header_value option) \<Rightarrow>
   byte list \<Rightarrow> head_event list \<Rightarrow> (io_err + parsed_head) \<times> head_event list"
where
  "read_head_loop parse name_of value_of buf [] = (Inl (IoErr TimedOut ''header read timed out''), [])"
| "read_head_loop parse name_of value_of buf (HeadDeadline # es) =
     (Inl (IoErr TimedOut ''header read timed out''), es)"
| "read_head_loop parse name_of value_of buf (HeadFail e # es) = (Inl e, es)"
| "read_head_loop parse name_of value_of buf (HeadData bs # es) =
     (if bs = [] then (Inl (IoErr UnexpectedEof ''client closed before completing request headers''), es)
      else (let buf' = buf @ bs in
        if max_header_bytes < length buf' then (Inl (IoErr InvalidDataKind ''headers too large''), es)
        else (case parse buf' of
                ParseComplete consumed path hs \<Rightarrow>
                  (case path of
                     None \<Rightarrow> (Inl (IoErr InvalidDataKind ''missing path''), es)
                   | Some p \<Rightarrow>
                       (Inr \<lparr>ph_path = p, ph_headers = collect_headers name_of value_of hs Map.empty,
                             ph_leftover = drop consumed buf'\<rparr>, es))
              | ParsePartial \<Rightarrow> read_head_loop parse name_of value_of buf' es
              | ParseBad e \<Rightarrow> (Inl (IoErr InvalidDataKind (''bad request: '' @ e)), es))))"

definition read_request_head where
  "read_request_head parse name_of value_of es = read_head_loop parse name_of value_of [] es"

section \<open>Segmentation\<close>

text \<open>
  The documented behaviour of an incremental parser: the head ends after its first \<open>n\<close> bytes, what
  it is does not depend on what follows, and every shorter prefix is partial.
\<close>

definition parses_head :: "(byte list \<Rightarrow> parse_status) \<Rightarrow> byte list \<Rightarrow> string \<Rightarrow> (string \<times> byte list) list \<Rightarrow> bool" where
  "parses_head parse head path hs \<longleftrightarrow>
     (\<forall>rest. parse (head @ rest) = ParseComplete (length head) (Some path) hs) \<and>
     (\<forall>k<length head. parse (take k head) = ParsePartial)"

lemma read_head_loop_segments:
  assumes "parses_head parse head path hs"
    and "buf @ concat segs = head @ rest" and "length buf < length head"
    and "\<forall>s\<in>set segs. s \<noteq> [] \<and> length s \<le> 1024" and "length head + 1024 \<le> max_header_bytes"
  shows "\<exists>segs' leftover.
    read_head_loop parse name_of value_of buf (map HeadData segs) =
      (Inr \<lparr>ph_path = path, ph_headers = collect_headers name_of value_of hs Map.empty, ph_leftover = leftover\<rparr>,
       map HeadData segs') \<and> leftover @ concat segs' = rest"
  using assms(2-4)
proof (induction segs arbitrary: buf)
  case Nil
  then have "length buf = length head + length rest" by (metis append_Nil2 concat.simps(1) length_append)
  with Nil show ?case by simp
next
  case (Cons s segs)
  let ?buf = "buf @ s"
  have s: "s \<noteq> []" "length s \<le> 1024" using Cons.prems(3) by auto
  have small: "\<not> max_header_bytes < length ?buf" using Cons.prems(2) s(2) assms(5) by simp
  show ?case
  proof (cases "length ?buf < length head")
    case True
    have e: "?buf @ concat segs = head @ rest" using Cons.prems(1) by simp
    from arg_cong [OF e, of "take (length ?buf)"] True have "?buf = take (length ?buf) head" by simp
    then have "parse ?buf = ParsePartial"
      using assms(1) True by (metis parses_head_def)
    then have step: "read_head_loop parse name_of value_of buf (map HeadData (s # segs)) =
        read_head_loop parse name_of value_of ?buf (map HeadData segs)"
      using s small by simp
    show ?thesis
      unfolding step by (rule Cons.IH) (use Cons.prems True in auto)
  next
    case False
    then have le: "length head \<le> length ?buf" by simp
    have e: "?buf @ concat segs = head @ rest" using Cons.prems(1) by simp
    from arg_cong [OF e, of "take (length head)"] le have t: "take (length head) ?buf = head" by simp
    define left where "left = drop (length head) ?buf"
    have l: "?buf = head @ left"
      using append_take_drop_id [of "length head" ?buf] t by (simp only: left_def)
    then have "parse ?buf = ParseComplete (length head) (Some path) hs"
      using assms(1) by (simp add: parses_head_def)
    moreover have "left @ concat segs = rest"
      using e l by simp
    ultimately show ?thesis
      using s small l by (intro exI [of _ segs] exI [of _ left]) simp
  qed
qed

lemma chain_unread_new: "net.chain_unread (chain_new leftover (map NetData segs)) = leftover @ concat segs"
  by (induction segs arbitrary: leftover) (auto simp: net.chain_unread_def chain_new_def)

text \<open>
  Claim C22. However the network cuts a request into reads, a source whose head fits the limit is
  given the same parsed head, and the reader the body is then taken from, the bytes read too far
  chained before the socket, holds exactly the bytes sent after the head.
\<close>

theorem request_segmentation:
  assumes "parses_head parse head path hs" and "head \<noteq> []" and "length head + 1024 \<le> max_header_bytes"
    and "concat segs = head @ body" and "\<forall>s\<in>set segs. s \<noteq> [] \<and> length s \<le> 1024"
  shows "\<exists>segs' leftover.
    read_request_head parse name_of value_of (map HeadData segs) =
      (Inr \<lparr>ph_path = path, ph_headers = collect_headers name_of value_of hs Map.empty, ph_leftover = leftover\<rparr>,
       map HeadData segs') \<and>
    net.chain_unread (chain_new leftover (map NetData segs')) = body"
proof -
  obtain segs' leftover where "read_head_loop parse name_of value_of [] (map HeadData segs) =
      (Inr \<lparr>ph_path = path, ph_headers = collect_headers name_of value_of hs Map.empty, ph_leftover = leftover\<rparr>,
       map HeadData segs')" "leftover @ concat segs' = body"
    using read_head_loop_segments [OF assms(1), of "[]" segs body name_of value_of] assms by auto
  then show ?thesis by (auto simp: read_request_head_def chain_unread_new)
qed

definition sample_parse :: "byte list \<Rightarrow> parse_status" where
  "sample_parse bs =
     (if length bs < 4 then ParsePartial else ParseComplete 4 (Some ''/live'') [(''Expect'', bytes_of ''100-continue'')])"

theorem request_segmentation_witness:
  "\<exists>segs' leftover.
    read_request_head sample_parse (\<lambda>n. Some (to_ascii_lowercase n)) (\<lambda>v. map_option HvText (str_from_utf8 v))
      (map HeadData [[1, 2], [3, 4, 5], [6]]) =
      (Inr \<lparr>ph_path = ''/live'',
            ph_headers = collect_headers (\<lambda>n. Some (to_ascii_lowercase n)) (\<lambda>v. map_option HvText (str_from_utf8 v))
              [(''Expect'', bytes_of ''100-continue'')] Map.empty,
            ph_leftover = leftover\<rparr>, map HeadData segs') \<and>
    net.chain_unread (chain_new leftover (map NetData segs')) = [5, 6]"
  by (rule request_segmentation [of sample_parse "[1, 2, 3, 4]"])
    (auto simp: parses_head_def sample_parse_def max_header_bytes_def)

section \<open>Lemmas for the handlers\<close>

lemma framing_upfront:
  "body_framing_of hs = BodyToEnd \<Longrightarrow> upfront_response hs \<noteq> []"
  by (auto simp: body_framing_of_def upfront_response_def is_classic_icecast_def split: if_splits option.splits)

lemma head_never_too_large:
  "read_head_loop parse name_of value_of buf es = (Inr ph, es') \<Longrightarrow> length (ph_leftover ph) \<le> max_header_bytes"
  by (induction parse name_of value_of buf es rule: read_head_loop.induct)
    (auto simp: Let_def split: if_splits parse_status.splits option.splits)

end
