(* ===== verification/Stream_Decoder.thy ===== *)
theory Stream_Decoder
  imports Async_Io Mp3_Codec Vorbis_Codec
begin

text \<open>
  \<open>crates/rustyice-transcode/src/decoder.rs\<close>: the front end that feeds a network byte stream to
  the demuxer and decoder of the symphonia library. The library is not code of the repository:
  it is the record argument \<open>sy\<close>, whose operations read the shared pipe buffer. What is modelled
  is everything around it: the initial buffering, the staging of complete MP3 frames or Ogg pages,
  the warm-up, the drain loop and the end of the stream. The drain loop ends only when the library
  says so; a call that does not return is \<open>None\<close>.
\<close>

section \<open>The pipe\<close>

record pipe_buf =
  pb_data :: "byte list"
  pb_eof :: bool

definition pipe_read :: "nat \<Rightarrow> pipe_buf \<Rightarrow> (io_err + byte list) \<times> pipe_buf" where
  "pipe_read out_len p =
     (let n = min (length (pb_data p)) out_len
      in if n = 0 then
           (if pb_eof p then (Inr [], p) else (Inl (IoErr OtherIo ''would block''), p))
         else (Inr (take n (pb_data p)), p\<lparr>pb_data := drop n (pb_data p)\<rparr>))"

definition pipe_extend :: "byte list \<Rightarrow> pipe_buf \<Rightarrow> pipe_buf" where
  "pipe_extend bs p = p\<lparr>pb_data := pb_data p @ bs\<rparr>"

section \<open>The library, as parameters\<close>

datatype 'p sym_packet =
  SymPacket nat 'p | SymWouldBlock | SymIoError | SymResetRequired | SymDecodeError | SymOther

datatype sym_decoded = DecAudio "sample list" nat nat | DecIoError | DecDecodeError | DecOther

text \<open>
  \<open>sy_probe\<close> is the probe with the codec lookup: it may read the pipe, and yields the reader and
  decoder with the default track's identity, sample rate and channel count, or an error.
\<close>

record ('i, 'p) symphonia =
  sy_probe :: "string \<Rightarrow> pipe_buf \<Rightarrow> (string + 'i \<times> nat \<times> nat option \<times> nat option) \<times> pipe_buf"
  sy_next :: "'i \<Rightarrow> pipe_buf \<Rightarrow> 'p sym_packet \<times> 'i \<times> pipe_buf"
  sy_reset :: "'i \<Rightarrow> 'i"
  sy_decode :: "'p \<Rightarrow> 'i \<Rightarrow> sym_decoded \<times> 'i"

section \<open>State\<close>

definition init_threshold_mp3 :: nat where
  "init_threshold_mp3 = 8192"

definition init_threshold_vorbis :: nat where
  "init_threshold_vorbis = 65536"

definition init_threshold_for :: "codec_id \<Rightarrow> nat" where
  "init_threshold_for codec = (if codec = VORBIS then init_threshold_vorbis else init_threshold_mp3)"

definition mime_for :: "codec_id \<Rightarrow> string" where
  "mime_for codec = (if codec = VORBIS then ''audio/ogg'' else ''audio/mpeg'')"

record 'i decoder_inner =
  di_lib :: 'i
  di_track_id :: nat
  di_sample_rate :: nat
  di_channels :: nat

record 'i stream_decoder =
  sd_buf :: pipe_buf
  sd_source_codec :: codec_id
  sd_pending :: "byte list"
  sd_staging :: "byte list"
  sd_inner :: "'i decoder_inner option"

definition stream_decoder_new :: "codec_id \<Rightarrow> 'i stream_decoder" where
  "stream_decoder_new codec =
     \<lparr>sd_buf = \<lparr>pb_data = [], pb_eof = False\<rparr>, sd_source_codec = codec, sd_pending = [], sd_staging = [],
      sd_inner = None\<rparr>"

section \<open>Staging complete units\<close>

text \<open>
  The two scan loops have one shape: \<open>pos\<close> walks the staged bytes while a whole header fits;
  where a unit may start and its size is known, either it is complete and the walk jumps behind
  it, or the loop stops. \<open>last_end\<close> is where the last complete unit ends. Both size functions are
  at least the header they need, so the branch for a unit of size zero is never taken.
\<close>

function scan_units ::
  "nat \<Rightarrow> (byte list \<Rightarrow> bool) \<Rightarrow> (byte list \<Rightarrow> nat option) \<Rightarrow> byte list \<Rightarrow> nat \<Rightarrow> nat \<Rightarrow> nat" where
  "scan_units hdr starts usize data pos last_end =
     (if 0 < hdr \<and> pos + hdr \<le> length data then
        (if \<not> starts (drop pos data) then scan_units hdr starts usize data (pos + 1) last_end
         else (case usize (drop pos data) of
                 Some n \<Rightarrow>
                   if pos + n \<le> length data then
                     (if n = 0 then last_end else scan_units hdr starts usize data (pos + n) (pos + n))
                   else last_end
               | None \<Rightarrow> scan_units hdr starts usize data (pos + 1) last_end))
      else last_end)"
  by pat_completeness auto
termination
  by (relation "measure (\<lambda>(hdr, starts, size, data, pos, last_end). length data - pos)") auto

declare scan_units.simps [simp del]

definition ogg_magic_at :: "byte list \<Rightarrow> bool" where
  "ogg_magic_at d \<longleftrightarrow> take 4 d = ogg_magic"

definition move_staged :: "nat \<Rightarrow> 'i stream_decoder \<Rightarrow> 'i stream_decoder" where
  "move_staged last_end sd =
     (if 0 < last_end then
        sd\<lparr>sd_staging := drop last_end (sd_staging sd),
           sd_buf := pipe_extend (take last_end (sd_staging sd)) (sd_buf sd)\<rparr>
      else sd)"

definition mp3_units_end :: "byte list \<Rightarrow> nat" where
  "mp3_units_end data = scan_units 4 sync_word mp3_frame_size data 0 0"

definition ogg_units_end :: "byte list \<Rightarrow> nat" where
  "ogg_units_end data = scan_units 27 ogg_magic_at ogg_page_size data 0 0"

definition stage_complete_mp3_frames :: "'i stream_decoder \<Rightarrow> 'i stream_decoder" where
  "stage_complete_mp3_frames sd = move_staged (mp3_units_end (sd_staging sd)) sd"

definition stage_complete_ogg_pages :: "'i stream_decoder \<Rightarrow> 'i stream_decoder" where
  "stage_complete_ogg_pages sd = move_staged (ogg_units_end (sd_staging sd)) sd"

definition stage_complete_frames_to_pipe :: "'i stream_decoder \<Rightarrow> 'i stream_decoder" where
  "stage_complete_frames_to_pipe sd =
     (if sd_source_codec sd = VORBIS then stage_complete_ogg_pages sd else stage_complete_mp3_frames sd)"

section \<open>Draining packets, initialisation, push and end of stream\<close>

type_synonym pcm_out = "sample list \<times> nat \<times> nat"

partial_function (option) drain_loop ::
  "('i, 'p) symphonia \<Rightarrow> 'i decoder_inner \<Rightarrow> pipe_buf \<Rightarrow> pcm_out \<Rightarrow>
     (pcm_out \<times> 'i decoder_inner \<times> pipe_buf) option" where
  "drain_loop sy inner buf out =
     (case sy_next sy (di_lib inner) buf of
        (pkt, lib, buf') \<Rightarrow>
          (let inner' = inner\<lparr>di_lib := lib\<rparr> in
           case pkt of
             SymWouldBlock \<Rightarrow> Some (out, inner', buf')
           | SymIoError \<Rightarrow> Some (out, inner', buf')
           | SymResetRequired \<Rightarrow> drain_loop sy (inner\<lparr>di_lib := sy_reset sy lib\<rparr>) buf' out
           | SymDecodeError \<Rightarrow> drain_loop sy inner' buf' out
           | SymOther \<Rightarrow> Some (out, inner', buf')
           | SymPacket track p \<Rightarrow>
               if track \<noteq> di_track_id inner then drain_loop sy inner' buf' out
               else (case sy_decode sy p lib of
                       (d, lib') \<Rightarrow>
                         (case d of
                            DecAudio samples rate channels \<Rightarrow>
                              drain_loop sy
                                (inner\<lparr>di_lib := lib', di_sample_rate := rate, di_channels := channels mod 256\<rparr>)
                                buf' (fst out @ samples, rate, channels mod 256)
                          | DecIoError \<Rightarrow> Some (out, inner\<lparr>di_lib := lib'\<rparr>, buf')
                          | DecDecodeError \<Rightarrow> drain_loop sy (inner\<lparr>di_lib := lib'\<rparr>) buf' out
                          | DecOther \<Rightarrow> drain_loop sy (inner\<lparr>di_lib := lib'\<rparr>) buf' out))))"

text \<open>\<open>drain_packets\<close> unwraps \<open>inner\<close>; its callers have checked it.\<close>

definition drain_packets ::
  "('i, 'p) symphonia \<Rightarrow> 'i decoder_inner \<Rightarrow> 'i stream_decoder \<Rightarrow> (pcm_out \<times> 'i stream_decoder) option" where
  "drain_packets sy inner sd =
     (case drain_loop sy inner (sd_buf sd) ([], di_sample_rate inner, di_channels inner) of
        None \<Rightarrow> None
      | Some (out, inner', buf') \<Rightarrow> Some (out, sd\<lparr>sd_inner := Some inner', sd_buf := buf'\<rparr>))"

definition try_init ::
  "('i, 'p) symphonia \<Rightarrow> 'i stream_decoder \<Rightarrow> ((string + unit) \<times> 'i stream_decoder) option" where
  "try_init sy sd =
     (case sy_probe sy (mime_for (sd_source_codec sd)) (sd_buf sd) of
        (Inl e, buf') \<Rightarrow> Some (Inl e, sd\<lparr>sd_buf := buf'\<rparr>)
      | (Inr (lib, track_id, rate, channels), buf') \<Rightarrow>
          (let inner = \<lparr>di_lib = lib, di_track_id = track_id, di_sample_rate = unwrap_or rate 44100,
                        di_channels = (case channels of None \<Rightarrow> 2 | Some c \<Rightarrow> c mod 256)\<rparr>;
               sd1 = sd\<lparr>sd_buf := buf', sd_inner := Some inner\<rparr>
           in case drain_packets sy inner sd1 of
                None \<Rightarrow> None
              | Some (_, sd2) \<Rightarrow> Some (Inr (), sd2)))"

definition decoder_push ::
  "('i, 'p) symphonia \<Rightarrow> 'i stream_decoder \<Rightarrow> byte list \<Rightarrow> (pcm_out \<times> 'i stream_decoder) option" where
  "decoder_push sy sd data =
     (if data = [] then Some (([], 0, 0), sd)
      else (case sd_inner sd of
              None \<Rightarrow>
                (let pending = sd_pending sd @ data in
                 if length pending < init_threshold_for (sd_source_codec sd) then
                   Some (([], 0, 0), sd\<lparr>sd_pending := pending\<rparr>)
                 else (case try_init sy (sd\<lparr>sd_pending := [], sd_buf := pipe_extend pending (sd_buf sd)\<rparr>) of
                         None \<Rightarrow> None
                       | Some (Inl e, sd') \<Rightarrow>
                           Some (([], 0, 0), sd'\<lparr>sd_buf := (sd_buf sd')\<lparr>pb_data := []\<rparr>\<rparr>)
                       | Some (Inr _, sd') \<Rightarrow> Some (([], 0, 0), sd')))
            | Some inner \<Rightarrow>
                drain_packets sy inner
                  (stage_complete_frames_to_pipe (sd\<lparr>sd_staging := sd_staging sd @ data\<rparr>))))"

definition decoder_flush_eof ::
  "('i, 'p) symphonia \<Rightarrow> 'i stream_decoder \<Rightarrow> (pcm_out \<times> 'i stream_decoder) option" where
  "decoder_flush_eof sy sd =
     (case (if sd_inner sd = None \<and> sd_pending sd \<noteq> [] then
              map_option snd
                (try_init sy (sd\<lparr>sd_pending := [], sd_buf := pipe_extend (sd_pending sd) (sd_buf sd)\<rparr>))
            else Some sd) of
        None \<Rightarrow> None
      | Some sd1 \<Rightarrow>
          (let sd2 = sd1\<lparr>sd_staging := [],
                         sd_buf := \<lparr>pb_data = pb_data (sd_buf sd1) @ sd_staging sd1, pb_eof = True\<rparr>\<rparr>
           in case sd_inner sd2 of
                None \<Rightarrow> Some (([], 0, 0), sd2)
              | Some inner \<Rightarrow> drain_packets sy inner sd2))"

section \<open>Draining ends\<close>

text \<open>
  A reader that has only so much to say about the bytes in the pipe: each packet or recoverable
  error leaves less to come, and neither a reset nor a decode brings anything back.
\<close>

definition finite_reader :: "('i, 'p) symphonia \<Rightarrow> ('i \<Rightarrow> pipe_buf \<Rightarrow> nat) \<Rightarrow> bool" where
  "finite_reader sy to_come \<longleftrightarrow>
     (\<forall>lib buf pkt lib' buf'. sy_next sy lib buf = (pkt, lib', buf') \<longrightarrow>
        pkt = SymWouldBlock \<or> pkt = SymIoError \<or> pkt = SymOther \<or> to_come lib' buf' < to_come lib buf) \<and>
     (\<forall>lib buf. to_come (sy_reset sy lib) buf \<le> to_come lib buf) \<and>
     (\<forall>p lib d lib' buf. sy_decode sy p lib = (d, lib') \<longrightarrow> to_come lib' buf \<le> to_come lib buf)"

lemma drain_loop_returns:
  assumes "finite_reader sy to_come"
  shows "drain_loop sy inner buf out \<noteq> None"
proof (induction "to_come (di_lib inner) buf" arbitrary: inner buf out rule: less_induct)
  case less
  obtain pkt lib buf' where n: "sy_next sy (di_lib inner) buf = (pkt, lib, buf')" by (cases "sy_next sy (di_lib inner) buf")
  have turn: "drain_loop sy inner' buf' out' \<noteq> None"
    if "to_come (di_lib inner') buf' \<le> to_come lib buf'" "pkt \<notin> {SymWouldBlock, SymIoError, SymOther}" for inner' out'
    using that n assms by (intro less) (fastforce simp: finite_reader_def)
  show ?case
  proof (cases pkt)
    case (SymPacket track p)
    obtain d lib' where d: "sy_decode sy p lib = (d, lib')" by (cases "sy_decode sy p lib")
    then have "to_come lib' buf' \<le> to_come lib buf'" using assms by (simp add: finite_reader_def)
    with turn n d SymPacket show ?thesis
      by (subst drain_loop.simps) (cases d; simp del: not_None_eq)
  next
    case SymResetRequired
    moreover have "to_come (sy_reset sy lib) buf' \<le> to_come lib buf'" using assms by (simp add: finite_reader_def)
    ultimately show ?thesis using turn n by (subst drain_loop.simps) (simp del: not_None_eq)
  qed (use turn n in \<open>subst drain_loop.simps, simp del: not_None_eq\<close>)+
qed

lemma drain_packets_returns:
  assumes "finite_reader sy to_come"
  shows "drain_packets sy inner sd \<noteq> None"
  using drain_loop_returns [OF assms, of inner "sd_buf sd" "([], di_sample_rate inner, di_channels inner)"]
  by (simp add: drain_packets_def split: option.split prod.split)

lemma decoder_returns:
  assumes "finite_reader sy to_come"
  shows "decoder_push sy sd data \<noteq> None" and "decoder_flush_eof sy sd \<noteq> None"
proof -
  note d = drain_packets_returns [OF assms]
  have t: "try_init sy s \<noteq> None" for s
    using d by (auto simp: try_init_def Let_def simp del: not_None_eq split: prod.split sum.split option.split)
  show "decoder_push sy sd data \<noteq> None"
    using d t by (auto simp: decoder_push_def Let_def simp del: not_None_eq split: option.split sum.split prod.split)
  show "decoder_flush_eof sy sd \<noteq> None"
    using d t by (auto simp: decoder_flush_eof_def Let_def simp del: not_None_eq split: option.split)
qed

section \<open>Staging keeps every byte and cuts only between units\<close>

lemma scan_units_bound: "last_end \<le> pos \<Longrightarrow> pos \<le> length data \<Longrightarrow> scan_units hdr st sz data pos last_end \<le> length data"
proof (induction hdr st sz data pos last_end rule: scan_units.induct)
  case (1 hdr st sz data pos last_end)
  then show ?case
    by (subst scan_units.simps) (auto split: option.splits)
qed

text \<open>\<open>unit_ends\<close>: a complete unit of the data ends at this position.\<close>

definition unit_ends :: "(byte list \<Rightarrow> bool) \<Rightarrow> (byte list \<Rightarrow> nat option) \<Rightarrow> byte list \<Rightarrow> nat \<Rightarrow> bool" where
  "unit_ends starts usize data e \<longleftrightarrow>
     (\<exists>pos n. starts (drop pos data) \<and> usize (drop pos data) = Some n \<and> e = pos + n \<and> e \<le> length data)"

lemma scan_units_ends:
  "last_end = 0 \<or> unit_ends st sz data last_end \<Longrightarrow>
     scan_units hdr st sz data pos last_end = 0 \<or> unit_ends st sz data (scan_units hdr st sz data pos last_end)"
proof (induction hdr st sz data pos last_end rule: scan_units.induct)
  case (1 hdr st sz data pos last_end)
  have step: "unit_ends st sz data (pos + n)"
    if "st (drop pos data)" "sz (drop pos data) = Some n" "pos + n \<le> length data" for n
    using that by (auto simp: unit_ends_def)
  show ?case
    by (subst (1 2) scan_units.simps) (use 1 step in \<open>auto split: option.splits\<close>)
qed

text \<open>
  On a stream of whole units followed by the beginning of another, the scan stops exactly at the
  end of the last whole unit: \<open>framed\<close> says that a block is one unit for the scanner, whatever
  follows it, and \<open>partial\<close> that a block is a proper beginning of one.
\<close>

definition framed :: "nat \<Rightarrow> (byte list \<Rightarrow> bool) \<Rightarrow> (byte list \<Rightarrow> nat option) \<Rightarrow> byte list \<Rightarrow> bool" where
  "framed hdr starts usize f \<longleftrightarrow>
     hdr \<le> length f \<and> f \<noteq> [] \<and> (\<forall>rest. starts (f @ rest) \<and> usize (f @ rest) = Some (length f))"

definition partial_unit :: "nat \<Rightarrow> (byte list \<Rightarrow> bool) \<Rightarrow> (byte list \<Rightarrow> nat option) \<Rightarrow> byte list \<Rightarrow> bool" where
  "partial_unit hdr starts usize p \<longleftrightarrow>
     length p < hdr \<or> starts p \<and> (\<exists>n. usize p = Some n \<and> length p < n)"

lemma scan_units_framed:
  assumes "0 < hdr" and "partial_unit hdr st sz p"
  shows "\<forall>f\<in>set fs. framed hdr st sz f \<Longrightarrow>
     scan_units hdr st sz (pre @ concat fs @ p) (length pre) (length pre) = length pre + length (concat fs)"
proof (induction fs arbitrary: pre)
  case Nil
  then show ?case using assms by (subst scan_units.simps) (auto simp: partial_unit_def)
next
  case (Cons f fs)
  have f: "hdr \<le> length f" "f \<noteq> []" "st (f @ concat fs @ p)" "sz (f @ concat fs @ p) = Some (length f)"
    using Cons.prems by (auto simp: framed_def)
  have "scan_units hdr st sz ((pre @ f) @ concat fs @ p) (length (pre @ f)) (length (pre @ f)) =
      length (pre @ f) + length (concat fs)"
    using Cons by (intro Cons.IH) simp
  then show ?case
    by (subst scan_units.simps) (use f assms(1) in simp)
qed

lemma scan_units_prefix:
  "0 < hdr \<Longrightarrow> scan_units hdr st sz data 0 0 = e \<Longrightarrow> e \<le> length data"
  using scan_units_bound [of 0 0 data] by auto

section \<open>MP3 frames\<close>

definition whole_mp3 :: "byte list \<Rightarrow> bool" where
  "whole_mp3 f \<longleftrightarrow> mp3_frame_size f = Some (length f)"

definition part_mp3 :: "byte list \<Rightarrow> bool" where
  "part_mp3 p \<longleftrightarrow> p = [] \<or> (\<exists>f. whole_mp3 f \<and> strict_prefix p f)"

lemma four_bytes:
  assumes "4 \<le> length f"
  obtains a b c d g where "f = a # b # c # d # g"
  using assms by (auto simp: numeral_eq_Suc Suc_le_length_iff)

lemma mp3_frame_size_append: "4 \<le> length f \<Longrightarrow> mp3_frame_size (f @ r) = mp3_frame_size f"
  by (erule four_bytes) (simp add: mp3_frame_size_def sync_word_def cong: option.case_cong if_cong)

lemma sync_word_append: "4 \<le> length f \<Longrightarrow> sync_word (f @ r) = sync_word f"
  by (erule four_bytes) (simp add: sync_word_def)

lemma whole_mp3_framed: "whole_mp3 f \<Longrightarrow> framed 4 sync_word mp3_frame_size f"
  using mp3_frame_size_range [of f "length f"]
  by (auto simp: whole_mp3_def framed_def mp3_frame_size_append sync_word_append)

lemma part_mp3_partial: "part_mp3 p \<Longrightarrow> partial_unit 4 sync_word mp3_frame_size p"
proof -
  assume "part_mp3 p"
  then consider "p = []" | f where "whole_mp3 f" "strict_prefix p f" by (auto simp: part_mp3_def)
  then show ?thesis
  proof cases
    case 2
    then obtain q where q: "f = p @ q" "q \<noteq> []" by (auto simp: strict_prefix_def prefix_def)
    show ?thesis
    proof (cases "length p < 4")
      case False
      then have "mp3_frame_size p = Some (length f)"
        using 2(1) q mp3_frame_size_append [of p q] by (simp add: whole_mp3_def)
      then show ?thesis using q mp3_frame_size_range [of p "length f"]
        by (simp add: partial_unit_def)
    qed (simp add: partial_unit_def)
  qed (simp add: partial_unit_def)
qed

lemma mp3_units_end_whole:
  "\<forall>f\<in>set fs. whole_mp3 f \<Longrightarrow> part_mp3 p \<Longrightarrow> mp3_units_end (concat fs @ p) = length (concat fs)"
  using scan_units_framed [OF _ part_mp3_partial, of p fs "[]"] whole_mp3_framed
  by (simp add: mp3_units_end_def)

lemma whole_mp3_prefix:
  assumes "\<forall>f\<in>set fs. whole_mp3 f" and "part_mp3 p" and "prefix s (concat fs @ p)"
  shows "\<exists>k q. s = concat (take k fs) @ q \<and> part_mp3 q"
  using assms
proof (induction fs arbitrary: s)
  case Nil
  then have "part_mp3 s"
    by (auto simp: part_mp3_def intro: prefix_order.le_less_trans)
  then show ?case by auto
next
  case (Cons f fs)
  show ?case
  proof (cases "prefix f s")
    case True
    then obtain t where t: "s = f @ t" by (auto simp: prefix_def)
    with Cons.prems have "prefix t (concat fs @ p)" by simp
    from Cons.IH [OF _ Cons.prems(2) this] Cons.prems(1)
    obtain k q where "t = concat (take k fs) @ q" "part_mp3 q" by auto
    with t have "s = concat (take (Suc k) (f # fs)) @ q \<and> part_mp3 q" by simp
    then show ?thesis by blast
  next
    case False
    have "prefix s (f @ concat fs @ p)" using Cons.prems(3) by simp
    with False have "strict_prefix s f"
      by (metis prefix_append prefix_order.less_le prefix_same_cases prefixI)
    then have "part_mp3 s" using Cons.prems(1) by (auto simp: part_mp3_def)
    then show ?thesis by (intro exI [of _ 0] exI [of _ s]) simp
  qed
qed

definition stage_chunk :: "'i stream_decoder \<Rightarrow> byte list \<Rightarrow> 'i stream_decoder" where
  "stage_chunk sd data = stage_complete_frames_to_pipe (sd\<lparr>sd_staging := sd_staging sd @ data\<rparr>)"

lemma move_staged_sel [simp]:
  "pb_data (sd_buf (move_staged e sd)) = pb_data (sd_buf sd) @ take e (sd_staging sd)"
  "sd_staging (move_staged e sd) = drop e (sd_staging sd)"
  "sd_source_codec (move_staged e sd) = sd_source_codec sd"
  "sd_inner (move_staged e sd) = sd_inner sd"
  "sd_pending (move_staged e sd) = sd_pending sd"
  by (simp_all add: move_staged_def pipe_extend_def)

lemma stage_chunk_codec [simp]: "sd_source_codec (stage_chunk sd c) = sd_source_codec sd"
  by (simp add: stage_chunk_def stage_complete_frames_to_pipe_def stage_complete_ogg_pages_def
      stage_complete_mp3_frames_def)

lemma stage_chunk_mp3:
  assumes "sd_source_codec sd = MP3"
  shows "pb_data (sd_buf (stage_chunk sd c)) =
      pb_data (sd_buf sd) @ take (mp3_units_end (sd_staging sd @ c)) (sd_staging sd @ c)"
    and "sd_staging (stage_chunk sd c) = drop (mp3_units_end (sd_staging sd @ c)) (sd_staging sd @ c)"
  using assms by (simp_all add: stage_chunk_def stage_complete_frames_to_pipe_def stage_complete_mp3_frames_def)

text \<open>
  Staging never loses, reorders or invents a byte, and it hands the decoder nothing or
  a block that ends where a complete MP3 frame or Ogg page ends.
\<close>

theorem staging_conserves_and_cuts:
  "pb_data (sd_buf (stage_chunk sd c)) @ sd_staging (stage_chunk sd c) =
     pb_data (sd_buf sd) @ sd_staging sd @ c \<and>
   (\<exists>e. pb_data (sd_buf (stage_chunk sd c)) = pb_data (sd_buf sd) @ take e (sd_staging sd @ c) \<and>
      (e = 0 \<or> (if sd_source_codec sd = VORBIS
                 then unit_ends ogg_magic_at ogg_page_size (sd_staging sd @ c) e
                 else unit_ends sync_word mp3_frame_size (sd_staging sd @ c) e)))"
proof -
  have "ogg_units_end d = 0 \<or> unit_ends ogg_magic_at ogg_page_size d (ogg_units_end d)" for d
    unfolding ogg_units_end_def by (rule scan_units_ends) simp
  moreover have "mp3_units_end d = 0 \<or> unit_ends sync_word mp3_frame_size d (mp3_units_end d)" for d
    unfolding mp3_units_end_def by (rule scan_units_ends) simp
  ultimately obtain e where e: "pb_data (sd_buf (stage_chunk sd c)) = pb_data (sd_buf sd) @ take e (sd_staging sd @ c)"
    "sd_staging (stage_chunk sd c) = drop e (sd_staging sd @ c)"
    "e = 0 \<or> (if sd_source_codec sd = VORBIS
       then unit_ends ogg_magic_at ogg_page_size (sd_staging sd @ c) e
       else unit_ends sync_word mp3_frame_size (sd_staging sd @ c) e)"
    by (cases "sd_source_codec sd = VORBIS")
      (auto simp: stage_chunk_def stage_complete_frames_to_pipe_def stage_complete_ogg_pages_def
        stage_complete_mp3_frames_def simp del: take_append drop_append)
  then show ?thesis
    by (intro conjI exI [of _ e]) (simp_all del: take_append drop_append)
qed

lemma stage_chunks_mp3:
  assumes "sd_source_codec sd = MP3" and "sd_staging sd = []" and "\<forall>f\<in>set fs. whole_mp3 f" and "part_mp3 p"
  shows "prefix (concat cs) (concat fs @ p) \<Longrightarrow>
    \<exists>k q. concat cs = concat (take k fs) @ q \<and> part_mp3 q \<and>
      pb_data (sd_buf (foldl stage_chunk sd cs)) = pb_data (sd_buf sd) @ concat (take k fs) \<and>
      sd_staging (foldl stage_chunk sd cs) = q \<and> sd_source_codec (foldl stage_chunk sd cs) = MP3"
proof (induction cs rule: rev_induct)
  case Nil
  show ?case by (intro exI [of _ 0] exI [of _ "[]"]) (simp add: assms part_mp3_def)
next
  case (snoc c cs)
  from snoc.prems have "prefix (concat cs) (concat fs @ p)" by (auto simp: prefix_def)
  with snoc.IH obtain k q where k: "concat cs = concat (take k fs) @ q"
    "pb_data (sd_buf (foldl stage_chunk sd cs)) = pb_data (sd_buf sd) @ concat (take k fs)"
    "sd_staging (foldl stage_chunk sd cs) = q" "sd_source_codec (foldl stage_chunk sd cs) = MP3"
    by blast
  have "concat fs = concat (take k fs) @ concat (drop k fs)"
    by (metis append_take_drop_id concat_append)
  with snoc.prems k(1) have "prefix (q @ c) (concat (drop k fs) @ p)" by simp
  then obtain j r where j: "q @ c = concat (take j (drop k fs)) @ r" "part_mp3 r"
    using whole_mp3_prefix [of "drop k fs" p] assms(3,4) by (meson in_set_dropD)
  have e: "mp3_units_end (q @ c) = length (concat (take j (drop k fs)))"
    unfolding j(1) using assms(3) j(2)
    by (intro mp3_units_end_whole) (auto dest!: in_set_takeD in_set_dropD)
  have "concat (take k fs) @ concat (take j (drop k fs)) = concat (take (k + j) fs)"
    by (simp add: take_add)
  moreover have "pb_data (sd_buf (stage_chunk (foldl stage_chunk sd cs) c)) =
      pb_data (sd_buf sd) @ concat (take k fs) @ concat (take j (drop k fs))"
    "sd_staging (stage_chunk (foldl stage_chunk sd cs) c) = r"
    using stage_chunk_mp3 [OF k(4), of c] k(2,3) e j(1) by simp_all
  moreover have "concat (cs @ [c]) = concat (take k fs) @ concat (take j (drop k fs)) @ r"
    using k(1) j(1) by simp
  ultimately show ?case
    using j(2) k(4) by (intro exI [of _ "k + j"] exI [of _ r]) simp
qed


definition mp3_frame_sample :: "byte list" where
  "mp3_frame_sample = [0xFF, 0xFB, 0x10, 0xC0] @ replicate 100 7"

lemma whole_mp3_sample: "whole_mp3 mp3_frame_sample"
  by (simp add: whole_mp3_def mp3_frame_sample_def mp3_frame_size_def sync_word_def sample_rate_def
      mpeg1_l3_bitrates_def)


end
