(* ===== verification/Transcode_Pipeline.thy ===== *)
theory Transcode_Pipeline
  imports Stream_Decoder
begin

text \<open>
  The rest of \<open>crates/rustyice-transcode\<close>: \<open>resampler.rs\<close>, \<open>encoder.rs\<close>, \<open>vorbis_encoder.rs\<close> and
  \<open>pipeline.rs\<close>. LAME, libvorbis and the rubato resampler are libraries outside the repository:
  they are record arguments whose operations transform an opaque state. What is modelled is the
  code around them: deinterleaving, leftover samples, the sink of Ogg pages, the lazy construction
  and replacement of the encoder when the source format changes, and the flush order.
\<close>

datatype transcode_error =
  DecoderInit string | EncoderInit string | DecodeFailed string | EncodeFailed string | ResampleFailed string

section \<open>Interleaved and planar samples\<close>

text \<open>\<open>iter().skip(ch).step_by(n)\<close>; a step of zero panics in Rust and no caller has it.\<close>

function step_by :: "nat \<Rightarrow> 'a list \<Rightarrow> 'a list" where
  "step_by n [] = []"
| "step_by n (x # xs) = (if n = 0 then [] else x # step_by n (drop (n - 1) xs))"
  by pat_completeness auto
termination by (relation "measure (\<lambda>(n, xs). length xs)") auto

definition plane :: "nat \<Rightarrow> nat \<Rightarrow> 'a list \<Rightarrow> 'a list" where
  "plane channels ch samples = step_by channels (drop ch samples)"

definition deinterleave :: "nat \<Rightarrow> 'a list \<Rightarrow> 'a list list" where
  "deinterleave channels samples = map (\<lambda>ch. plane channels ch samples) [0..<channels]"

text \<open>The output loop of the resampler: for each frame, one sample of each channel.\<close>

definition interleave :: "'a list list \<Rightarrow> 'a list" where
  "interleave planes = concat (map (\<lambda>i. map (\<lambda>p. p ! i) planes) [0..<length (hd planes)])"

text \<open>It indexes every plane up to the length of the first; a missing plane or sample is a panic.\<close>

definition planes_cover :: "'a list list \<Rightarrow> bool" where
  "planes_cover planes \<longleftrightarrow> planes \<noteq> [] \<and> (\<forall>p\<in>set planes. length (hd planes) \<le> length p)"

definition interleave_chunk :: "'a list list \<Rightarrow> 'a list option" where
  "interleave_chunk planes = (if planes_cover planes then Some (interleave planes) else None)"

section \<open>The resampler\<close>

text \<open>How a call ends: it runs forever, panics, or returns.\<close>

datatype 'a outcome = Diverges | Panics | Returns 'a

record 'r rubato =
  rb_new :: "nat \<Rightarrow> nat \<Rightarrow> nat \<Rightarrow> nat \<Rightarrow> string + 'r"
  rb_frames_next :: "'r \<Rightarrow> nat"
  rb_process :: "'r \<Rightarrow> sample list list \<Rightarrow> (string + sample list list) \<times> 'r"
  rb_partial :: "'r \<Rightarrow> sample list list option \<Rightarrow> (string + sample list list) \<times> 'r"

record 'r pcm_resampler =
  rs_inner :: 'r
  rs_channels :: nat
  rs_leftover :: "sample list list"

definition resampler_new :: "'r rubato \<Rightarrow> nat \<Rightarrow> nat \<Rightarrow> nat \<Rightarrow> transcode_error + 'r pcm_resampler" where
  "resampler_new rb from_rate to_rate channels =
     (case rb_new rb from_rate to_rate 1024 channels of
        Inl e \<Rightarrow> Inl (ResampleFailed e)
      | Inr inner \<Rightarrow> Inr \<lparr>rs_inner = inner, rs_channels = channels, rs_leftover = replicate channels []\<rparr>)"

text \<open>
  The chunk loop of \<open>process\<close>; a chunk size of zero never ends it. Without a first plane, or where
  a plane is shorter than the chunk, the indexing panics.
\<close>

partial_function (option) resample_loop ::
  "'r rubato \<Rightarrow> nat \<Rightarrow> 'r pcm_resampler \<Rightarrow> sample list \<Rightarrow>
     ((transcode_error + sample list) \<times> 'r pcm_resampler) outcome option" where
  "resample_loop rb chunk_size rs out =
     (if rs_leftover rs = [] then Some Panics
      else if chunk_size \<le> length (hd (rs_leftover rs)) then
        (if \<exists>p\<in>set (rs_leftover rs). length p < chunk_size then Some Panics
         else (case rb_process rb (rs_inner rs) (map (take chunk_size) (rs_leftover rs)) of
           (Inl e, inner) \<Rightarrow> Some (Returns (Inl (ResampleFailed e), rs\<lparr>rs_inner := inner\<rparr>))
         | (Inr chunk_out, inner) \<Rightarrow>
             (case interleave_chunk chunk_out of
                None \<Rightarrow> Some Panics
              | Some frames \<Rightarrow>
                  resample_loop rb chunk_size
                    (rs\<lparr>rs_inner := inner, rs_leftover := map (drop chunk_size) (rs_leftover rs)\<rparr>)
                    (out @ frames))))
      else Some (Returns (Inr out, rs)))"

definition resampler_process ::
  "'r rubato \<Rightarrow> 'r pcm_resampler \<Rightarrow> sample list \<Rightarrow>
     ((transcode_error + sample list) \<times> 'r pcm_resampler) outcome" where
  "resampler_process rb rs samples =
     (if samples = [] then Returns (Inr [], rs)
      else let leftover = map (\<lambda>(ch, buf). buf @ plane (rs_channels rs) ch samples)
                            (zip [0..<length (rs_leftover rs)] (rs_leftover rs))
           in case resample_loop rb (rb_frames_next rb (rs_inner rs)) (rs\<lparr>rs_leftover := leftover\<rparr>) [] of
                None \<Rightarrow> Diverges
              | Some oc \<Rightarrow> oc)"

definition resampler_flush ::
  "'r rubato \<Rightarrow> 'r pcm_resampler \<Rightarrow> ((transcode_error + sample list) \<times> 'r pcm_resampler) outcome" where
  "resampler_flush rb rs =
     (case (if rs_leftover rs \<noteq> [] \<and> hd (rs_leftover rs) \<noteq> [] then
              (case rb_partial rb (rs_inner rs) (Some (rs_leftover rs)) of
                 (Inl e, inner) \<Rightarrow> Returns (Inl (ResampleFailed e), rs\<lparr>rs_inner := inner\<rparr>)
               | (Inr chunk_out, inner) \<Rightarrow>
                   (case interleave_chunk chunk_out of
                      None \<Rightarrow> Panics
                    | Some out \<Rightarrow>
                        Returns (Inr out,
                          rs\<lparr>rs_inner := inner, rs_leftover := map (\<lambda>_. []) (rs_leftover rs)\<rparr>)))
            else Returns (Inr [], rs)) of
        Returns (Inr out, rs') \<Rightarrow>
          (case rb_partial rb (rs_inner rs') None of
             (Inl e, inner) \<Rightarrow> Returns (Inl (ResampleFailed e), rs'\<lparr>rs_inner := inner\<rparr>)
           | (Inr chunk_out, inner) \<Rightarrow>
               if chunk_out = [] then Returns (Inr out, rs'\<lparr>rs_inner := inner\<rparr>)
               else (case interleave_chunk chunk_out of
                       None \<Rightarrow> Panics
                     | Some frames \<Rightarrow> Returns (Inr (out @ frames), rs'\<lparr>rs_inner := inner\<rparr>)))
      | oc \<Rightarrow> oc)"

section \<open>Encoders\<close>

text \<open>
  LAME: initialisation may return null, and its parameters be refused; encoding returns a byte
  count or a negative code, with the bytes.
\<close>

record 'l lame =
  la_init :: "nat \<Rightarrow> nat \<Rightarrow> nat \<Rightarrow> nat \<Rightarrow> 'l option"
  la_params :: "'l \<Rightarrow> int"
  la_encode :: "'l \<Rightarrow> sample list \<Rightarrow> sample list \<Rightarrow> nat \<Rightarrow> nat \<Rightarrow> int \<times> byte list \<times> 'l"
  la_flush :: "'l \<Rightarrow> nat \<Rightarrow> int \<times> byte list \<times> 'l"

record 'l lame_encoder =
  le_gfp :: 'l
  le_channels :: nat

definition lame_new :: "'l lame \<Rightarrow> nat \<Rightarrow> nat \<Rightarrow> nat \<Rightarrow> nat \<Rightarrow> transcode_error + 'l lame_encoder" where
  "lame_new la in_rate out_rate channels bitrate_kbps =
     (case la_init la in_rate out_rate channels bitrate_kbps of
        None \<Rightarrow> Inl (EncoderInit ''lame_init returned null'')
      | Some gf \<Rightarrow>
          if la_params la gf < 0 then Inl (EncoderInit ''lame_init_params failed'')
          else Inr \<lparr>le_gfp = gf, le_channels = channels\<rparr>)"

definition lame_encode ::
  "'l lame \<Rightarrow> 'l lame_encoder \<Rightarrow> sample list \<Rightarrow> (transcode_error + byte list) \<times> 'l lame_encoder" where
  "lame_encode la e samples =
     (if samples = [] then (Inr [], e)
      else let n = length samples div le_channels e;
               buf_size = n * 5 div 4 + 7200;
               (left, right) =
                 (if le_channels e = 2 then (plane 2 0 samples, plane 2 1 samples) else (samples, samples))
           in case la_encode la (le_gfp e) left right n buf_size of
                (written, output, gf) \<Rightarrow>
                  (if written < 0 then Inl (EncodeFailed ''lame encode'') else Inr (take (nat written) output),
                   e\<lparr>le_gfp := gf\<rparr>))"

definition lame_flush ::
  "'l lame \<Rightarrow> 'l lame_encoder \<Rightarrow> (transcode_error + byte list) \<times> 'l lame_encoder" where
  "lame_flush la e =
     (case la_flush la (le_gfp e) 7200 of
        (written, output, gf) \<Rightarrow>
          (if written < 0 then Inl (EncodeFailed ''lame flush'') else Inr (take (nat written) output),
           e\<lparr>le_gfp := gf\<rparr>))"

text \<open>
  libvorbis: each operation also reports the bytes it wrote to the shared sink, errors included.
\<close>

record 'v vorbis_lib =
  vb_build :: "nat \<Rightarrow> nat \<Rightarrow> nat \<Rightarrow> (string \<times> string) list \<Rightarrow> (string + 'v) \<times> byte list"
  vb_block :: "'v \<Rightarrow> sample list list \<Rightarrow> (string + unit) \<times> byte list \<times> 'v"
  vb_finish :: "'v \<Rightarrow> (string + unit) \<times> byte list"

record 'v vorbis_encoder =
  ve_inner :: "'v option"
  ve_sink :: "byte list"
  ve_channels :: nat

definition saturating_u32 :: "nat \<Rightarrow> nat" where
  "saturating_u32 n = min n (2 ^ 32 - 1)"

definition vorbis_new ::
  "'v vorbis_lib \<Rightarrow> nat \<Rightarrow> nat \<Rightarrow> nat \<Rightarrow> (string \<times> string) list \<Rightarrow> transcode_error + 'v vorbis_encoder" where
  "vorbis_new vb sample_rate' channels bitrate_kbps comments =
     (if sample_rate' = 0 then Inl (EncoderInit ''sample_rate must be non-zero'')
      else if channels = 0 then Inl (EncoderInit ''channels must be non-zero'')
      else if saturating_u32 (bitrate_kbps * 1000) = 0 then Inl (EncoderInit ''bitrate must be non-zero'')
      else (case vb_build vb sample_rate' channels (saturating_u32 (bitrate_kbps * 1000)) comments of
              (Inl e, _) \<Rightarrow> Inl (EncoderInit e)
            | (Inr v, sink) \<Rightarrow> Inr \<lparr>ve_inner = Some v, ve_sink = sink, ve_channels = channels\<rparr>))"

definition vorbis_encode ::
  "'v vorbis_lib \<Rightarrow> 'v vorbis_encoder \<Rightarrow> sample list \<Rightarrow> (transcode_error + byte list) \<times> 'v vorbis_encoder" where
  "vorbis_encode vb e samples =
     (if samples = [] then (Inr (ve_sink e), e\<lparr>ve_sink := []\<rparr>)
      else (case ve_inner e of
              None \<Rightarrow> (Inl (EncodeFailed ''vorbis encoder already finished''), e)
            | Some v \<Rightarrow>
                if ve_channels e = 0 \<or> length samples mod ve_channels e \<noteq> 0 then
                  (Inl (EncodeFailed ''interleaved samples not divisible by channels''), e)
                else (case vb_block vb v (deinterleave (ve_channels e) samples) of
                        (Inl err, bytes, v') \<Rightarrow>
                          (Inl (EncodeFailed err), e\<lparr>ve_inner := Some v', ve_sink := ve_sink e @ bytes\<rparr>)
                      | (Inr _, bytes, v') \<Rightarrow>
                          (Inr (ve_sink e @ bytes), e\<lparr>ve_inner := Some v', ve_sink := []\<rparr>))))"

definition vorbis_flush ::
  "'v vorbis_lib \<Rightarrow> 'v vorbis_encoder \<Rightarrow> (transcode_error + byte list) \<times> 'v vorbis_encoder" where
  "vorbis_flush vb e =
     (case ve_inner e of
        None \<Rightarrow> (Inr (ve_sink e), e\<lparr>ve_sink := []\<rparr>)
      | Some v \<Rightarrow>
          (case vb_finish vb v of
             (Inl err, bytes) \<Rightarrow>
               (Inl (EncodeFailed err), e\<lparr>ve_inner := None, ve_sink := ve_sink e @ bytes\<rparr>)
           | (Inr _, bytes) \<Rightarrow> (Inr (ve_sink e @ bytes), e\<lparr>ve_inner := None, ve_sink := []\<rparr>)))"

datatype ('l, 'v) encoder = EncLame "'l lame_encoder" | EncVorbis "'v vorbis_encoder"

record ('i, 'p, 'r, 'l, 'v) media_libs =
  ml_sym :: "('i, 'p) symphonia"
  ml_rubato :: "'r rubato"
  ml_lame :: "'l lame"
  ml_vorbis :: "'v vorbis_lib"

definition encoder_build ::
  "('i, 'p, 'r, 'l, 'v) media_libs \<Rightarrow> transcode_config \<Rightarrow> nat \<Rightarrow> (string \<times> string) list \<Rightarrow>
     transcode_error + ('l, 'v) encoder" where
  "encoder_build libs cfg channels comments =
     (case tc_format cfg of
        FmtMp3 \<Rightarrow>
          (case lame_new (ml_lame libs) (tc_sample_rate cfg) (tc_sample_rate cfg) channels (tc_bitrate_kbps cfg) of
             Inl e \<Rightarrow> Inl e | Inr x \<Rightarrow> Inr (EncLame x))
      | FmtVorbis \<Rightarrow>
          (case vorbis_new (ml_vorbis libs) (tc_sample_rate cfg) channels (tc_bitrate_kbps cfg) comments of
             Inl e \<Rightarrow> Inl e | Inr x \<Rightarrow> Inr (EncVorbis x)))"

fun encoder_encode ::
  "('i, 'p, 'r, 'l, 'v) media_libs \<Rightarrow> ('l, 'v) encoder \<Rightarrow> sample list \<Rightarrow>
     (transcode_error + byte list) \<times> ('l, 'v) encoder" where
  "encoder_encode libs (EncLame e) samples =
     (case lame_encode (ml_lame libs) e samples of (r, e') \<Rightarrow> (r, EncLame e'))"
| "encoder_encode libs (EncVorbis e) samples =
     (case vorbis_encode (ml_vorbis libs) e samples of (r, e') \<Rightarrow> (r, EncVorbis e'))"

fun encoder_flush ::
  "('i, 'p, 'r, 'l, 'v) media_libs \<Rightarrow> ('l, 'v) encoder \<Rightarrow>
     (transcode_error + byte list) \<times> ('l, 'v) encoder" where
  "encoder_flush libs (EncLame e) =
     (case lame_flush (ml_lame libs) e of (r, e') \<Rightarrow> (r, EncLame e'))"
| "encoder_flush libs (EncVorbis e) =
     (case vorbis_flush (ml_vorbis libs) e of (r, e') \<Rightarrow> (r, EncVorbis e'))"

section \<open>The pipeline\<close>

record ('i, 'r, 'l, 'v) pipeline =
  pl_config :: transcode_config
  pl_decoder :: "'i stream_decoder"
  pl_encoder :: "('l, 'v) encoder option"
  pl_comments :: "(string \<times> string) list"
  pl_source_rate :: "nat option"
  pl_source_channels :: "nat option"
  pl_resampler :: "'r pcm_resampler option"

definition pipeline_new ::
  "transcode_config \<Rightarrow> codec_id \<Rightarrow> (string \<times> string) list \<Rightarrow> transcode_error + ('i, 'r, 'l, 'v) pipeline" where
  "pipeline_new cfg source_codec comments =
     Inr \<lparr>pl_config = cfg, pl_decoder = stream_decoder_new source_codec, pl_encoder = None,
          pl_comments = comments, pl_source_rate = None, pl_source_channels = None, pl_resampler = None\<rparr>"

text \<open>
  The first half of \<open>process_pcm\<close>: when the source format is not the one the encoder was built
  for, drain the old encoder, then build a new encoder and a resampler if the rates differ. An
  early return leaves the fields assigned so far as they are.
\<close>

definition adapt_format ::
  "('i, 'p, 'r, 'l, 'v) media_libs \<Rightarrow> ('i, 'r, 'l, 'v) pipeline \<Rightarrow> nat \<Rightarrow> nat \<Rightarrow>
     (transcode_error + byte list) \<times> ('i, 'r, 'l, 'v) pipeline" where
  "adapt_format libs pl rate channels =
     (if pl_source_rate pl \<noteq> Some rate \<or> pl_source_channels pl \<noteq> Some channels then
        (let (tail, old) =
               (case pl_encoder pl of
                  None \<Rightarrow> ([], None)
                | Some e \<Rightarrow> (case encoder_flush libs e of
                     (Inr t, e') \<Rightarrow> (t, Some e')
                   | (Inl _, e') \<Rightarrow> ([], Some e')));
             pl1 = pl\<lparr>pl_encoder := old, pl_source_rate := Some rate, pl_source_channels := Some channels\<rparr>
         in case encoder_build libs (pl_config pl) channels (pl_comments pl) of
              Inl e \<Rightarrow> (Inl e, pl1)
            | Inr enc \<Rightarrow>
                if rate \<noteq> tc_sample_rate (pl_config pl) then
                  (case resampler_new (ml_rubato libs) rate (tc_sample_rate (pl_config pl)) channels of
                     Inl e \<Rightarrow> (Inl e, pl1\<lparr>pl_encoder := Some enc\<rparr>)
                   | Inr rs \<Rightarrow> (Inr tail, pl1\<lparr>pl_encoder := Some enc, pl_resampler := Some rs\<rparr>))
                else (Inr tail, pl1\<lparr>pl_encoder := Some enc, pl_resampler := None\<rparr>))
      else (Inr [], pl))"

text \<open>The second half: resample if needed, encode; \<open>expect\<close> on a missing encoder is a panic.\<close>

definition encode_pcm ::
  "('i, 'p, 'r, 'l, 'v) media_libs \<Rightarrow> ('i, 'r, 'l, 'v) pipeline \<Rightarrow> sample list \<Rightarrow> byte list \<Rightarrow>
     ((transcode_error + byte list) \<times> ('i, 'r, 'l, 'v) pipeline) outcome" where
  "encode_pcm libs pl pcm output =
     (if pcm = [] then Returns (Inr output, pl)
      else (case pl_encoder pl of
              None \<Rightarrow> Panics
            | Some enc \<Rightarrow>
                (case encoder_encode libs enc pcm of
                   (Inl e, enc') \<Rightarrow> Returns (Inl e, pl\<lparr>pl_encoder := Some enc'\<rparr>)
                 | (Inr bytes, enc') \<Rightarrow> Returns (Inr (output @ bytes), pl\<lparr>pl_encoder := Some enc'\<rparr>))))"

definition process_pcm ::
  "('i, 'p, 'r, 'l, 'v) media_libs \<Rightarrow> ('i, 'r, 'l, 'v) pipeline \<Rightarrow> sample list \<Rightarrow> nat \<Rightarrow> nat \<Rightarrow>
     ((transcode_error + byte list) \<times> ('i, 'r, 'l, 'v) pipeline) outcome" where
  "process_pcm libs pl pcm rate channels =
     (case adapt_format libs pl rate channels of
        (Inl e, pl1) \<Rightarrow> Returns (Inl e, pl1)
      | (Inr output, pl1) \<Rightarrow>
          (case pl_resampler pl1 of
             None \<Rightarrow> encode_pcm libs pl1 pcm output
           | Some rs \<Rightarrow>
               (case resampler_process (ml_rubato libs) rs pcm of
                  Diverges \<Rightarrow> Diverges
                | Panics \<Rightarrow> Panics
                | Returns (Inl e, rs') \<Rightarrow> Returns (Inl e, pl1\<lparr>pl_resampler := Some rs'\<rparr>)
                | Returns (Inr pcm', rs') \<Rightarrow> encode_pcm libs (pl1\<lparr>pl_resampler := Some rs'\<rparr>) pcm' output)))"

definition pipeline_push ::
  "('i, 'p, 'r, 'l, 'v) media_libs \<Rightarrow> ('i, 'r, 'l, 'v) pipeline \<Rightarrow> byte list \<Rightarrow>
     ((transcode_error + byte list) \<times> ('i, 'r, 'l, 'v) pipeline) outcome" where
  "pipeline_push libs pl data =
     (if data = [] then Returns (Inr [], pl)
      else (case decoder_push (ml_sym libs) (pl_decoder pl) data of
              None \<Rightarrow> Diverges
            | Some ((pcm, rate, channels), sd) \<Rightarrow>
                (let pl1 = pl\<lparr>pl_decoder := sd\<rparr> in
                 if pcm = [] \<or> rate = 0 then Returns (Inr [], pl1)
                 else process_pcm libs pl1 pcm rate channels)))"

definition pipeline_push_pcm ::
  "('i, 'p, 'r, 'l, 'v) media_libs \<Rightarrow> ('i, 'r, 'l, 'v) pipeline \<Rightarrow> sample list \<Rightarrow> nat \<Rightarrow> nat \<Rightarrow>
     ((transcode_error + byte list) \<times> ('i, 'r, 'l, 'v) pipeline) outcome" where
  "pipeline_push_pcm libs pl samples rate channels =
     (if samples = [] \<or> rate = 0 \<or> channels = 0 then Returns (Inr [], pl)
      else process_pcm libs pl samples rate channels)"

text \<open>The tail of \<open>flush\<close>: the resampler's delay through the encoder, then the encoder's end.\<close>

definition flush_tail ::
  "('i, 'p, 'r, 'l, 'v) media_libs \<Rightarrow> ('i, 'r, 'l, 'v) pipeline \<Rightarrow> byte list \<Rightarrow>
     ((transcode_error + byte list) \<times> ('i, 'r, 'l, 'v) pipeline) outcome" where
  "flush_tail libs pl combined =
     (case pl_encoder pl of
        None \<Rightarrow> Returns (Inr combined, pl)
      | Some enc \<Rightarrow>
          (case (case pl_resampler pl of
                   None \<Rightarrow> Returns (Inr [], enc, pl)
                 | Some rs \<Rightarrow>
                     (case resampler_flush (ml_rubato libs) rs of
                        Diverges \<Rightarrow> Diverges
                      | Panics \<Rightarrow> Panics
                      | Returns (Inl e, rs') \<Rightarrow> Returns (Inl e, enc, pl\<lparr>pl_resampler := Some rs'\<rparr>)
                      | Returns (Inr tail_pcm, rs') \<Rightarrow>
                          if tail_pcm = [] then Returns (Inr [], enc, pl\<lparr>pl_resampler := Some rs'\<rparr>)
                          else (case encoder_encode libs enc tail_pcm of
                                  (r, enc') \<Rightarrow> Returns (r, enc', pl\<lparr>pl_resampler := Some rs'\<rparr>)))) of
             Diverges \<Rightarrow> Diverges
           | Panics \<Rightarrow> Panics
           | Returns (Inl e, enc', pl') \<Rightarrow> Returns (Inl e, pl'\<lparr>pl_encoder := Some enc'\<rparr>)
           | Returns (Inr encoded, enc', pl') \<Rightarrow>
               (case encoder_flush libs enc' of
                  (Inl e, enc'') \<Rightarrow> Returns (Inl e, pl'\<lparr>pl_encoder := Some enc''\<rparr>)
                | (Inr flushed, enc'') \<Rightarrow>
                    Returns (Inr (combined @ encoded @ flushed), pl'\<lparr>pl_encoder := Some enc''\<rparr>))))"

definition pipeline_flush ::
  "('i, 'p, 'r, 'l, 'v) media_libs \<Rightarrow> ('i, 'r, 'l, 'v) pipeline \<Rightarrow>
     ((transcode_error + byte list) \<times> ('i, 'r, 'l, 'v) pipeline) outcome" where
  "pipeline_flush libs pl =
     (case decoder_flush_eof (ml_sym libs) (pl_decoder pl) of
        None \<Rightarrow> Diverges
      | Some ((pcm, rate, channels), sd) \<Rightarrow>
          (let pl1 = pl\<lparr>pl_decoder := sd\<rparr> in
           if rate \<noteq> 0 \<and> channels \<noteq> 0 then
             (case process_pcm libs pl1 pcm rate channels of
                Diverges \<Rightarrow> Diverges
              | Panics \<Rightarrow> Panics
              | Returns (Inl e, pl2) \<Rightarrow> Returns (Inl e, pl2)
              | Returns (Inr out, pl2) \<Rightarrow> flush_tail libs pl2 out)
           else flush_tail libs pl1 []))"

section \<open>Planar and interleaved samples agree\<close>

lemma step_by_block:
  "length b = n \<Longrightarrow> 0 < n \<Longrightarrow> step_by n (b @ ys) = hd b # step_by n ys"
  by (cases b) auto

lemma plane_block:
  assumes "length b = n" and "ch < n"
  shows "plane n ch (b @ ys) = b ! ch # plane n ch ys"
proof (cases "ch = 0")
  case True
  then show ?thesis using assms step_by_block [of b n ys]
    by (cases b) (simp_all add: plane_def)
next
  case False
  have d: "drop ch (b @ ys) = drop ch b @ ys" using assms by simp
  obtain x xs where x: "drop ch b = x # xs" using assms by (cases "drop ch b") auto
  then have hdx: "x = b ! ch" using assms by (metis hd_drop_conv_nth list.sel(1))
  have len: "length xs = n - 1 - ch" using x assms by (metis diff_diff_cancel diff_diff_left length_drop length_tl list.sel(3) plus_1_eq_Suc add.commute)
  have "drop (n - 1) (xs @ ys) = drop ch ys" using len assms by simp
  then show ?thesis using d x hdx assms by (simp add: plane_def)
qed

lemma interleave_Cons:
  "planes \<noteq> [] \<Longrightarrow> \<forall>p\<in>set planes. length p = length (hd planes) \<Longrightarrow> f \<noteq> [] \<Longrightarrow> length f = length planes \<Longrightarrow>
     interleave (map (\<lambda>(x, p). x # p) (zip f planes)) = f @ interleave planes"
proof -
  assume a: "planes \<noteq> []" "\<forall>p\<in>set planes. length p = length (hd planes)" "f \<noteq> []" "length f = length planes"
  let ?q = "map (\<lambda>(x, p). x # p) (zip f planes)"
  have h: "length (hd ?q) = Suc (length (hd planes))"
    using a(1,3) by (cases f; cases planes) simp_all
  have "map (\<lambda>p. p ! 0) ?q = map fst (zip f planes)"
    by (simp add: case_prod_beta)
  then have "map (\<lambda>p. p ! 0) ?q = f" using a(4) by simp
  moreover have "map (\<lambda>p. p ! Suc i) ?q = map (\<lambda>p. p ! i) (map snd (zip f planes))" for i
    by (simp add: case_prod_beta)
  then have "map (\<lambda>p. p ! Suc i) ?q = map (\<lambda>p. p ! i) planes" for i
    using a(4) by simp
  moreover have "[0..<Suc (length (hd planes))] = 0 # map Suc [0..<length (hd planes)]"
    by (simp add: upt_conv_Cons map_Suc_upt del: upt_Suc)
  ultimately show ?thesis
    unfolding interleave_def h by (simp only: list.map concat.simps map_map comp_def)
qed

lemma length_plane_multiple:
  "0 < n \<Longrightarrow> length xs = n * k \<Longrightarrow> ch < n \<Longrightarrow> length (plane n ch xs) = k"
proof (induction k arbitrary: xs)
  case 0
  then show ?case by (simp add: plane_def)
next
  case (Suc k)
  have "length (take n xs) = n" using Suc.prems by simp
  then have "plane n ch (take n xs @ drop n xs) = take n xs ! ch # plane n ch (drop n xs)"
    using Suc.prems by (intro plane_block) auto
  then show ?case using Suc.IH [of "drop n xs"] Suc.prems by simp
qed

lemma interleave_deinterleave_blocks:
  "0 < n \<Longrightarrow> length xs = n * k \<Longrightarrow> interleave (deinterleave n xs) = xs"
proof (induction k arbitrary: xs)
  case 0
  then show ?case
    by (cases n) (auto simp: interleave_def deinterleave_def plane_def upt_conv_Cons simp del: upt_Suc)
next
  case (Suc k)
  let ?b = "take n xs" and ?ys = "drop n xs"
  have b: "length ?b = n" and ys: "length ?ys = n * k" using Suc.prems by simp_all
  have "deinterleave n (?b @ ?ys) = map (\<lambda>(x, p). x # p) (zip ?b (deinterleave n ?ys))"
    using b by (intro nth_equalityI) (auto simp: deinterleave_def plane_block simp del: append_take_drop_id)
  moreover have "interleave (map (\<lambda>(x, p). x # p) (zip ?b (deinterleave n ?ys))) = ?b @ interleave (deinterleave n ?ys)"
    using b Suc.prems(1) length_plane_multiple [OF Suc.prems(1) ys]
    by (intro interleave_Cons) (auto simp: deinterleave_def hd_map)
  ultimately show ?case using Suc.IH [OF Suc.prems(1) ys] by simp
qed

text \<open>
  Deinterleaving samples into one plane per channel and interleaving the planes again,
  as the encoder and the resampler do at the two ends of the pipeline, is the identity on whole
  frames: no sample moves to another channel and none is lost.
\<close>

theorem interleave_deinterleave:
  assumes "0 < channels" and "channels dvd length samples"
  shows "interleave (deinterleave channels samples) = samples \<and>
    (\<forall>p\<in>set (deinterleave channels samples). length p = length samples div channels)"
proof -
  obtain k where k: "length samples = channels * k" using assms(2) by (auto elim: dvdE)
  with assms show ?thesis
    using interleave_deinterleave_blocks [OF assms(1) k] length_plane_multiple [OF assms(1) k]
    by (auto simp: deinterleave_def)
qed

theorem interleave_deinterleave_witness:
  "interleave (deinterleave 2 [1, 2, 3, 4 :: nat]) = [1, 2, 3, 4] \<and> deinterleave 2 [1, 2, 3, 4 :: nat] = [[1, 3], [2, 4]]"
proof -
  have "deinterleave 2 [1, 2, 3, 4 :: nat] = [[1, 3], [2, 4]]"
    by (simp add: deinterleave_def plane_def upt_rec)
  then show ?thesis using interleave_deinterleave [of 2 "[1, 2, 3, 4 :: nat]"] by simp
qed

section \<open>Resampling ends\<close>

definition even_planes :: "nat \<Rightarrow> 'a list list \<Rightarrow> bool" where
  "even_planes n planes \<longleftrightarrow> 0 < n \<and> length planes = n \<and> (\<forall>p\<in>set planes. length p = length (hd planes))"

text \<open>What the documentation of rubato says: it asks for some frames, and answers planes with planes.\<close>

definition rubato_sound :: "'r rubato \<Rightarrow> bool" where
  "rubato_sound rb \<longleftrightarrow> (\<forall>r. 0 < rb_frames_next rb r) \<and>
     (\<forall>r planes out r'. even_planes (length planes) planes \<longrightarrow> rb_process rb r planes = (Inr out, r') \<longrightarrow>
        planes_cover out)"

lemma even_planesI: "0 < n \<Longrightarrow> length planes = n \<Longrightarrow> (\<And>p. p \<in> set planes \<Longrightarrow> length p = k) \<Longrightarrow> even_planes n planes"
  by (cases planes) (simp_all add: even_planes_def)

lemma even_planesE:
  assumes "even_planes n planes"
  obtains k where "0 < n" "length planes = n" "planes \<noteq> []" "\<And>p. p \<in> set planes \<Longrightarrow> length p = k"
proof (rule that [where k = "length (hd planes)"])
  show "0 < n" "length planes = n" using assms by (simp_all add: even_planes_def)
  then show "planes \<noteq> []" by auto
  show "length p = length (hd planes)" if "p \<in> set planes" for p
    using assms that unfolding even_planes_def by blast
qed

lemma even_planes_map:
  assumes "even_planes n planes" and "\<And>p q. length p = length q \<Longrightarrow> length (f p) = length (f q)"
  shows "even_planes n (map f planes)"
  using assms(1)
proof (rule even_planesE)
  fix k assume k: "0 < n" "length planes = n" "planes \<noteq> []" "\<And>p. p \<in> set planes \<Longrightarrow> length p = k"
  have "length (f p) = length (f (hd planes))" if "p \<in> set planes" for p
    using k(3) k(4) [OF that] k(4) [of "hd planes"] by (intro assms(2)) simp
  with k(1,2) show ?thesis by (intro even_planesI [where k = "length (f (hd planes))"]) auto
qed

lemma even_planes_replicate [simp]: "even_planes n (replicate n []) \<longleftrightarrow> 0 < n"
  by (auto simp: even_planes_def)

lemma even_planes_extend:
  assumes "even_planes n planes" and "n dvd length samples"
  shows "even_planes n (map (\<lambda>(ch, buf). buf @ plane n ch samples) (zip [0..<length planes] planes))"
proof -
  obtain j where j: "length samples = n * j" using assms(2) by (auto elim: dvdE)
  obtain k where k: "0 < n" "length planes = n" "\<And>p. p \<in> set planes \<Longrightarrow> length p = k"
    using assms(1) by (elim even_planesE) blast
  have "length (buf @ plane n ch samples) = k + j" if "(ch, buf) \<in> set (zip [0..<length planes] planes)" for ch buf
    using k(3) [OF set_zip_rightD [OF that]] length_plane_multiple [OF k(1) j, of ch] set_zip_leftD [OF that] k(2)
    by simp
  with k(1,2) show ?thesis by (intro even_planesI [where k = "k + j"]) auto
qed

lemma resample_loop_returns:
  assumes "0 < chunk"
  shows "\<exists>oc. resample_loop rb chunk rs out = Some oc \<and> oc \<noteq> Diverges"
proof (induction "length (hd (rs_leftover rs))" arbitrary: rs out rule: less_induct)
  case less
  show ?case
  proof (cases "rs_leftover rs \<noteq> [] \<and> chunk \<le> length (hd (rs_leftover rs))")
    case True
    then have "length (hd (map (drop chunk) (rs_leftover rs))) < length (hd (rs_leftover rs))"
      using assms by (simp add: hd_map) linarith
    then have "\<exists>oc. resample_loop rb chunk (rs\<lparr>rs_inner := i, rs_leftover := map (drop chunk) (rs_leftover rs)\<rparr>) o' = Some oc
        \<and> oc \<noteq> Diverges" for i o'
      by (intro less) simp
    then show ?thesis
      by (subst resample_loop.simps) (simp split: prod.split sum.split option.split)
  next
    case False
    then show ?thesis by (subst resample_loop.simps) auto
  qed
qed

lemma resample_loop_even:
  assumes "0 < chunk" and "rubato_sound rb"
  shows "even_planes n (rs_leftover rs) \<Longrightarrow>
    \<exists>r rs'. resample_loop rb chunk rs out = Some (Returns (r, rs')) \<and> even_planes n (rs_leftover rs') \<and>
      rs_channels rs' = rs_channels rs"
proof (induction "length (hd (rs_leftover rs))" arbitrary: rs out rule: less_induct)
  case less
  then have ne: "rs_leftover rs \<noteq> []" by (auto simp: even_planes_def)
  show ?case
  proof (cases "chunk \<le> length (hd (rs_leftover rs))")
    case True
    then have shrink: "length (hd (map (drop chunk) (rs_leftover rs))) < length (hd (rs_leftover rs))"
      using assms ne by (simp add: hd_map)
    have long: "\<not> (\<exists>p\<in>set (rs_leftover rs). length p < chunk)"
      using True less.prems ne by (metis even_planesE hd_in_set leD)
    have cut: "even_planes n (map (take chunk) (rs_leftover rs))" "even_planes n (map (drop chunk) (rs_leftover rs))"
      using less.prems by (simp_all add: even_planes_map)
    have next_turn: "\<exists>r rs'. resample_loop rb chunk (rs\<lparr>rs_inner := i, rs_leftover := map (drop chunk) (rs_leftover rs)\<rparr>) o' =
        Some (Returns (r, rs')) \<and> even_planes n (rs_leftover rs') \<and> rs_channels rs' = rs_channels rs" for i o'
      using less.hyps [of "rs\<lparr>rs_inner := i, rs_leftover := map (drop chunk) (rs_leftover rs)\<rparr>" o'] shrink cut(2) by simp
    have len: "length (rs_leftover rs) = n" using less.prems by (simp add: even_planes_def)
    have "planes_cover out'" if "rb_process rb (rs_inner rs) (map (take chunk) (rs_leftover rs)) = (Inr out', i)" for out' i
      using assms(2) that cut(1) len unfolding rubato_sound_def by (metis length_map)
    then show ?thesis
      using ne True long next_turn less.prems
      by (subst resample_loop.simps) (auto simp: interleave_chunk_def split: prod.split sum.split)
  next
    case False
    then show ?thesis using ne less.prems by (subst resample_loop.simps) simp
  qed
qed

lemma resampler_process_even:
  assumes "rubato_sound rb" and "even_planes (rs_channels rs) (rs_leftover rs)" and "rs_channels rs dvd length pcm"
  shows "\<exists>r rs'. resampler_process rb rs pcm = Returns (r, rs') \<and> rs_channels rs' = rs_channels rs \<and>
    even_planes (rs_channels rs) (rs_leftover rs')"
proof -
  let ?rs = "rs\<lparr>rs_leftover := map (\<lambda>(ch, buf). buf @ plane (rs_channels rs) ch pcm)
      (zip [0..<length (rs_leftover rs)] (rs_leftover rs))\<rparr>"
  have "0 < rb_frames_next rb (rs_inner rs)" using assms(1) by (simp add: rubato_sound_def)
  from resample_loop_even [OF this assms(1), of "rs_channels rs" ?rs "[]"] even_planes_extend [OF assms(2,3)]
  obtain r rs' where "resample_loop rb (rb_frames_next rb (rs_inner rs)) ?rs [] = Some (Returns (r, rs'))"
    and "even_planes (rs_channels rs) (rs_leftover rs')" and "rs_channels rs' = rs_channels rs"
    by auto
  then show ?thesis using assms(2) by (simp add: resampler_process_def)
qed

section \<open>The encoder is the one for the current source format\<close>

definition pipeline_inv :: "('i, 'r, 'l, 'v) pipeline \<Rightarrow> bool" where
  "pipeline_inv pl \<longleftrightarrow>
     (case (pl_source_rate pl, pl_source_channels pl) of
        (None, None) \<Rightarrow> pl_encoder pl = None \<and> pl_resampler pl = None
      | (Some r, Some c) \<Rightarrow>
          pl_encoder pl \<noteq> None \<and> (pl_resampler pl \<noteq> None \<longleftrightarrow> r \<noteq> tc_sample_rate (pl_config pl)) \<and>
          (case pl_resampler pl of
             None \<Rightarrow> True
           | Some rs \<Rightarrow> rs_channels rs = c \<and> even_planes c (rs_leftover rs))
      | _ \<Rightarrow> False)"

lemma adapt_format_ok:
  assumes "pipeline_inv pl" and "0 < channels" and "adapt_format libs pl rate channels = (Inr out, pl')"
  shows "pipeline_inv pl' \<and> pl_source_rate pl' = Some rate \<and> pl_source_channels pl' = Some channels \<and>
    pl_config pl' = pl_config pl"
  using assms
  by (auto simp: adapt_format_def pipeline_inv_def resampler_new_def Let_def
      split: if_splits option.splits sum.splits prod.splits)

lemma encode_pcm_ok:
  assumes "pipeline_inv pl" and "pl_source_rate pl \<noteq> None"
  shows "\<exists>r pl'. encode_pcm libs pl pcm out = Returns (r, pl') \<and> pipeline_inv pl' \<and>
    pl_source_rate pl' = pl_source_rate pl \<and> pl_source_channels pl' = pl_source_channels pl"
proof (cases "pl_encoder pl")
  case None
  with assms show ?thesis by (auto simp: pipeline_inv_def split: option.splits)
next
  case (Some enc)
  have inv: "pipeline_inv (pl\<lparr>pl_encoder := Some e\<rparr>)" for e
    using assms by (auto simp: pipeline_inv_def split: option.splits)
  obtain r e where "encoder_encode libs enc pcm = (r, e)" by (cases "encoder_encode libs enc pcm")
  with Some inv [of e] assms show ?thesis by (cases r) (auto simp: encode_pcm_def)
qed

text \<open>
  Claim C25. From a consistent pipeline (encoder present exactly when a source format is recorded,
  resampler present exactly when its rate differs from the target, its leftover samples one plane
  for each channel, all equally long), processing whole frames of PCM returns: it neither loops in
  the resampler nor reaches the missing-encoder panic or an index out of range. When it succeeds
  the pipeline is consistent again, with the format of the processed samples recorded. The
  resampler is assumed to ask for at least one frame and to answer planes with planes.
\<close>

theorem process_pcm_safe:
  assumes "rubato_sound (ml_rubato libs)" and "pipeline_inv pl" and "0 < channels" and "channels dvd length pcm"
  shows "\<exists>r pl'. process_pcm libs pl pcm rate channels = Returns (r, pl') \<and>
    (\<forall>bytes. r = Inr bytes \<longrightarrow>
       pipeline_inv pl' \<and> pl_source_rate pl' = Some rate \<and> pl_source_channels pl' = Some channels)"
proof (cases "adapt_format libs pl rate channels")
  case (Pair res pl1)
  show ?thesis
  proof (cases res)
    case (Inl e)
    with Pair show ?thesis by (simp add: process_pcm_def)
  next
    case (Inr out)
    note ok = adapt_format_ok [OF assms(2,3) Pair [unfolded Inr]]
    show ?thesis
    proof (cases "pl_resampler pl1")
      case None
      with Pair Inr ok encode_pcm_ok [of pl1 libs pcm out] show ?thesis
        by (auto simp: process_pcm_def)
    next
      case (Some rs)
      then have "rs_channels rs = channels" "even_planes channels (rs_leftover rs)"
        using ok by (auto simp: pipeline_inv_def)
      with resampler_process_even [OF assms(1), of rs pcm] assms(4)
      obtain r rs' where r: "resampler_process (ml_rubato libs) rs pcm = Returns (r, rs')"
        "rs_channels rs' = channels" "even_planes channels (rs_leftover rs')" by auto
      then have "pipeline_inv (pl1\<lparr>pl_resampler := Some rs'\<rparr>)"
        using ok Some by (auto simp: pipeline_inv_def)
      from encode_pcm_ok [OF this, of libs] ok Pair Inr Some r show ?thesis
        by (cases r) (fastforce simp: process_pcm_def)+
    qed
  qed
qed

definition mute_libs :: "(unit, unit, unit, unit, unit) media_libs" where
  "mute_libs =
     \<lparr>ml_sym = \<lparr>sy_probe = (\<lambda>_ buf. (Inl ''no probe'', buf)), sy_next = (\<lambda>i buf. (SymIoError, i, buf)),
                sy_reset = id, sy_decode = (\<lambda>_ i. (DecOther, i))\<rparr>,
      ml_rubato = \<lparr>rb_new = (\<lambda>_ _ _ _. Inr ()), rb_frames_next = (\<lambda>_. 4),
                   rb_process = (\<lambda>r ps. (Inr ps, r)), rb_partial = (\<lambda>r ps. (Inr (case ps of None \<Rightarrow> [] | Some x \<Rightarrow> x), r))\<rparr>,
      ml_lame = \<lparr>la_init = (\<lambda>_ _ _ _. Some ()), la_params = (\<lambda>_. 0),
                 la_encode = (\<lambda>g l r n b. (int n, replicate n 1, g)), la_flush = (\<lambda>g n. (0, [], g))\<rparr>,
      ml_vorbis = \<lparr>vb_build = (\<lambda>_ _ _ _. (Inr (), [])), vb_block = (\<lambda>v ps. (Inr (), [], v)),
                   vb_finish = (\<lambda>v. (Inr (), []))\<rparr>\<rparr>"

definition idle_pipeline :: "transcode_config \<Rightarrow> (unit, unit, unit, unit) pipeline" where
  "idle_pipeline cfg =
     \<lparr>pl_config = cfg, pl_decoder = stream_decoder_new MP3, pl_encoder = None, pl_comments = [],
      pl_source_rate = None, pl_source_channels = None, pl_resampler = None\<rparr>"

lemma idle_pipeline_new: "pipeline_new cfg MP3 [] = Inr (idle_pipeline cfg)"
  by (simp add: pipeline_new_def idle_pipeline_def)

lemma mute_rubato_sound: "rubato_sound (ml_rubato mute_libs)"
  by (auto simp: rubato_sound_def mute_libs_def planes_cover_def even_planes_def)

theorem process_pcm_safe_witness:
  "\<exists>r pl'. process_pcm mute_libs (idle_pipeline \<lparr>tc_format = FmtMp3, tc_sample_rate = 44100, tc_bitrate_kbps = 128\<rparr>)
     [1, 2, 3, 4] 48000 2 = Returns (r, pl')"
  using process_pcm_safe [OF mute_rubato_sound, of "idle_pipeline \<lparr>tc_format = FmtMp3, tc_sample_rate = 44100, tc_bitrate_kbps = 128\<rparr>"
      2 "[1, 2, 3, 4]" 48000]
  by (auto simp: pipeline_inv_def idle_pipeline_def)

text \<open>
  A failed encoder construction is not recovered from: the source format is recorded
  before the encoder is built, so a pipeline without encoder whose first construction fails
  reports the error once, and the next samples of the same format find no encoder and panic.
\<close>

theorem failed_build_then_panic:
  assumes "pl_source_rate pl = None" and "pl_encoder pl = None" and "pl_resampler pl = None"
    and "encoder_build libs (pl_config pl) channels (pl_comments pl) = Inl e" and "pcm' \<noteq> []"
  shows "\<exists>pl1. process_pcm libs pl pcm rate channels = Returns (Inl e, pl1) \<and>
    process_pcm libs pl1 pcm' rate channels = Panics"
proof -
  let ?pl1 = "pl\<lparr>pl_encoder := None, pl_source_rate := Some rate, pl_source_channels := Some channels\<rparr>"
  have "process_pcm libs pl pcm rate channels = Returns (Inl e, ?pl1)"
    using assms by (simp add: process_pcm_def adapt_format_def)
  moreover have "process_pcm libs ?pl1 pcm' rate channels = Panics"
    using assms by (simp add: process_pcm_def adapt_format_def encode_pcm_def)
  ultimately show ?thesis by blast
qed

theorem failed_build_then_panic_witness:
  "\<exists>pl1. process_pcm mute_libs (idle_pipeline \<lparr>tc_format = FmtVorbis, tc_sample_rate = 44100, tc_bitrate_kbps = 0\<rparr>)
      [1, 2] 44100 2 = Returns (Inl (EncoderInit ''bitrate must be non-zero''), pl1) \<and>
    process_pcm mute_libs pl1 [1, 2] 44100 2 = Panics"
  by (rule failed_build_then_panic)
    (simp_all add: idle_pipeline_def encoder_build_def vorbis_new_def saturating_u32_def)

section \<open>A push ends\<close>

lemma resampler_process_ends:
  assumes "\<forall>r. 0 < rb_frames_next rb r"
  shows "resampler_process rb rs xs \<noteq> Diverges"
proof (cases "xs = []")
  case False
  let ?rs = "rs\<lparr>rs_leftover := map (\<lambda>(ch, buf). buf @ plane (rs_channels rs) ch xs)
      (zip [0..<length (rs_leftover rs)] (rs_leftover rs))\<rparr>"
  have "0 < rb_frames_next rb (rs_inner rs)" using assms by blast
  from resample_loop_returns [OF this, of rb ?rs "[]"]
  obtain oc where "resample_loop rb (rb_frames_next rb (rs_inner rs)) ?rs [] = Some oc" "oc \<noteq> Diverges" by blast
  with False show ?thesis by (simp add: resampler_process_def)
qed (simp add: resampler_process_def)

lemma resampler_flush_ends: "resampler_flush rb rs \<noteq> Diverges"
  by (auto simp: resampler_flush_def split: option.split sum.split prod.split outcome.split)

lemma encode_pcm_ends: "encode_pcm libs pl xs out \<noteq> Diverges"
  by (auto simp: encode_pcm_def split: option.split sum.split prod.split)

lemma process_pcm_ends:
  assumes "\<forall>r. 0 < rb_frames_next (ml_rubato libs) r"
  shows "process_pcm libs pl pcm rate channels \<noteq> Diverges"
  by (simp add: process_pcm_def resampler_process_ends [OF assms] encode_pcm_ends
      split: option.split sum.split prod.split outcome.split)

lemma flush_tail_ends: "flush_tail libs pl out \<noteq> Diverges"
  by (auto simp: flush_tail_def resampler_flush_ends split: option.split sum.split prod.split outcome.split)


text \<open>A library whose packets are single bytes, each decoded to one stereo frame.\<close>

definition byte_reader :: "(unit, unit) symphonia" where
  "byte_reader =
     \<lparr>sy_probe = (\<lambda>_ buf. (Inr ((), 0, None, None), buf)),
      sy_next = (\<lambda>i buf. case pb_data buf of
                   [] \<Rightarrow> (SymWouldBlock, i, buf)
                 | b # bs \<Rightarrow> (SymPacket 0 (), i, buf\<lparr>pb_data := bs\<rparr>)),
      sy_reset = id, sy_decode = (\<lambda>p i. (DecAudio [0, 1] 44100 2, i))\<rparr>"


end
