(* ===== verification/Icecast_Ingest.thy ===== *)
theory Icecast_Ingest
  imports Transcode_Pipeline Broadcast_Bus
begin

text \<open>
  \<open>crates/rustyice-ingest/src/icecast.rs\<close>. Two tasks joined by an unbounded channel: the reader,
  which drains the source as fast as it sends and strips the metadata at the start of an MP3
  stream, and the publisher, which rates, transcodes and publishes what the channel delivers.
  Each task is a function of the script of what its \<open>select!\<close> observes. The reader's sends go to
  the channel; the script of the publisher interleaves them with cancellation and the abort the
  reader signals. A sent chunk is only lost when the publisher has ended.
\<close>

section \<open>Configuration of an ingest\<close>

record icecast_ingest =
  ig_chunk_size :: nat
  ig_max_rate_bps :: "nat option"
  ig_transcode :: "transcode_config option"
  ig_transcode_comments :: "(string \<times> string) list"
  ig_header_capture :: bool

definition ingest_new :: "nat \<Rightarrow> icecast_ingest" where
  "ingest_new chunk_size =
     \<lparr>ig_chunk_size = chunk_size, ig_max_rate_bps = None, ig_transcode = None,
      ig_transcode_comments = [], ig_header_capture = False\<rparr>"

definition ingest_default :: icecast_ingest where
  "ingest_default = ingest_new 4096"

definition with_max_rate :: "nat \<Rightarrow> icecast_ingest \<Rightarrow> icecast_ingest" where
  "with_max_rate bps ig = ig\<lparr>ig_max_rate_bps := Some bps\<rparr>"

definition with_transcode :: "transcode_config \<Rightarrow> icecast_ingest \<Rightarrow> icecast_ingest" where
  "with_transcode tc ig = ig\<lparr>ig_transcode := Some tc\<rparr>"

definition with_transcode_comments :: "(string \<times> string) list \<Rightarrow> icecast_ingest \<Rightarrow> icecast_ingest" where
  "with_transcode_comments comments ig = ig\<lparr>ig_transcode_comments := comments\<rparr>"

definition with_header_capture :: "icecast_ingest \<Rightarrow> icecast_ingest" where
  "with_header_capture ig = ig\<lparr>ig_header_capture := True\<rparr>"

definition output_codec :: "icecast_ingest \<Rightarrow> codec_id \<Rightarrow> codec_id" where
  "output_codec ig source_codec =
     (case map_option tc_format (ig_transcode ig) of
        Some FmtMp3 \<Rightarrow> MP3
      | Some FmtVorbis \<Rightarrow> VORBIS
      | None \<Rightarrow> source_codec)"

section \<open>The reader task\<close>

text \<open>
  What a cancellable read observes. The end of the stream and a cancellation stay observable; a
  script that has run out is a reader that waits until it is aborted.
\<close>

datatype read_event = ReadCancel | ReadData "byte list" | ReadEnd | ReadFail io_err

datatype read_outcome = OutBytes "byte list" | OutEof | OutStop

record reader_task =
  rt_events :: "read_event list"
  rt_sent :: "byte list list"
  rt_error :: "io_err option"
  rt_cancelled :: bool

definition reader_new :: "read_event list \<Rightarrow> reader_task" where
  "reader_new evs = \<lparr>rt_events = evs, rt_sent = [], rt_error = None, rt_cancelled = False\<rparr>"

definition read_one :: "reader_task \<Rightarrow> read_outcome \<times> reader_task" where
  "read_one rt =
     (if rt_cancelled rt then (OutStop, rt)
      else (case rt_events rt of
              [] \<Rightarrow> (OutStop, rt)
            | ReadCancel # evs \<Rightarrow> (OutStop, rt\<lparr>rt_events := evs, rt_cancelled := True\<rparr>)
            | ReadEnd # evs \<Rightarrow> (OutEof, rt)
            | ReadData bs # evs \<Rightarrow> (OutBytes bs, rt\<lparr>rt_events := evs\<rparr>)
            | ReadFail e # evs \<Rightarrow> (OutStop, rt\<lparr>rt_events := evs, rt_error := Some e\<rparr>)))"

definition send_chunk :: "byte list \<Rightarrow> reader_task \<Rightarrow> reader_task" where
  "send_chunk bs rt = rt\<lparr>rt_sent := rt_sent rt @ [bs]\<rparr>"

definition flush_remaining :: "byte list \<Rightarrow> reader_task \<Rightarrow> reader_task" where
  "flush_remaining bs rt = (if bs \<noteq> [] then send_chunk bs rt else rt)"

definition id3_magic :: "byte list" where
  "id3_magic = bytes_of ''ID3''"

definition parse_id3v2_total :: "byte list \<Rightarrow> nat" where
  "parse_id3v2_total data =
     (if length data < 10 \<or> take 3 data \<noteq> id3_magic then 0
      else 10 + (unat (data ! 6 AND 0x7F) * 2 ^ 21 + unat (data ! 7 AND 0x7F) * 2 ^ 14 +
                 unat (data ! 8 AND 0x7F) * 2 ^ 7 + unat (data ! 9 AND 0x7F)))"

definition strip_xing :: "byte list \<Rightarrow> byte list" where
  "strip_xing pending = (case detect_xing_frame_end pending of Some e \<Rightarrow> drop e pending | None \<Rightarrow> pending)"

text \<open>The two accumulation loops: read until \<open>n\<close> bytes are there, the stream ends, or stop.\<close>

datatype gathered = Enough "byte list" | AtEof "byte list" | Stopped

lemma read_one_events:
  "read_one rt = (OutBytes bs, rt') \<Longrightarrow> length (rt_events rt') < length (rt_events rt)"
  by (auto simp: read_one_def split: if_splits list.splits read_event.splits)

function gather :: "nat \<Rightarrow> byte list \<Rightarrow> reader_task \<Rightarrow> gathered \<times> reader_task" where
  "gather n acc rt =
     (if length acc < n then
        (case read_one rt of
           (OutBytes bs, rt') \<Rightarrow> gather n (acc @ bs) rt'
         | (OutEof, rt') \<Rightarrow> (AtEof acc, rt')
         | (OutStop, rt') \<Rightarrow> (Stopped, rt'))
      else (Enough acc, rt))"
  by pat_completeness auto
termination
  by (relation "measure (\<lambda>(n, acc, rt). length (rt_events rt))") (auto dest: read_one_events [OF sym])

declare gather.simps [simp del]

text \<open>Discarding the rest of an ID3v2 tag: the bytes read beyond it, unless the stream stops first.\<close>

function skip_tag :: "nat \<Rightarrow> reader_task \<Rightarrow> byte list option \<times> reader_task" where
  "skip_tag to_skip rt =
     (if 0 < to_skip then
        (case read_one rt of
           (OutBytes bs, rt') \<Rightarrow>
             if length bs \<le> to_skip then skip_tag (to_skip - length bs) rt'
             else (Some (drop to_skip bs), rt')
         | (_, rt') \<Rightarrow> (None, rt'))
      else (Some [], rt))"
  by pat_completeness auto
termination
  by (relation "measure (\<lambda>(n, rt). length (rt_events rt))") (auto dest: read_one_events [OF sym])

declare skip_tag.simps [simp del]

definition after_id3 :: "byte list \<Rightarrow> reader_task \<Rightarrow> byte list option \<times> reader_task" where
  "after_id3 head rt =
     (let id3_total = parse_id3v2_total head in
      if id3_total = 0 then (Some head, rt)
      else if id3_total \<le> length head then (Some (drop id3_total head), rt)
      else skip_tag (id3_total - length head) rt)"

definition strip_mp3_prefix :: "reader_task \<Rightarrow> reader_task" where
  "strip_mp3_prefix rt =
     (case gather 10 [] rt of
        (AtEof head, rt1) \<Rightarrow> flush_remaining head rt1
      | (Stopped, rt1) \<Rightarrow> rt1
      | (Enough head, rt1) \<Rightarrow>
          (case after_id3 head rt1 of
             (None, rt2) \<Rightarrow> rt2
           | (Some pending, rt2) \<Rightarrow>
               (case gather 2048 pending rt2 of
                  (AtEof pending', rt3) \<Rightarrow> flush_remaining (strip_xing pending') rt3
                | (Stopped, rt3) \<Rightarrow> rt3
                | (Enough pending', rt3) \<Rightarrow> flush_remaining (strip_xing pending') rt3)))"

function forward_loop :: "reader_task \<Rightarrow> reader_task" where
  "forward_loop rt =
     (case read_one rt of
        (OutBytes bs, rt') \<Rightarrow> forward_loop (send_chunk bs rt')
      | (_, rt') \<Rightarrow> rt')"
  by pat_completeness auto
termination
  by (relation "measure (\<lambda>rt. length (rt_events rt))") (auto simp: send_chunk_def dest: read_one_events [OF sym])

declare forward_loop.simps [simp del]

definition drain_reader :: "codec_id \<Rightarrow> reader_task \<Rightarrow> reader_task" where
  "drain_reader codec rt =
     (if codec = MP3 then
        (let rt' = strip_mp3_prefix rt in
         if rt_cancelled rt' \<or> rt_error rt' \<noteq> None then rt' else forward_loop rt')
      else forward_loop rt)"

section \<open>What the reader forwards\<close>

text \<open>A source that sends these chunks and closes.\<close>

definition clean_source :: "byte list list \<Rightarrow> reader_task \<Rightarrow> bool" where
  "clean_source cs rt \<longleftrightarrow>
     rt_events rt = map ReadData cs @ [ReadEnd] \<and> \<not> rt_cancelled rt \<and> rt_error rt = None"

lemma read_one_clean:
  "clean_source cs rt \<Longrightarrow>
     (case cs of
        [] \<Rightarrow> read_one rt = (OutEof, rt)
      | c # cs' \<Rightarrow> (\<exists>rt'. read_one rt = (OutBytes c, rt') \<and> clean_source cs' rt' \<and> rt_sent rt' = rt_sent rt))"
  by (cases cs) (auto simp: clean_source_def read_one_def)

lemma clean_source_sent [simp]: "clean_source cs (rt\<lparr>rt_sent := xs\<rparr>) = clean_source cs rt"
  by (simp add: clean_source_def)

lemma gather_clean:
  "clean_source cs rt \<Longrightarrow>
     \<exists>ds cs' rt'. cs = ds @ cs' \<and> clean_source cs' rt' \<and> rt_sent rt' = rt_sent rt \<and>
       (gather n acc rt = (Enough (acc @ concat ds), rt') \<and> n \<le> length (acc @ concat ds) \<or>
        gather n acc rt = (AtEof (acc @ concat ds), rt') \<and> cs' = [] \<and> length (acc @ concat ds) < n)"
proof (induction cs arbitrary: acc rt)
  case Nil
  have r: "read_one rt = (OutEof, rt)" using read_one_clean [OF Nil] by simp
  show ?case
    by (rule exI [of _ "[]"], rule exI [of _ "[]"], rule exI [of _ rt])
      (use Nil r in \<open>auto simp: gather.simps [of n acc rt]\<close>)
next
  case (Cons c cs)
  obtain rt1 where r: "read_one rt = (OutBytes c, rt1)" "clean_source cs rt1" "rt_sent rt1 = rt_sent rt"
    using read_one_clean [OF Cons.prems] by auto
  show ?case
  proof (cases "length acc < n")
    case True
    obtain ds cs' rt' where *: "cs = ds @ cs'" "clean_source cs' rt'" "rt_sent rt' = rt_sent rt1"
      "gather n (acc @ c) rt1 = (Enough ((acc @ c) @ concat ds), rt') \<and> n \<le> length ((acc @ c) @ concat ds) \<or>
       gather n (acc @ c) rt1 = (AtEof ((acc @ c) @ concat ds), rt') \<and> cs' = [] \<and> length ((acc @ c) @ concat ds) < n"
      using Cons.IH [OF r(2), of "acc @ c"] by blast
    show ?thesis
      by (rule exI [of _ "c # ds"], rule exI [of _ cs'], rule exI [of _ rt'])
        (use * r True in \<open>simp add: gather.simps [of n acc rt]\<close>)
  next
    case False
    show ?thesis
      by (rule exI [of _ "[]"], rule exI [of _ "c # cs"], rule exI [of _ rt])
        (use Cons.prems False in \<open>simp add: gather.simps [of n acc rt]\<close>)
  qed
qed

lemma skip_tag_0 [simp]: "skip_tag 0 rt = (Some [], rt)"
  by (simp add: skip_tag.simps)

lemma skip_tag_clean:
  "clean_source cs rt \<Longrightarrow>
     \<exists>cs' rt'. clean_source cs' rt' \<and> rt_sent rt' = rt_sent rt \<and>
       (if n \<le> length (concat cs)
        then \<exists>left. skip_tag n rt = (Some left, rt') \<and> left @ concat cs' = drop n (concat cs)
        else skip_tag n rt = (None, rt') \<and> cs' = [])"
proof (induction cs arbitrary: n rt)
  case Nil
  have r: "read_one rt = (OutEof, rt)" using read_one_clean [OF Nil] by simp
  show ?case
    by (rule exI [of _ "[]"], rule exI [of _ rt])
      (use Nil r in \<open>auto simp: skip_tag.simps [of n rt]\<close>)
next
  case (Cons c cs)
  obtain rt1 where r: "read_one rt = (OutBytes c, rt1)" "clean_source cs rt1" "rt_sent rt1 = rt_sent rt"
    using read_one_clean [OF Cons.prems] by auto
  consider "n = 0" | "0 < n" "length c \<le> n" | "0 < n" "n < length c" by linarith
  then show ?case
  proof cases
    case 1
    then show ?thesis
      by (intro exI [of _ "c # cs"] exI [of _ rt]) (simp add: Cons.prems)
  next
    case 2
    obtain cs' rt' where *: "clean_source cs' rt'" "rt_sent rt' = rt_sent rt1"
      "if n - length c \<le> length (concat cs)
       then \<exists>left. skip_tag (n - length c) rt1 = (Some left, rt') \<and> left @ concat cs' = drop (n - length c) (concat cs)
       else skip_tag (n - length c) rt1 = (None, rt') \<and> cs' = []"
      using Cons.IH [OF r(2), of "n - length c"] by blast
    have "skip_tag n rt = skip_tag (n - length c) rt1" using 2 r by (simp add: skip_tag.simps [of n rt])
    with * r 2 show ?thesis
      by (intro exI [of _ cs'] exI [of _ rt']) (auto split: if_splits)
  next
    case 3
    with r show ?thesis
      by (intro exI [of _ cs] exI [of _ rt1]) (simp add: skip_tag.simps [of n rt])
  qed
qed

lemma forward_loop_clean:
  "clean_source cs rt \<Longrightarrow> rt_sent (forward_loop rt) = rt_sent rt @ cs"
proof (induction cs arbitrary: rt)
  case Nil
  then show ?case using read_one_clean [OF Nil] by (simp add: forward_loop.simps [of rt])
next
  case (Cons c cs)
  obtain rt1 where r: "read_one rt = (OutBytes c, rt1)" "clean_source cs rt1" "rt_sent rt1 = rt_sent rt"
    using read_one_clean [OF Cons.prems] by auto
  with Cons.IH [of "send_chunk c rt1"] show ?case
    by (simp add: forward_loop.simps [of rt] send_chunk_def)
qed

lemma parse_id3v2_prefix: "10 \<le> length head \<Longrightarrow> parse_id3v2_total (head @ rest) = parse_id3v2_total head"
  by (simp add: parse_id3v2_total_def nth_append)

lemma strip_xing_drop:
  "\<exists>x. strip_xing p = drop x p \<and> x \<le> length p \<and> (x = 0 \<or> detect_xing_frame_end p = Some x)"
  by (cases "detect_xing_frame_end p") (auto simp: strip_xing_def intro: detect_xing_end_le)

lemma after_id3_clean:
  assumes "clean_source cs rt" and "10 \<le> length head"
  shows "\<exists>cs' rt'. clean_source cs' rt' \<and> rt_sent rt' = rt_sent rt \<and>
    (if parse_id3v2_total head \<le> length (head @ concat cs)
     then \<exists>pending. after_id3 head rt = (Some pending, rt') \<and>
        pending @ concat cs' = drop (parse_id3v2_total head) (head @ concat cs)
     else after_id3 head rt = (None, rt') \<and> cs' = [])"
proof -
  let ?t = "parse_id3v2_total head"
  consider "?t = 0" | "0 < ?t" "?t \<le> length head" | "length head < ?t" by linarith
  then show ?thesis
  proof cases
    case 3
    obtain cs' rt' where s: "clean_source cs' rt'" "rt_sent rt' = rt_sent rt"
      "if ?t - length head \<le> length (concat cs)
       then \<exists>left. skip_tag (?t - length head) rt = (Some left, rt') \<and> left @ concat cs' = drop (?t - length head) (concat cs)
       else skip_tag (?t - length head) rt = (None, rt') \<and> cs' = []"
      using skip_tag_clean [OF assms(1), of "?t - length head"] by blast
    have a: "after_id3 head rt = skip_tag (?t - length head) rt"
      using 3 by (simp add: after_id3_def)
    show ?thesis
      by (rule exI [of _ cs'], rule exI [of _ rt']) (use s a 3 in \<open>auto split: if_splits\<close>)
  qed (use assms(1) in \<open>auto simp: after_id3_def\<close>)
qed

text \<open>What is left of an MP3 stream when its leading metadata is gone.\<close>

definition audio_part :: "byte list \<Rightarrow> byte list \<Rightarrow> bool" where
  "audio_part all out \<longleftrightarrow>
     (if length all < 10 then out = all
      else if length all < parse_id3v2_total all then out = []
      else \<exists>x. out = drop x (drop (parse_id3v2_total all) all) \<and>
        (x = 0 \<or> (\<exists>m. detect_xing_frame_end (take m (drop (parse_id3v2_total all) all)) = Some x)))"

lemma flush_remaining_sent [simp]:
  "concat (rt_sent (flush_remaining bs rt)) = concat (rt_sent rt) @ bs"
  "clean_source cs (flush_remaining bs rt) = clean_source cs rt"
  by (simp_all add: flush_remaining_def send_chunk_def)

lemma strip_mp3_prefix_clean:
  assumes "clean_source cs rt" and "rt_sent rt = []"
  shows "\<exists>cs'. clean_source cs' (strip_mp3_prefix rt) \<and>
    audio_part (concat cs) (concat (rt_sent (strip_mp3_prefix rt)) @ concat cs')"
proof -
  obtain ds cs1 rt1 where g: "cs = ds @ cs1" "clean_source cs1 rt1" "rt_sent rt1 = []"
    "gather 10 [] rt = (Enough (concat ds), rt1) \<and> 10 \<le> length (concat ds) \<or>
     gather 10 [] rt = (AtEof (concat ds), rt1) \<and> cs1 = [] \<and> length (concat ds) < 10"
    using gather_clean [OF assms(1), of 10 "[]"] assms(2) by auto
  from g(4) show ?thesis
  proof
    assume "gather 10 [] rt = (AtEof (concat ds), rt1) \<and> cs1 = [] \<and> length (concat ds) < 10"
    then have "strip_mp3_prefix rt = flush_remaining (concat ds) rt1" "cs1 = []" "length (concat ds) < 10"
      by (simp_all add: strip_mp3_prefix_def)
    with g show ?thesis by (intro exI [of _ "[]"]) (simp add: audio_part_def)
  next
    assume e: "gather 10 [] rt = (Enough (concat ds), rt1) \<and> 10 \<le> length (concat ds)"
    let ?head = "concat ds" and ?all = "concat cs"
    let ?t = "parse_id3v2_total ?all"
    have t: "parse_id3v2_total ?head = ?t" using e g(1) parse_id3v2_prefix [of ?head "concat cs1"] by simp
    have all: "?head @ concat cs1 = ?all" "10 \<le> length ?all" using g(1) e by simp_all
    obtain cs2 rt2 where a: "clean_source cs2 rt2" "rt_sent rt2 = []"
      "if ?t \<le> length ?all
       then \<exists>pending. after_id3 ?head rt1 = (Some pending, rt2) \<and> pending @ concat cs2 = drop ?t ?all
       else after_id3 ?head rt1 = (None, rt2) \<and> cs2 = []"
      using after_id3_clean [OF g(2), of ?head] e g(3) unfolding t all(1) by auto
    show ?thesis
    proof (cases "?t \<le> length ?all")
      case False
      then have "strip_mp3_prefix rt = rt2" using e a(3) by (simp add: strip_mp3_prefix_def)
      with a False all(2) show ?thesis
        by (intro exI [of _ "[]"]) (simp add: audio_part_def)
    next
      case True
      then obtain pending where p: "after_id3 ?head rt1 = (Some pending, rt2)" "pending @ concat cs2 = drop ?t ?all"
        using a(3) by auto
      obtain ds2 cs3 rt3 where h: "cs2 = ds2 @ cs3" "clean_source cs3 rt3" "rt_sent rt3 = []"
        "gather 2048 pending rt2 = (Enough (pending @ concat ds2), rt3) \<or>
         gather 2048 pending rt2 = (AtEof (pending @ concat ds2), rt3)"
        using gather_clean [OF a(1), of 2048 pending] a(2) by auto
      let ?p = "pending @ concat ds2"
      have s: "strip_mp3_prefix rt = flush_remaining (strip_xing ?p) rt3"
        using e p(1) h(4) by (auto simp: strip_mp3_prefix_def)
      obtain x where x: "strip_xing ?p = drop x ?p" "x \<le> length ?p" "x = 0 \<or> detect_xing_frame_end ?p = Some x"
        using strip_xing_drop by blast
      have d: "drop ?t ?all = ?p @ concat cs3" using p(2) h(1) by simp
      then have tk: "take (length ?p) (drop ?t ?all) = ?p" by simp
      have "drop x ?p @ concat cs3 = drop x (drop ?t ?all)" using x(2) unfolding d by simp
      moreover have "x = 0 \<or> (\<exists>m. detect_xing_frame_end (take m (drop ?t ?all)) = Some x)"
        using x(3) tk by metis
      ultimately have "audio_part ?all (drop x ?p @ concat cs3)"
        unfolding audio_part_def using True all(2) by auto
      then show ?thesis
        using h s x(1) by (intro exI [of _ cs3]) simp
    qed
  qed
qed

lemma drain_reader_audio:
  assumes "rt_events rt = map ReadData cs @ [ReadEnd]" and "\<not> rt_cancelled rt" and "rt_error rt = None"
    and "rt_sent rt = []"
  shows "if codec = MP3 then audio_part (concat cs) (concat (rt_sent (drain_reader codec rt)))
    else rt_sent (drain_reader codec rt) = cs"
proof -
  have c: "clean_source cs rt" using assms by (simp add: clean_source_def)
  obtain cs' where s: "clean_source cs' (strip_mp3_prefix rt)"
    "audio_part (concat cs) (concat (rt_sent (strip_mp3_prefix rt)) @ concat cs')"
    using strip_mp3_prefix_clean [OF c assms(4)] by blast
  then have "drain_reader MP3 rt = forward_loop (strip_mp3_prefix rt)"
    by (simp add: drain_reader_def clean_source_def)
  then show ?thesis
    using s forward_loop_clean [OF s(1)] forward_loop_clean [OF c] assms(4)
    by (simp add: drain_reader_def)
qed

text \<open>
  The reader of a source that sends some chunks and closes forwards every byte of a
  stream that is not MP3, chunk by chunk. Of an MP3 stream it forwards a suffix: all of it when
  it has fewer than ten bytes, nothing when the ID3v2 tag it announces never ends, and otherwise
  everything behind the tag and behind at most one Xing/Info frame detected there, however the
  network cut the stream.
\<close>

theorem drain_reader_forwards:
  "if codec = MP3
   then audio_part (concat cs) (concat (rt_sent (drain_reader codec (reader_new (map ReadData cs @ [ReadEnd])))))
   else rt_sent (drain_reader codec (reader_new (map ReadData cs @ [ReadEnd]))) = cs"
  by (rule drain_reader_audio) (simp_all add: reader_new_def)

section \<open>The publisher task\<close>

text \<open>
  What the publisher's \<open>select!\<close> observes: cancellation, the reader's abort with its error, the
  end of the channel, or a chunk. With a chunk come the readings of the clock (nanoseconds since
  the start) for the packet's timestamp and for pacing, and what ends the pacing sleep if there
  is one.
\<close>

datatype sleep_end = Slept | SleepCancelled | SleepAborted io_err

datatype pub_event =
  PubCancelled | PubAborted io_err | PubClosed nat nat | PubChunk "byte list" nat nat sleep_end

record ('i, 'r, 'l, 'v) publisher =
  pu_bus :: bus
  pu_stats :: source_stats
  pu_pipeline :: "('i, 'r, 'l, 'v) pipeline option"
  pu_capture :: "ogg_capture option"
  pu_sink :: "byte list option"
  pu_source_rate :: "nat option"
  pu_rate_locked :: bool
  pu_output_bytes :: nat

datatype ('i, 'r, 'l, 'v) ingest_result =
  IngestReturns "ingest_error + source_stats" "('i, 'r, 'l, 'v) publisher"
| IngestWaiting "('i, 'r, 'l, 'v) publisher"
| IngestPanics
| IngestDiverges

fun io_text :: "io_err \<Rightarrow> string" where
  "io_text (IoErr k s) = s"

definition publisher_start ::
  "icecast_ingest \<Rightarrow> codec_id \<Rightarrow> bus \<Rightarrow> byte list option \<Rightarrow> ingest_error + ('i, 'r, 'l, 'v) publisher" where
  "publisher_start ig codec b sink =
     (case (case ig_transcode ig of
              None \<Rightarrow> Inr None
            | Some cfg \<Rightarrow>
                (case pipeline_new cfg codec (ig_transcode_comments ig) of
                   Inl e \<Rightarrow> Inl e | Inr pl \<Rightarrow> Inr (Some pl))) of
        Inl e \<Rightarrow> Inl (TranscodeInit ''transcoder'')
      | Inr pipeline \<Rightarrow>
          Inr \<lparr>pu_bus = b, pu_stats = default_source_stats, pu_pipeline = pipeline,
               pu_capture = (if output_codec ig codec = VORBIS \<and> ig_header_capture ig then Some capture_new else None),
               pu_sink = sink, pu_source_rate = ig_max_rate_bps ig,
               pu_rate_locked = (ig_max_rate_bps ig \<noteq> None), pu_output_bytes = 0\<rparr>)"

definition detect_rate :: "codec_id \<Rightarrow> byte list \<Rightarrow> ('i, 'r, 'l, 'v) publisher \<Rightarrow> ('i, 'r, 'l, 'v) publisher" where
  "detect_rate codec data pu =
     (if pu_rate_locked pu then pu
      else if codec = MP3 \<and> scan_bitrate_bps data \<noteq> None then
        pu\<lparr>pu_source_rate := scan_bitrate_bps data, pu_rate_locked := True\<rparr>
      else if codec = VORBIS \<and> scan_nominal_bitrate_bps data \<noteq> None then
        pu\<lparr>pu_source_rate := scan_nominal_bitrate_bps data, pu_rate_locked := True\<rparr>
      else pu)"

definition publish_packet ::
  "codec_id \<Rightarrow> nat \<Rightarrow> byte list \<Rightarrow> ('i, 'r, 'l, 'v) publisher \<Rightarrow> ('i, 'r, 'l, 'v) publisher" where
  "publish_packet out_codec pts data pu =
     pu\<lparr>pu_bus := publish (pu_bus pu)
          \<lparr>sp_payload = Encoded \<lparr>ep_codec = out_codec, ep_data = data\<rparr>, sp_pts = pts,
           sp_sequence = ss_packets_published (pu_stats pu)\<rparr>,
        pu_stats := (pu_stats pu)\<lparr>ss_packets_published := ss_packets_published (pu_stats pu) + 1\<rparr>\<rparr>"

definition feed_capture :: "byte list \<Rightarrow> ('i, 'r, 'l, 'v) publisher \<Rightarrow> ('i, 'r, 'l, 'v) publisher" where
  "feed_capture data pu =
     (case pu_capture pu of
        None \<Rightarrow> pu
      | Some cap \<Rightarrow>
          (let cap' = capture_push cap data in
           if is_settled cap' then
             pu\<lparr>pu_capture := None,
                pu_sink := (case header_bytes cap' of Some h \<Rightarrow> Some h | None \<Rightarrow> pu_sink pu)\<rparr>
           else pu\<lparr>pu_capture := Some cap'\<rparr>))"

text \<open>A published chunk: the output byte count, the header capture, the packet.\<close>

definition emit ::
  "codec_id \<Rightarrow> nat \<Rightarrow> byte list \<Rightarrow> ('i, 'r, 'l, 'v) publisher \<Rightarrow> ('i, 'r, 'l, 'v) publisher" where
  "emit out_codec pts data pu =
     publish_packet out_codec pts data
       (feed_capture data (pu\<lparr>pu_output_bytes := pu_output_bytes pu + length data\<rparr>))"

text \<open>The chunk through the transcoder; a transcode error drops the packet.\<close>

definition transcode_chunk ::
  "('i, 'p, 'r, 'l, 'v) media_libs \<Rightarrow> byte list \<Rightarrow> ('i, 'r, 'l, 'v) publisher \<Rightarrow>
     (byte list option \<times> ('i, 'r, 'l, 'v) publisher) outcome" where
  "transcode_chunk libs data pu =
     (case pu_pipeline pu of
        None \<Rightarrow> Returns (Some data, pu)
      | Some pl \<Rightarrow>
          (case pipeline_push libs pl data of
             Diverges \<Rightarrow> Diverges
           | Panics \<Rightarrow> Panics
           | Returns (Inl e, pl') \<Rightarrow> Returns (None, pu\<lparr>pu_pipeline := Some pl'\<rparr>)
           | Returns (Inr b, pl') \<Rightarrow>
               Returns (if b = [] then None else Some b, pu\<lparr>pu_pipeline := Some pl'\<rparr>)))"

text \<open>
  Pacing. \<open>Duration::from_secs_f64\<close> panics on an infinite or undefined number, which a rate of zero
  gives; the rounding of the floating-point quotient is not modelled.
\<close>

definition pacing_metric :: "icecast_ingest \<Rightarrow> ('i, 'r, 'l, 'v) publisher \<Rightarrow> nat \<times> nat option" where
  "pacing_metric ig pu =
     (case map_option (\<lambda>tc. tc_bitrate_kbps tc * 1000 div 8) (ig_transcode ig) of
        Some obps \<Rightarrow>
          if 0 < pu_output_bytes pu then (pu_output_bytes pu, Some obps)
          else (ss_bytes_received (pu_stats pu), pu_source_rate pu)
      | None \<Rightarrow> (ss_bytes_received (pu_stats pu), pu_source_rate pu))"

definition pacing_target :: "nat \<Rightarrow> nat \<Rightarrow> nat option" where
  "pacing_target bytes bps = (if bps = 0 then None else Some (bytes * 10 ^ 9 div bps))"

datatype pace = PacePanics | PaceOn | PaceStops ingest_error

definition pace_chunk :: "icecast_ingest \<Rightarrow> nat \<Rightarrow> sleep_end \<Rightarrow> ('i, 'r, 'l, 'v) publisher \<Rightarrow> pace" where
  "pace_chunk ig elapsed sleep pu =
     (case pacing_metric ig pu of
        (bytes, None) \<Rightarrow> PaceOn
      | (bytes, Some bps) \<Rightarrow>
          (case pacing_target bytes bps of
             None \<Rightarrow> PacePanics
           | Some target \<Rightarrow>
               if elapsed < target then
                 (case sleep of
                    Slept \<Rightarrow> PaceOn
                  | SleepCancelled \<Rightarrow> PaceStops IngestCancelled
                  | SleepAborted e \<Rightarrow> PaceStops (IngestIo (io_text e)))
               else PaceOn))"

definition receive_chunk ::
  "codec_id \<Rightarrow> byte list \<Rightarrow> ('i, 'r, 'l, 'v) publisher \<Rightarrow> ('i, 'r, 'l, 'v) publisher" where
  "receive_chunk codec data pu =
     (let pu1 = detect_rate codec data pu
      in pu1\<lparr>pu_stats := (pu_stats pu1)\<lparr>ss_bytes_received := ss_bytes_received (pu_stats pu1) + length data\<rparr>\<rparr>)"

text \<open>The end of the source: the tail of the transcoder is published, errors are logged.\<close>

definition finish_source ::
  "('i, 'p, 'r, 'l, 'v) media_libs \<Rightarrow> codec_id \<Rightarrow> nat \<Rightarrow> ('i, 'r, 'l, 'v) publisher \<Rightarrow>
     ('i, 'r, 'l, 'v) publisher outcome" where
  "finish_source libs out_codec pts pu =
     (case pu_pipeline pu of
        None \<Rightarrow> Returns pu
      | Some pl \<Rightarrow>
          (case pipeline_flush libs pl of
             Diverges \<Rightarrow> Diverges
           | Panics \<Rightarrow> Panics
           | Returns (Inl e, pl') \<Rightarrow> Returns (pu\<lparr>pu_pipeline := Some pl'\<rparr>)
           | Returns (Inr tail, pl') \<Rightarrow>
               Returns (if tail = [] then pu\<lparr>pu_pipeline := Some pl'\<rparr>
                        else publish_packet out_codec pts tail (pu\<lparr>pu_pipeline := Some pl'\<rparr>))))"

fun publish_loop ::
  "('i, 'p, 'r, 'l, 'v) media_libs \<Rightarrow> icecast_ingest \<Rightarrow> codec_id \<Rightarrow> pub_event list \<Rightarrow>
     ('i, 'r, 'l, 'v) publisher \<Rightarrow> ('i, 'r, 'l, 'v) ingest_result" where
  "publish_loop libs ig codec [] pu = IngestWaiting pu"
| "publish_loop libs ig codec (PubCancelled # evs) pu = IngestReturns (Inl IngestCancelled) pu"
| "publish_loop libs ig codec (PubAborted e # evs) pu = IngestReturns (Inl (IngestIo (io_text e))) pu"
| "publish_loop libs ig codec (PubClosed pts elapsed # evs) pu =
     (case finish_source libs (output_codec ig codec) pts pu of
        Diverges \<Rightarrow> IngestDiverges
      | Panics \<Rightarrow> IngestPanics
      | Returns pu' \<Rightarrow> IngestReturns (Inr ((pu_stats pu')\<lparr>ss_duration := elapsed\<rparr>)) pu')"
| "publish_loop libs ig codec (PubChunk data pts elapsed sleep # evs) pu =
     (case transcode_chunk libs data (receive_chunk codec data pu) of
        Diverges \<Rightarrow> IngestDiverges
      | Panics \<Rightarrow> IngestPanics
      | Returns (out, pu1) \<Rightarrow>
          (let pu2 = (case out of None \<Rightarrow> pu1 | Some d \<Rightarrow> emit (output_codec ig codec) pts d pu1) in
           case pace_chunk ig elapsed sleep pu2 of
             PacePanics \<Rightarrow> IngestPanics
           | PaceStops e \<Rightarrow> IngestReturns (Inl e) pu2
           | PaceOn \<Rightarrow> publish_loop libs ig codec evs pu2))"

definition ingest_run ::
  "('i, 'p, 'r, 'l, 'v) media_libs \<Rightarrow> icecast_ingest \<Rightarrow> codec_id \<Rightarrow> bus \<Rightarrow> byte list option \<Rightarrow>
     pub_event list \<Rightarrow> ('i, 'r, 'l, 'v) ingest_result" where
  "ingest_run libs ig codec b sink evs =
     (case publisher_start ig codec b sink of
        Inl e \<Rightarrow> IngestReturns (Inl e)
          \<lparr>pu_bus = b, pu_stats = default_source_stats, pu_pipeline = None, pu_capture = None, pu_sink = sink,
           pu_source_rate = None, pu_rate_locked = False, pu_output_bytes = 0\<rparr>
      | Inr pu \<Rightarrow> publish_loop libs ig codec evs pu)"

section \<open>What is published\<close>

lemma emit_sel [simp]:
  "bs_sent (pu_bus (emit c pts d pu)) = bs_sent (pu_bus pu) @
     [\<lparr>sp_payload = Encoded \<lparr>ep_codec = c, ep_data = d\<rparr>, sp_pts = pts,
       sp_sequence = ss_packets_published (pu_stats pu)\<rparr>]"
  "ss_packets_published (pu_stats (emit c pts d pu)) = Suc (ss_packets_published (pu_stats pu))"
  "ss_bytes_received (pu_stats (emit c pts d pu)) = ss_bytes_received (pu_stats pu)"
  "pu_pipeline (emit c pts d pu) = pu_pipeline pu"
  by (simp_all add: emit_def publish_packet_def feed_capture_def Let_def split: option.split)

lemma receive_chunk_sel [simp]:
  "pu_bus (receive_chunk codec d pu) = pu_bus pu"
  "pu_pipeline (receive_chunk codec d pu) = pu_pipeline pu"
  "ss_bytes_received (pu_stats (receive_chunk codec d pu)) = ss_bytes_received (pu_stats pu) + length d"
  "ss_packets_published (pu_stats (receive_chunk codec d pu)) = ss_packets_published (pu_stats pu)"
  by (simp_all add: receive_chunk_def detect_rate_def Let_def)

text \<open>The packets an ingest adds to the bus carry consecutive sequence numbers and the output codec.\<close>

definition run_published :: "codec_id \<Rightarrow> nat \<Rightarrow> stream_packet list \<Rightarrow> bool" where
  "run_published c n ps \<longleftrightarrow>
     (\<forall>i<length ps. sp_sequence (ps ! i) = n + i \<and>
        (\<exists>d. sp_payload (ps ! i) = Encoded \<lparr>ep_codec = c, ep_data = d\<rparr>))"

definition published_from :: "codec_id \<Rightarrow> ('i, 'r, 'l, 'v) publisher \<Rightarrow> ('i, 'r, 'l, 'v) publisher \<Rightarrow> bool" where
  "published_from c pu pu' \<longleftrightarrow>
     (\<exists>ps. bs_sent (pu_bus pu') = bs_sent (pu_bus pu) @ ps \<and>
        run_published c (ss_packets_published (pu_stats pu)) ps \<and>
        ss_packets_published (pu_stats pu') = ss_packets_published (pu_stats pu) + length ps)"

lemma published_from_refl: "bs_sent (pu_bus pu') = bs_sent (pu_bus pu) \<Longrightarrow>
    ss_packets_published (pu_stats pu') = ss_packets_published (pu_stats pu) \<Longrightarrow> published_from c pu pu'"
  by (auto simp: published_from_def run_published_def)

lemma published_from_one:
  "bs_sent (pu_bus pu') = bs_sent (pu_bus pu) @ [\<lparr>sp_payload = Encoded \<lparr>ep_codec = c, ep_data = d\<rparr>, sp_pts = t,
       sp_sequence = ss_packets_published (pu_stats pu)\<rparr>] \<Longrightarrow>
    ss_packets_published (pu_stats pu') = Suc (ss_packets_published (pu_stats pu)) \<Longrightarrow> published_from c pu pu'"
  by (auto simp: published_from_def run_published_def)

lemma published_from_trans: "published_from c p q \<Longrightarrow> published_from c q r \<Longrightarrow> published_from c p r"
  unfolding published_from_def run_published_def
  by (elim exE conjE, rule exI [where x = "_ @ _"]) (auto simp: nth_append)

lemma transcode_chunk_sel:
  "transcode_chunk libs d pu = Returns (out, pu') \<Longrightarrow> pu_bus pu' = pu_bus pu \<and> pu_stats pu' = pu_stats pu"
  by (auto simp: transcode_chunk_def split: option.splits outcome.splits sum.splits)

lemma finish_source_published:
  "finish_source libs c t pu = Returns pu' \<Longrightarrow> published_from c pu pu'"
  by (auto simp: finish_source_def publish_packet_def published_from_def run_published_def
      split: option.splits outcome.splits sum.splits if_splits)

lemma chunk_published:
  assumes "transcode_chunk libs d (receive_chunk codec d pu) = Returns (out, pu1)"
  shows "published_from c pu (case out of None \<Rightarrow> pu1 | Some x \<Rightarrow> emit c t x pu1)"
  using transcode_chunk_sel [OF assms]
  by (cases out) (auto intro: published_from_refl simp: published_from_def run_published_def)

definition result_state :: "('i, 'r, 'l, 'v) ingest_result \<Rightarrow> ('i, 'r, 'l, 'v) publisher option" where
  "result_state r = (case r of IngestReturns _ pu \<Rightarrow> Some pu | IngestWaiting pu \<Rightarrow> Some pu | _ \<Rightarrow> None)"

lemma publish_loop_published:
  "result_state (publish_loop libs ig codec evs pu) = Some pu' \<Longrightarrow> published_from (output_codec ig codec) pu pu'"
proof (induction libs ig codec evs pu rule: publish_loop.induct)
  case (4 libs ig codec t e evs pu)
  then show ?case
    by (auto simp: result_state_def split: outcome.splits intro: finish_source_published)
next
  case (5 libs ig codec d t e sl evs pu)
  obtain out pu1 where tc: "transcode_chunk libs d (receive_chunk codec d pu) = Returns (out, pu1)"
    using "5.prems" by (auto simp: result_state_def split: outcome.splits)
  define pu2 where "pu2 = (case out of None \<Rightarrow> pu1 | Some x \<Rightarrow> emit (output_codec ig codec) t x pu1)"
  have one: "published_from (output_codec ig codec) pu pu2"
    unfolding pu2_def by (rule chunk_published [OF tc])
  show ?case
  proof (cases "pace_chunk ig e sl pu2")
    case PaceOn
    with "5.prems" tc have "result_state (publish_loop libs ig codec evs pu2) = Some pu'"
      by (simp add: pu2_def)
    with "5.IH" [OF tc refl pu2_def PaceOn] one show ?thesis
      by (blast intro: published_from_trans)
  qed (use "5.prems" tc one in \<open>auto simp: result_state_def pu2_def\<close>)
qed (auto simp: result_state_def intro: published_from_refl)

lemma publisher_start_ok: "\<exists>pu. publisher_start ig codec b sink = Inr pu"
  by (cases "ig_transcode ig") (simp_all add: publisher_start_def pipeline_new_def)

lemma publisher_start_sel:
  "publisher_start ig codec b sink = Inr pu \<Longrightarrow> pu_bus pu = b \<and> pu_stats pu = default_source_stats \<and>
     pu_source_rate pu = ig_max_rate_bps ig \<and> pu_rate_locked pu = (ig_max_rate_bps ig \<noteq> None) \<and>
     (ig_transcode ig = None \<longrightarrow> pu_pipeline pu = None)"
  by (auto simp: publisher_start_def split: sum.splits option.splits)

text \<open>
  Claim C6. Whatever the transcoder does and however the session goes, what an ingest leaves on
  the bus is what was there followed by its own packets: all of them encoded with the output
  codec of the mount, numbered 0, 1, 2 and so on without a gap, as many as the statistics count.
  Starting an ingest never fails, so the transcoder-initialisation error is never returned.
\<close>

theorem ingest_publishes_sequence:
  fixes libs :: "('i, 'p, 'r, 'l, 'v) media_libs"
  assumes "result_state (ingest_run libs ig codec b sink evs) = Some pu'"
  shows "(\<exists>ps. bs_sent (pu_bus pu') = bs_sent b @ ps \<and> run_published (output_codec ig codec) 0 ps \<and>
      ss_packets_published (pu_stats pu') = length ps) \<and>
    (\<nexists>e. publisher_start ig codec b sink = (Inl e :: ingest_error + ('i, 'r, 'l, 'v) publisher))"
proof -
  obtain pu :: "('i, 'r, 'l, 'v) publisher" where pu: "publisher_start ig codec b sink = Inr pu"
    using publisher_start_ok by blast
  with assms have "published_from (output_codec ig codec) pu pu'"
    by (auto simp: ingest_run_def intro: publish_loop_published)
  moreover have "\<nexists>e. publisher_start ig codec b sink = (Inl e :: ingest_error + ('i, 'r, 'l, 'v) publisher)"
    using pu by auto
  ultimately show ?thesis
    using publisher_start_sel [OF pu] by (auto simp: published_from_def default_source_stats_def)
qed

definition audio_of :: "stream_packet list \<Rightarrow> byte list list" where
  "audio_of ps = map (\<lambda>p. case sp_payload p of Encoded e \<Rightarrow> ep_data e | Decoded _ \<Rightarrow> []) ps"

text \<open>A rate of zero is never detected in an MP3 stream.\<close>

lemma mpeg1_rate_pos: "mp3_probe h = Some info \<Longrightarrow> ci_bitrate_kbps info = Some k \<Longrightarrow> 0 < k * 1000 div 8"
proof -
  assume p: "mp3_probe h = Some info" "ci_bitrate_kbps info = Some k"
  then have "mpeg1_l3_bitrates ! br_index h = Some k"
    by (auto simp: mp3_probe_def Let_def split: if_splits option.splits)
  then have "32 \<le> k"
    using mpeg1_bitrate_range br_index_lt by blast
  then show ?thesis by simp
qed

lemma scan_bitrate_pos: "scan_bitrate_bps d \<noteq> Some 0"
  using mpeg1_rate_pos by (fastforce dest: scan_bitrate_SomeD)

definition rate_ok :: "('i, 'r, 'l, 'v) publisher \<Rightarrow> bool" where
  "rate_ok pu \<longleftrightarrow> pu_source_rate pu \<noteq> Some 0"

lemma rate_ok_step:
  "rate_ok pu \<Longrightarrow> codec \<noteq> VORBIS \<or> scan_nominal_bitrate_bps d \<noteq> Some 0 \<Longrightarrow>
     rate_ok (emit c t x (receive_chunk codec d pu))"
  by (auto simp: rate_ok_def emit_def publish_packet_def feed_capture_def receive_chunk_def detect_rate_def
      Let_def scan_bitrate_pos split: option.splits)

lemma pace_chunk_on:
  "ig_transcode ig = None \<Longrightarrow> rate_ok pu \<Longrightarrow> pace_chunk ig e Slept pu = PaceOn"
  by (auto simp: pace_chunk_def pacing_metric_def pacing_target_def rate_ok_def split: option.splits)

lemma audio_of_append: "audio_of (ps @ qs) = audio_of ps @ audio_of qs"
  by (simp add: audio_of_def)

text \<open>A chunk with the two clock readings that go with it, and a pacing sleep nothing disturbs.\<close>

fun timed_chunk :: "byte list \<times> nat \<times> nat \<Rightarrow> pub_event" where
  "timed_chunk (d, t, e) = PubChunk d t e Slept"

lemma publish_loop_passthrough:
  "ig_transcode ig = None \<Longrightarrow> pu_pipeline pu = None \<Longrightarrow> rate_ok pu \<Longrightarrow>
   codec \<noteq> VORBIS \<or> (\<forall>d\<in>fst ` set ds. scan_nominal_bitrate_bps d \<noteq> Some 0) \<Longrightarrow>
     \<exists>pu' ps. publish_loop libs ig codec (map timed_chunk ds @ [PubClosed t' e']) pu =
         IngestReturns (Inr ((pu_stats pu')\<lparr>ss_duration := e'\<rparr>)) pu' \<and>
       bs_sent (pu_bus pu') = bs_sent (pu_bus pu) @ ps \<and> audio_of ps = map fst ds \<and>
       ss_bytes_received (pu_stats pu') = ss_bytes_received (pu_stats pu) + length (concat (map fst ds))"
proof (induction ds arbitrary: pu)
  case Nil
  then show ?case by (auto simp: finish_source_def audio_of_def)
next
  case (Cons c ds)
  obtain d t e where c: "c = (d, t, e)" by (cases c)
  define pu2 where "pu2 = emit (output_codec ig codec) t d (receive_chunk codec d pu)"
  have tc: "transcode_chunk libs d (receive_chunk codec d pu) = Returns (Some d, receive_chunk codec d pu)"
    using Cons.prems(2) by (simp add: transcode_chunk_def)
  have ok: "rate_ok pu2" using Cons.prems c unfolding pu2_def by (intro rate_ok_step) auto
  then obtain pu' ps where *:
    "publish_loop libs ig codec (map timed_chunk ds @ [PubClosed t' e']) pu2 =
       IngestReturns (Inr ((pu_stats pu')\<lparr>ss_duration := e'\<rparr>)) pu'"
    "bs_sent (pu_bus pu') = bs_sent (pu_bus pu2) @ ps" "audio_of ps = map fst ds"
    "ss_bytes_received (pu_stats pu') = ss_bytes_received (pu_stats pu2) + length (concat (map fst ds))"
    using Cons.IH [of pu2] Cons.prems by (auto simp: pu2_def)
  let ?p = "\<lparr>sp_payload = Encoded \<lparr>ep_codec = output_codec ig codec, ep_data = d\<rparr>, sp_pts = t,
       sp_sequence = ss_packets_published (pu_stats pu)\<rparr>"
  have "audio_of (?p # ps) = map fst (c # ds)" using *(3) c by (simp add: audio_of_def)
  moreover have "bs_sent (pu_bus pu') = bs_sent (pu_bus pu) @ ?p # ps" using *(2) by (simp add: pu2_def)
  moreover have "ss_bytes_received (pu_stats pu') = ss_bytes_received (pu_stats pu) + length (concat (map fst (c # ds)))"
    using *(4) c by (simp add: pu2_def)
  moreover have "publish_loop libs ig codec (map timed_chunk (c # ds) @ [PubClosed t' e']) pu =
      IngestReturns (Inr ((pu_stats pu')\<lparr>ss_duration := e'\<rparr>)) pu'"
    using tc c *(1) pace_chunk_on [OF Cons.prems(1) ok] by (simp add: pu2_def)
  ultimately show ?case by blast
qed

text \<open>
  Claim C7. Without transcoding the ingest is transparent: on a source that is read to its end,
  the audio added to the bus is exactly the sequence of chunks received, the run succeeds, and
  the statistics count every byte and every packet; provided no rate of zero is configured or
  announced by the stream.
\<close>

theorem ingest_passthrough_exact:
  fixes libs :: "('i, 'p, 'r, 'l, 'v) media_libs"
  assumes "ig_transcode ig = None" and "ig_max_rate_bps ig \<noteq> Some 0"
    and "codec \<noteq> VORBIS \<or> (\<forall>d\<in>fst ` set ds. scan_nominal_bitrate_bps d \<noteq> Some 0)"
  shows "\<exists>stats pu' ps. ingest_run libs ig codec b sink
        (map timed_chunk ds @ [PubClosed t' e']) = IngestReturns (Inr stats) pu' \<and>
      bs_sent (pu_bus pu') = bs_sent b @ ps \<and> audio_of ps = map fst ds \<and>
      ss_bytes_received stats = length (concat (map fst ds))"
proof -
  obtain pu :: "('i, 'r, 'l, 'v) publisher" where pu: "publisher_start ig codec b sink = Inr pu" using publisher_start_ok by blast
  then have "rate_ok pu" "pu_pipeline pu = None" "pu_bus pu = b" "ss_bytes_received (pu_stats pu) = 0"
    using publisher_start_sel [OF pu] assms(1,2) by (simp_all add: rate_ok_def default_source_stats_def)
  with publish_loop_passthrough [OF assms(1) _ _ assms(3), of pu libs t' e'] pu show ?thesis
    by (auto simp: ingest_run_def)
qed

definition passthrough_ingest :: icecast_ingest where
  "passthrough_ingest = ingest_default"

theorem ingest_passthrough_exact_witness:
  "\<exists>stats pu' ps. ingest_run mute_libs passthrough_ingest AAC (bus_new 8 100) None
      (map timed_chunk [([1, 2], 0, 0), ([3], 7, 1)] @ [PubClosed 9 5]) = IngestReturns (Inr stats) pu' \<and>
    bs_sent (pu_bus pu') = ps \<and> audio_of ps = [[1, 2], [3]] \<and> ss_bytes_received stats = 3"
  using ingest_passthrough_exact [of passthrough_ingest AAC "[([1, 2], 0, 0), ([3], 7, 1)]" mute_libs "bus_new 8 100" None 9 5]
  by (simp add: passthrough_ingest_def ingest_default_def ingest_new_def bus_new_def numeral_3_eq_3)

theorem ingest_publishes_sequence_witness:
  "\<exists>pu'. result_state (ingest_run mute_libs passthrough_ingest AAC (bus_new 8 100) None [PubChunk [7] 0 0 Slept]) = Some pu' \<and>
    (\<exists>ps. bs_sent (pu_bus pu') = ps \<and> run_published AAC 0 ps \<and> ss_packets_published (pu_stats pu') = length ps)"
proof -
  obtain pu' where r: "result_state (ingest_run mute_libs passthrough_ingest AAC (bus_new 8 100) None [PubChunk [7] 0 0 Slept]) = Some pu'"
    by (simp add: result_state_def ingest_run_def publisher_start_def passthrough_ingest_def ingest_default_def
        ingest_new_def transcode_chunk_def receive_chunk_def detect_rate_def pace_chunk_def pacing_metric_def
        emit_def feed_capture_def publish_packet_def output_codec_def)
  from ingest_publishes_sequence [OF r] r show ?thesis
    by (auto simp: bus_new_def output_codec_def passthrough_ingest_def ingest_default_def ingest_new_def)
qed

text \<open>
  A rate of zero takes the ingest down: with \<open>source_max_kbps\<close> configured as zero, or on a
  Vorbis stream whose identification header states a nominal bitrate below 1000 bits per second,
  the first chunk makes the pacing divide by zero and the task panic instead of returning.
\<close>

theorem zero_rate_panics:
  fixes libs :: "('i, 'p, 'r, 'l, 'v) media_libs"
  assumes "ig_transcode ig = None"
    and "ig_max_rate_bps ig = Some 0 \<or>
      ig_max_rate_bps ig = None \<and> codec = VORBIS \<and> scan_nominal_bitrate_bps d = Some 0"
  shows "ingest_run libs ig codec b sink (PubChunk d t e sl # evs) = IngestPanics"
proof -
  obtain pu :: "('i, 'r, 'l, 'v) publisher" where pu: "publisher_start ig codec b sink = Inr pu" using publisher_start_ok by blast
  note sel = publisher_start_sel [OF pu]
  have "pu_source_rate (receive_chunk codec d pu) = Some 0"
    using sel assms(2) by (auto simp: receive_chunk_def detect_rate_def Let_def)
  then have "pu_source_rate (emit c t d (receive_chunk codec d pu)) = Some 0" for c
    by (simp add: emit_def publish_packet_def feed_capture_def Let_def split: option.split)
  then show ?thesis
    using pu sel assms(1)
    by (simp add: ingest_run_def transcode_chunk_def pace_chunk_def pacing_metric_def pacing_target_def)
qed

lemma scan_nominal_bos:
  assumes "0 < sr" and "sr < 2 ^ 32" and "channels \<noteq> 0" and "0 < nominal" and "nominal < 2 ^ 31"
  shows "scan_nominal_bitrate_bps (bos_page sr channels nominal @ rest) = Some (nominal div 1000 * 1000 div 8)"
proof -
  let ?d = "bos_page sr channels nominal @ rest"
  obtain b bs where d: "?d = b # bs" by (cases ?d) (auto simp: bos_page_def ogg_magic_def bytes_of_def)
  have "length ?d \<ge> 58" "take 4 ?d = ogg_magic"
    using bos_page_parts [OF refl, of sr channels nominal rest] by simp_all
  with vorbis_probe_bos [OF assms, of rest] show ?thesis unfolding d by simp
qed

theorem zero_rate_panics_witness:
  "ingest_run mute_libs (with_max_rate (0 * 1000 div 8) ingest_default) MP3 (bus_new 8 100) None [PubChunk [1] 0 0 Slept] = IngestPanics \<and>
   ingest_run mute_libs ingest_default VORBIS (bus_new 8 100) None [PubChunk (bos_page 44100 2 500) 0 0 Slept] = IngestPanics"
proof
  show "ingest_run mute_libs (with_max_rate (0 * 1000 div 8) ingest_default) MP3 (bus_new 8 100) None
      [PubChunk [1] 0 0 Slept] = IngestPanics"
    by (rule zero_rate_panics) (simp_all add: with_max_rate_def ingest_default_def ingest_new_def)
  show "ingest_run mute_libs ingest_default VORBIS (bus_new 8 100) None [PubChunk (bos_page 44100 2 500) 0 0 Slept] =
      IngestPanics"
    using scan_nominal_bos [of 44100 2 500 "[]"]
    by (intro zero_rate_panics) (simp_all add: ingest_default_def ingest_new_def)
qed

end
