(* ===== verification/Source_Session.thy ===== *)
theory Source_Session
  imports App_State Source_Head Icecast_Ingest
begin

text \<open>
  A source connection from its parsed head to its end: \<open>handle_source_connection\<close> of
  \<open>source_protocol.rs\<close> with mount resolution, pre-emption of a relay or AutoDJ, dynamic mounts, the
  construction of the ingest and the cleanup guard. While the handler waits for an owner to let go
  the other tasks run: what they do during each wait is an argument. So is the run of the ingest
  itself, which \<open>Icecast_Ingest\<close> models, and the outcome of writing to the client.
\<close>

section \<open>Pre-emption\<close>

text \<open>Raise the flag and cancel the owner's token.\<close>

definition preempt_begin :: "mount_addr \<Rightarrow> app_state \<Rightarrow> app_state" where
  "preempt_begin a st =
     (let st1 = put_mount a ((app_mount st a)\<lparr>am_preempt_pending := True\<rparr>) st in
      case am_source_cancel (app_mount st1 a) of
        None \<Rightarrow> st1
      | Some t \<Rightarrow> cancel_token t st1)"

text \<open>
  The polling loop: each element is what the other tasks do during one sleep, the end of the list
  is the deadline.
\<close>

fun preempt_wait :: "(app_state \<Rightarrow> app_state) list \<Rightarrow> mount_addr \<Rightarrow> app_state \<Rightarrow> bool \<times> app_state" where
  "preempt_wait [] a st = (\<not> am_source_connected (app_mount st a), st)"
| "preempt_wait (f # fs) a st =
     (if am_source_connected (app_mount st a) then preempt_wait fs a (f st) else (True, st))"

definition preempt_non_live_if_present ::
  "(app_state \<Rightarrow> app_state) list \<Rightarrow> mount_addr \<Rightarrow> app_state \<Rightarrow> bool \<times> app_state" where
  "preempt_non_live_if_present others a st =
     (if \<not> am_source_connected (app_mount st a) \<or> load_source_kind (app_mount st a) = KindNone \<or>
         load_source_kind (app_mount st a) = KindLive
      then (True, st)
      else preempt_wait others a (preempt_begin a st))"

lemma preempt_nothing:
  "\<not> non_live_present (app_mount st a) \<Longrightarrow> preempt_non_live_if_present others a st = (True, st)"
  by (auto simp: preempt_non_live_if_present_def non_live_present_def)

section \<open>Mount resolution\<close>

datatype auth_outcome = Unauthorized | Internal

definition create_dynamic_mount :: "string \<Rightarrow> codec_id \<Rightarrow> app_state \<Rightarrow> mount_addr \<times> app_state" where
  "create_dynamic_mount mount_path codec st =
     (let limits = cf_limits (ap_config st) in
      add_mount \<lparr>mi_path = mount_path, mi_codec = codec, mi_source_password = [], mi_max_listeners = None,
                 mi_metadata = default_metadata\<rparr>
        (bus_new (lm_ring_size limits) (lm_burst_size limits)) st)"

definition resolve_or_create_mount ::
  "(app_state \<Rightarrow> app_state) list \<Rightarrow> string \<Rightarrow> string \<Rightarrow> codec_id \<Rightarrow> app_state \<Rightarrow>
     (auth_outcome + mount_addr \<times> bool) \<times> app_state" where
  "resolve_or_create_mount others mount_path password codec st =
     (case find_app_mount st mount_path of
        Some a \<Rightarrow>
          (case preempt_non_live_if_present others a st of
             (False, st1) \<Rightarrow> (Inl Internal, st1)
           | (True, st1) \<Rightarrow>
               (case verify_source (ap_auth st1) mount_path password of
                  Inr True \<Rightarrow> (Inr (a, False), st1)
                | Inr False \<Rightarrow> (Inl Unauthorized, st1)
                | Inl _ \<Rightarrow> (Inl Internal, st1)))
      | None \<Rightarrow>
          (case verify_default_source (ap_auth st) password of
             Inr True \<Rightarrow>
               (case create_dynamic_mount mount_path codec st of (a, st1) \<Rightarrow> (Inr (a, True), st1))
           | Inr False \<Rightarrow> (Inl Unauthorized, st)
           | Inl _ \<Rightarrow> (Inl Internal, st)))"

section \<open>The ingest of a mount\<close>

definition build_vorbis_comments :: "mount_metadata \<Rightarrow> (string \<times> string) list" where
  "build_vorbis_comments meta =
     (case mm_name meta of None \<Rightarrow> [] | Some s \<Rightarrow> [(''TITLE'', s)]) @
     (case mm_description meta of None \<Rightarrow> [] | Some s \<Rightarrow> [(''DESCRIPTION'', s)]) @
     (case mm_genre meta of None \<Rightarrow> [] | Some s \<Rightarrow> [(''GENRE'', s)]) @
     (case mm_url meta of None \<Rightarrow> [] | Some s \<Rightarrow> [(''LOCATION'', s)]) @
     [(''ENCODER'', ''rustyice/'' @ pkg_version)]"

definition build_ingest_for_mount :: "config \<Rightarrow> string \<Rightarrow> active_mount \<Rightarrow> icecast_ingest" where
  "build_ingest_for_mount cfg mount_path m =
     (let transcode = mount_transcode cfg mount_path;
          metadata = mi_metadata (am_info m);
          ingest = (case lm_source_max_kbps (cf_limits cfg) of
                      Some kbps \<Rightarrow> with_max_rate (kbps * 1000 div 8) ingest_default
                    | None \<Rightarrow> ingest_default);
          ingest' = (case transcode of
                       Some tc \<Rightarrow>
                         with_transcode_comments (build_vorbis_comments metadata) (with_transcode tc ingest)
                     | None \<Rightarrow> ingest)
      in with_header_capture ingest')"

text \<open>The ingest works on the bus and the header slot of the mount, which it shares with others.\<close>

definition load_mount :: "active_mount \<Rightarrow> ('i, 'r, 'l, 'v) publisher \<Rightarrow> ('i, 'r, 'l, 'v) publisher" where
  "load_mount m pu = pu\<lparr>pu_bus := am_bus m, pu_sink := am_header_bytes m\<rparr>"

definition store_mount :: "('i, 'r, 'l, 'v) publisher \<Rightarrow> active_mount \<Rightarrow> active_mount" where
  "store_mount pu m = m\<lparr>am_bus := pu_bus pu, am_header_bytes := pu_sink pu\<rparr>"

section \<open>Admission\<close>

record source_session =
  sn_addr :: mount_addr
  sn_path :: string
  sn_dynamic :: bool
  sn_codec :: codec_id
  sn_headers :: headers
  sn_leftover :: "byte list"
  sn_token :: token

text \<open>From the parsed head to the constructed guard: the reply that ends the connection, or a session.\<close>

definition admit_source ::
  "(string \<Rightarrow> byte list option) \<Rightarrow> (app_state \<Rightarrow> app_state) list \<Rightarrow> nat \<Rightarrow> parsed_head \<Rightarrow> app_state \<Rightarrow>
     (string + source_session) \<times> app_state" where
  "admit_source base64_decode others now head st =
     (let mount_path = ph_path head;
          headers = ph_headers head;
          password = extract_source_password base64_decode headers;
          codec = detect_codec_from_content_type headers in
      case resolve_or_create_mount others mount_path password codec st of
        (Inl Unauthorized, st1) \<Rightarrow> (Inl write_status_with_auth_challenge, st1)
      | (Inl Internal, st1) \<Rightarrow> (Inl (write_status 500 ''Internal Server Error''), st1)
      | (Inr (a, dynamic), st1) \<Rightarrow>
          if mount_transcode (ap_config st1) mount_path \<noteq> None \<and> codec \<noteq> MP3 \<and> codec \<noteq> VORBIS then
            (Inl (write_status 415 ''mount requires MP3 or Ogg Vorbis source (transcoding is enabled)''), st1)
          else
            (case cas_connect (app_mount st1 a) of
               None \<Rightarrow> (Inl (write_status 409 ''mount already has an active source''), st1)
             | Some m \<Rightarrow>
                 (case fresh_token st1 of
                    (token, st2) \<Rightarrow>
                      (Inr \<lparr>sn_addr = a, sn_path = mount_path, sn_dynamic = dynamic, sn_codec = codec,
                            sn_headers = headers, sn_leftover = ph_leftover head, sn_token = token\<rparr>,
                       put_mount a
                         (apply_writes (live_claim_writes token now codec (parse_source_overlay headers)) m) st2))))"

section \<open>Cleanup\<close>

text \<open>Kicking every listener of the path, in whatever order the map lists them.\<close>

definition kick_mount_listeners :: "string \<Rightarrow> listener_map \<Rightarrow> listener_map" where
  "kick_mount_listeners path lm =
     lm\<lparr>lm_cancelled := lm_cancelled lm \<union>
        {t. \<exists>i e. lm_entries lm i = Some e \<and> li_mount_path e = path \<and> t = li_cancel e}\<rparr>"

lemma cancelled_cong: "A = B \<Longrightarrow> lm\<lparr>lm_cancelled := A\<rparr> = lm\<lparr>lm_cancelled := B\<rparr>"
  by simp

lemma kick_snd:
  "snd (listener_kick i lm) =
     lm\<lparr>lm_cancelled := lm_cancelled lm \<union> {t. \<exists>e. lm_entries lm i = Some e \<and> t = li_cancel e}\<rparr>"
  by (cases "lm_entries lm i") (simp_all add: listener_kick_def)

lemma kick_listed:
  "foldl (\<lambda>lm i. snd (listener_kick i lm)) lm is =
     lm\<lparr>lm_cancelled := lm_cancelled lm \<union> {t. \<exists>i e. i \<in> set is \<and> lm_entries lm i = Some e \<and> t = li_cancel e}\<rparr>"
proof (induction "is" arbitrary: lm)
  case (Cons i "is")
  show ?case
    unfolding foldl_Cons Cons.IH unfolding kick_snd by (simp, rule cancelled_cong) auto
qed simp

lemma kick_mount_listeners_fold:
  "set is = ids_for_mount path lm \<Longrightarrow>
     foldl (\<lambda>lm i. snd (listener_kick i lm)) lm is = kick_mount_listeners path lm"
  unfolding kick_listed kick_mount_listeners_def by (rule cancelled_cong) (fastforce simp: ids_for_mount_def)

definition guard_drop :: "source_session \<Rightarrow> app_state \<Rightarrow> app_state" where
  "guard_drop sn st =
     (let st1 = st\<lparr>ap_listeners := kick_mount_listeners (sn_path sn) (ap_listeners st)\<rparr>;
          st2 = put_mount (sn_addr sn) (apply_writes guard_release_writes (app_mount st1 (sn_addr sn))) st1
      in if sn_dynamic sn then remove_mount (sn_path sn) st2 else st2)"

section \<open>The handler\<close>

text \<open>
  What the client reads after the body: nothing for a classic client, which had its status line
  before it.
\<close>

definition final_response :: "source_session \<Rightarrow> ingest_error + source_stats \<Rightarrow> string" where
  "final_response sn result =
     (case result of
        Inl (TranscodeInit e) \<Rightarrow> write_status_retry_after 503 ''transcoding unavailable'' 60
      | _ \<Rightarrow> if is_classic_icecast (sn_headers sn) then [] else write_status 200 ''OK'')"

definition run_source ::
  "bool \<Rightarrow> (source_session \<Rightarrow> body_framing \<Rightarrow> icecast_ingest \<Rightarrow> app_state \<Rightarrow> (ingest_error + source_stats) \<times> app_state) \<Rightarrow>
     source_session \<Rightarrow> app_state \<Rightarrow> string \<times> app_state" where
  "run_source write_ok ingest sn st =
     (let upfront = upfront_response (sn_headers sn) in
      if upfront \<noteq> [] \<and> \<not> write_ok then ([], guard_drop sn st)
      else
        (case ingest sn (body_framing_of (sn_headers sn))
                (build_ingest_for_mount (ap_config st) (sn_path sn) (app_mount st (sn_addr sn))) st of
           (result, st1) \<Rightarrow> (upfront @ final_response sn result, guard_drop sn st1)))"

definition handle_source_connection ::
  "(byte list \<Rightarrow> parse_status) \<Rightarrow> (string \<Rightarrow> string option) \<Rightarrow> (byte list \<Rightarrow> header_value option) \<Rightarrow>
   (string \<Rightarrow> byte list option) \<Rightarrow> head_event list \<Rightarrow> (app_state \<Rightarrow> app_state) list \<Rightarrow> nat \<Rightarrow> bool \<Rightarrow>
   (source_session \<Rightarrow> body_framing \<Rightarrow> icecast_ingest \<Rightarrow> app_state \<Rightarrow> (ingest_error + source_stats) \<times> app_state) \<Rightarrow>
     app_state \<Rightarrow> string \<times> app_state" where
  "handle_source_connection parse name_of value_of base64_decode events others now write_ok ingest st =
     (case read_request_head parse name_of value_of events of
        (Inl e, _) \<Rightarrow> (write_status 400 ''Bad Request'', st)
      | (Inr head, _) \<Rightarrow>
          (case admit_source base64_decode others now head st of
             (Inl reply, st1) \<Rightarrow> (reply, st1)
           | (Inr sn, st1) \<Rightarrow> run_source write_ok ingest sn st1))"

section \<open>What admission decides\<close>

text \<open>The credentials of a request for a path: the mount's own or, for an unknown path, the global one.\<close>

definition source_password_ok :: "app_state \<Rightarrow> string \<Rightarrow> string \<Rightarrow> bool" where
  "source_password_ok st path password \<longleftrightarrow>
     (case find_app_mount st path of
        Some _ \<Rightarrow> accepts (verify_source (ap_auth st) path password)
      | None \<Rightarrow> accepts (verify_default_source (ap_auth st) password))"

lemma verify_not_error:
  "verify_source a p w \<noteq> Inl e" "verify_default_source a w \<noteq> Inl e"
  by (auto simp: verify_source_def verify_default_source_def split: option.split)

lemma verify_cases:
  obtains b where "verify_source a p w = Inr b" "accepts (verify_source a p w) = b"
  by (cases "verify_source a p w") (auto simp: accepts_def verify_not_error)

lemma verify_default_cases:
  obtains b where "verify_default_source a w = Inr b" "accepts (verify_default_source a w) = b"
  by (cases "verify_default_source a w") (auto simp: accepts_def verify_not_error)

lemma create_dynamic_mount_add:
  "\<exists>info b. create_dynamic_mount p c st = add_mount info b st \<and> mi_path info = p"
  by (simp add: create_dynamic_mount_def Let_def) (metis mount_info.select_convs(1))

lemma resolve_known:
  assumes "find_app_mount st p = Some a" and "\<not> non_live_present (app_mount st a)"
  shows "resolve_or_create_mount others p w c st =
    (if source_password_ok st p w then Inr (a, False) else Inl Unauthorized, st)"
proof -
  obtain b where "verify_source (ap_auth st) p w = Inr b" "accepts (verify_source (ap_auth st) p w) = b"
    by (rule verify_cases)
  then show ?thesis
    using assms by (auto simp: resolve_or_create_mount_def preempt_nothing source_password_ok_def split: bool.split)
qed

lemma resolve_unknown:
  assumes "find_app_mount st p = None"
  shows "resolve_or_create_mount others p w c st =
    (if source_password_ok st p w then (Inr (ap_next_addr st, True), snd (create_dynamic_mount p c st))
     else (Inl Unauthorized, st))"
proof -
  obtain b where "verify_default_source (ap_auth st) w = Inr b" "accepts (verify_default_source (ap_auth st) w) = b"
    by (rule verify_default_cases)
  moreover have "fst (create_dynamic_mount p c st) = ap_next_addr st"
    using create_dynamic_mount_add [of p c st] by auto
  ultimately show ?thesis
    using assms by (cases "create_dynamic_mount p c st")
      (auto simp: resolve_or_create_mount_def source_password_ok_def split: bool.split)
qed

text \<open>A source of this codec cannot feed the transcoder configured for the path.\<close>

definition codec_rejected :: "app_state \<Rightarrow> string \<Rightarrow> codec_id \<Rightarrow> bool" where
  "codec_rejected st path codec \<longleftrightarrow> mount_transcode (ap_config st) path \<noteq> None \<and> codec \<noteq> MP3 \<and> codec \<noteq> VORBIS"

definition claimed_mount :: "token \<Rightarrow> nat \<Rightarrow> codec_id \<Rightarrow> source_overlay \<Rightarrow> active_mount \<Rightarrow> active_mount" where
  "claimed_mount tok now codec ov m =
     m\<lparr>am_source_connected := True, am_source_cancel := Some tok, am_connected_at := Some now,
       am_info := (am_info m)\<lparr>mi_codec := codec\<rparr>, am_source_overlay := Some ov\<rparr>"

lemma live_claim_effect:
  "cas_connect m = Some m' \<Longrightarrow> apply_writes (live_claim_writes tok now codec ov) m' = claimed_mount tok now codec ov m"
  by (auto simp: cas_connect_def live_claim_writes_def claimed_mount_def slot_write_simps split: if_splits)

lemma admit_known:
  assumes "find_app_mount st (ph_path head) = Some a" and "\<not> non_live_present (app_mount st a)"
  shows "admit_source dec others now head st =
    (let p = ph_path head; hs = ph_headers head; codec = detect_codec_from_content_type hs; tok = ap_next_token st in
     if \<not> source_password_ok st p (extract_source_password dec hs) then (Inl write_status_with_auth_challenge, st)
     else if codec_rejected st p codec then
       (Inl (write_status 415 ''mount requires MP3 or Ogg Vorbis source (transcoding is enabled)''), st)
     else if am_source_connected (app_mount st a) then
       (Inl (write_status 409 ''mount already has an active source''), st)
     else (Inr \<lparr>sn_addr = a, sn_path = p, sn_dynamic = False, sn_codec = codec, sn_headers = hs,
                sn_leftover = ph_leftover head, sn_token = tok\<rparr>,
           put_mount a (claimed_mount tok now codec (parse_source_overlay hs) (app_mount st a))
             (st\<lparr>ap_next_token := Suc tok\<rparr>)))"
proof (cases "cas_connect (app_mount st a)")
  case None
  then have "am_source_connected (app_mount st a)" by (simp add: cas_connect_def split: if_splits)
  with None assms show ?thesis
    by (auto simp: admit_source_def Let_def resolve_known codec_rejected_def)
next
  case (Some m)
  then have "\<not> am_source_connected (app_mount st a)" by (auto simp: cas_connect_def split: if_splits)
  with Some assms show ?thesis
    by (auto simp: admit_source_def Let_def resolve_known codec_rejected_def fresh_token_def live_claim_effect)
qed

text \<open>
  Claim C12. Admission of a source to a registered mount that no relay or AutoDJ holds: wrong
  credentials are answered 401, a codec the transcoder cannot take 415, a mount in use 409, each
  without any effect; every other source is admitted, and then its token, headers and codec are in
  place, and nothing else in the registry has changed.
\<close>

theorem source_admission:
  fixes dec :: "string \<Rightarrow> byte list option"
  assumes "find_app_mount st (ph_path head) = Some a" and "\<not> non_live_present (app_mount st a)"
  defines "codec \<equiv> detect_codec_from_content_type (ph_headers head)"
  defines "ok \<equiv> source_password_ok st (ph_path head) (extract_source_password dec (ph_headers head))"
  shows "case admit_source dec others now head st of
      (Inl reply, st') \<Rightarrow> st' = st \<and>
        (\<not> ok \<and> reply = write_status_with_auth_challenge \<or>
         ok \<and> codec_rejected st (ph_path head) codec \<and>
           reply = write_status 415 ''mount requires MP3 or Ogg Vorbis source (transcoding is enabled)'' \<or>
         ok \<and> am_source_connected (app_mount st a) \<and> reply = write_status 409 ''mount already has an active source'')
    | (Inr sn, st') \<Rightarrow>
        ok \<and> \<not> codec_rejected st (ph_path head) codec \<and> \<not> am_source_connected (app_mount st a) \<and>
        sn_addr sn = a \<and> \<not> sn_dynamic sn \<and> sn_codec sn = codec \<and> ap_mounts st' = ap_mounts st \<and>
        am_source_connected (app_mount st' a) \<and> am_source_cancel (app_mount st' a) = Some (sn_token sn) \<and>
        am_source_overlay (app_mount st' a) = Some (parse_source_overlay (ph_headers head)) \<and>
        mi_codec (am_info (app_mount st' a)) = codec \<and> mi_path (am_info (app_mount st' a)) = mi_path (am_info (app_mount st a))"
  unfolding admit_known [OF assms(1,2)] Let_def codec_def ok_def
  by (simp add: claimed_mount_def)

text \<open>
  Claim C13. Ending a session: however the transfer ended, even when the first reply could not be
  written, the slot is free and without token, connection time, headers or captured pages, every
  listener of the path is cancelled, a resume permit is left for the owner that was pre-empted, and
  a dynamic mount is unregistered.
\<close>

theorem source_session_cleanup:
  "let st' = snd (run_source write_ok ingest sn st); m' = app_mount st' (sn_addr sn) in
     \<not> am_source_connected m' \<and> am_source_cancel m' = None \<and> am_connected_at m' = None \<and>
     am_source_overlay m' = None \<and> am_header_bytes m' = None \<and> am_resume_permit m' \<and>
     {li_cancel e |i e. lm_entries (ap_listeners st') i = Some e \<and> li_mount_path e = sn_path sn}
       \<subseteq> lm_cancelled (ap_listeners st') \<and>
     \<not> (sn_dynamic sn \<and> find_app_mount st' (sn_path sn) \<noteq> None)"
proof -
  have "\<exists>st1. snd (run_source write_ok ingest sn st) = guard_drop sn st1"
    by (cases "ingest sn (body_framing_of (sn_headers sn))
          (build_ingest_for_mount (ap_config st) (sn_path sn) (app_mount st (sn_addr sn))) st")
      (auto simp: run_source_def Let_def)
  then obtain st1 where st1: "snd (run_source write_ok ingest sn st) = guard_drop sn st1" ..
  have m: "app_mount (guard_drop sn st1) (sn_addr sn) =
      apply_writes guard_release_writes (app_mount st1 (sn_addr sn))"
    by (simp add: guard_drop_def Let_def app_mount_def put_mount_def)
  have l: "ap_listeners (guard_drop sn st1) = kick_mount_listeners (sn_path sn) (ap_listeners st1)"
    by (simp add: guard_drop_def Let_def)
  have d: "\<not> (sn_dynamic sn \<and> find_app_mount (guard_drop sn st1) (sn_path sn) \<noteq> None)"
    by (simp add: guard_drop_def Let_def)
  show ?thesis
    unfolding st1 Let_def m l using d
    by (auto simp: guard_release_writes_def slot_write_simps kick_mount_listeners_def)
qed

section \<open>Findings\<close>

lemma preempt_wait_mono:
  assumes "\<forall>f\<in>set others. \<forall>s. ap_auth (f s) = ap_auth s \<and> ap_cancelled s \<subseteq> ap_cancelled (f s)"
  shows "ap_auth (snd (preempt_wait others a st)) = ap_auth st \<and>
    ap_cancelled st \<subseteq> ap_cancelled (snd (preempt_wait others a st))"
  using assms
proof (induction others arbitrary: st)
  case (Cons f fs)
  then show ?case
    using Cons.IH [of "f st"] by (auto simp: subset_iff)
qed simp

text \<open>
  The credentials of a source are checked after the pre-emption: whoever names the path
  of a running relay or AutoDJ gets that owner cancelled although the password is wrong and the
  answer is a refusal.
\<close>

theorem wrong_password_stops_owner:
  fixes dec :: "string \<Rightarrow> byte list option"
  assumes "find_app_mount st (ph_path head) = Some a" and "non_live_present (app_mount st a)"
    and "am_source_cancel (app_mount st a) = Some t"
    and "verify_source (ap_auth st) (ph_path head) (extract_source_password dec (ph_headers head)) = Inr False"
    and "\<forall>f\<in>set others. \<forall>s. ap_auth (f s) = ap_auth s \<and> ap_cancelled s \<subseteq> ap_cancelled (f s)"
  shows "t \<in> ap_cancelled (snd (admit_source dec others now head st)) \<and>
    fst (admit_source dec others now head st) \<in>
      {Inl write_status_with_auth_challenge, Inl (write_status 500 ''Internal Server Error'')}"
proof -
  let ?st1 = "preempt_begin a st"
  have b: "t \<in> ap_cancelled ?st1" "ap_auth ?st1 = ap_auth st"
    using assms(3) by (simp_all add: preempt_begin_def Let_def cancel_token_def)
  have p: "preempt_non_live_if_present others a st = preempt_wait others a ?st1"
    using assms(2) by (auto simp: preempt_non_live_if_present_def non_live_present_def)
  obtain fin st2 where w: "preempt_wait others a ?st1 = (fin, st2)" by fastforce
  have "ap_auth st2 = ap_auth st" "t \<in> ap_cancelled st2"
    using preempt_wait_mono [OF assms(5), of a ?st1] b w by auto
  then show ?thesis
    using assms(1,4) w by (cases fin) (simp_all add: admit_source_def resolve_or_create_mount_def p)
qed

text \<open>
  A source for an unknown path that authenticates with the global password but sends a
  codec the transcoder cannot take is refused, yet the mount created for it stays registered: no
  source is connected to it and no guard will remove it.
\<close>

theorem refused_source_leaves_mount:
  fixes dec :: "string \<Rightarrow> byte list option"
  assumes "find_app_mount st (ph_path head) = None"
    and "source_password_ok st (ph_path head) (extract_source_password dec (ph_headers head))"
    and "codec_rejected st (ph_path head) (detect_codec_from_content_type (ph_headers head))"
  shows "fst (admit_source dec others now head st) =
      Inl (write_status 415 ''mount requires MP3 or Ogg Vorbis source (transcoding is enabled)'') \<and>
    (\<exists>a. find_app_mount (snd (admit_source dec others now head st)) (ph_path head) = Some a \<and>
      \<not> am_source_connected (app_mount (snd (admit_source dec others now head st)) a))"
proof -
  let ?codec = "detect_codec_from_content_type (ph_headers head)"
  obtain info b where c: "create_dynamic_mount (ph_path head) ?codec st = add_mount info b st" "mi_path info = ph_path head"
    using create_dynamic_mount_add by blast
  let ?st1 = "snd (add_mount info b st)"
  have r: "resolve_or_create_mount others (ph_path head) (extract_source_password dec (ph_headers head)) ?codec st =
      (Inr (ap_next_addr st, True), ?st1)"
    using resolve_unknown [OF assms(1)] assms(2) c(1) by simp
  have a: "admit_source dec others now head st =
      (Inl (write_status 415 ''mount requires MP3 or Ogg Vorbis source (transcoding is enabled)''), ?st1)"
    using assms(3) r by (simp add: admit_source_def Let_def codec_rejected_def)
  show ?thesis
    unfolding a using c(2) by (simp add: active_mount_new_def)
qed

section \<open>Concrete instances\<close>

text \<open>A stand-in for base64 that takes its input as it is.\<close>

definition plain_decode :: "string \<Rightarrow> byte list option" where
  "plain_decode s = Some (bytes_of s)"

definition sample_head :: "string \<Rightarrow> string \<Rightarrow> string \<Rightarrow> parsed_head" where
  "sample_head path password content_type =
     \<lparr>ph_path = path,
      ph_headers = [''authorization'' \<mapsto> HvText (''Basic source:'' @ password), ''content-type'' \<mapsto> HvText content_type],
      ph_leftover = []\<rparr>"

lemma sample_head_sel [simp]: "ph_path (sample_head p w c) = p"
  by (simp add: sample_head_def)

lemma sample_head_password:
  assumes "\<forall>c\<in>set w. (of_char c :: nat) < 128"
  shows "extract_source_password plain_decode (ph_headers (sample_head p w ct)) = w"
proof -
  have "str_from_utf8 (bytes_of (''source:'' @ w)) = Some (''source:'' @ w)"
    by (rule str_from_utf8_ascii) (use assms in auto)
  moreover have "strip_prefix ''Basic '' (''Basic source:'' @ w) = Some (''source:'' @ w)"
    using strip_prefix_append [of "''Basic ''" "''source:'' @ w"] by simp
  ultimately show ?thesis
    by (simp add: extract_source_password_def header_str_def sample_head_def plain_decode_def)
qed

lemma sample_auth: "source_password_ok (sample_app tc) p w \<longleftrightarrow> w = ''hackme''"
  by (auto simp: source_password_ok_def sample_app_def sample_cfg_def auth_new_def verify_source_def
      verify_default_source_def mount_map_def hash_map_def accepts_def split: option.split)

theorem source_admission_witness:
  "case admit_source plain_decode [] 9 (sample_head ''/dj'' ''hackme'' ''audio/mpeg'') (sample_app None) of
     (Inl reply, st') \<Rightarrow> False
   | (Inr sn, st') \<Rightarrow> sn_codec sn = MP3 \<and> am_source_cancel (app_mount st' 0) = Some (sn_token sn)"
proof -
  let ?h = "sample_head ''/dj'' ''hackme'' ''audio/mpeg''"
  have c: "detect_codec_from_content_type (ph_headers ?h) = MP3"
    by (simp add: detect_codec_from_content_type_def header_str_def sample_head_def starts_with_def)
  have ok: "source_password_ok (sample_app None) ''/dj'' (extract_source_password plain_decode (ph_headers ?h))"
    by (simp add: sample_auth sample_head_password)
  have n: "\<not> non_live_present (app_mount (sample_app None) 0)" by (simp add: non_live_present_def sample_mount)
  have r: "\<not> codec_rejected (sample_app None) ''/dj'' MP3" by (simp add: codec_rejected_def)
  show ?thesis
    using source_admission [of "sample_app None" ?h 0 plain_decode "[]" 9] n c ok r
    by (auto simp: sample_find sample_mount split: sum.split prod.split)
qed

definition dj_running :: app_state where
  "dj_running = put_mount 0 (snd (autodj_claim_slot 7 3 (app_mount (sample_app None) 0))) (sample_app None)"

lemma dj_running_mount:
  "non_live_present (app_mount dj_running 0) \<and> am_source_cancel (app_mount dj_running 0) = Some 7"
  by (simp add: dj_running_def autodj_claim_slot_def cas_connect_def sample_mount slot_write_simps slot_writes_defs
      non_live_present_def source_kind_from_u8_def)

theorem wrong_password_stops_owner_witness:
  "7 \<in> ap_cancelled (snd (admit_source plain_decode [] 9 (sample_head ''/dj'' ''guess'' ''audio/mpeg'') dj_running))"
proof -
  let ?h = "sample_head ''/dj'' ''guess'' ''audio/mpeg''"
  have f: "find_app_mount dj_running ''/dj'' = Some 0" by (simp add: dj_running_def sample_find)
  have p: "extract_source_password plain_decode (ph_headers ?h) = ''guess''" by (rule sample_head_password) simp
  have v: "verify_source (ap_auth dj_running) ''/dj'' ''guess'' = Inr False"
    by (simp add: dj_running_def sample_app_def sample_cfg_def auth_new_def verify_source_def
        verify_default_source_def mount_map_def hash_map_def)
  show ?thesis
    using wrong_password_stops_owner [of dj_running ?h 0 7 plain_decode "[]" 9] f p v dj_running_mount by simp
qed

theorem refused_source_leaves_mount_witness:
  "\<exists>a. find_app_mount (snd (admit_source plain_decode [] 9 (sample_head ''/new'' ''hackme'' ''audio/aac'')
       (sample_app (Some \<lparr>tc_format = FmtMp3, tc_sample_rate = 44100, tc_bitrate_kbps = 128\<rparr>)))) ''/new'' = Some a"
proof -
  let ?h = "sample_head ''/new'' ''hackme'' ''audio/aac''"
  let ?st = "sample_app (Some \<lparr>tc_format = FmtMp3, tc_sample_rate = 44100, tc_bitrate_kbps = 128\<rparr>)"
  have c: "detect_codec_from_content_type (ph_headers ?h) = AAC"
    by (simp add: detect_codec_from_content_type_def header_str_def sample_head_def starts_with_def)
  have ok: "source_password_ok ?st ''/new'' (extract_source_password plain_decode (ph_headers ?h))"
    by (simp add: sample_auth sample_head_password)
  have r: "codec_rejected ?st ''/new'' AAC"
    by (simp add: codec_rejected_def sample_app_def sample_cfg_def mount_transcode_def)
  show ?thesis
    using refused_source_leaves_mount [of ?st ?h plain_decode "[]" 9] c ok r by (auto simp: sample_find)
qed

end
