(* ===== verification/Icy_Output.thy ===== *)
theory Icy_Output
  imports Mount_Model
begin

text \<open>
  \<open>crates/rustyice-output/src/http_passthrough.rs\<close>: the listener side. Packets of a subscription
  are written to the client, with an ICY metadata frame after every \<open>metaint\<close> audio bytes when the
  client asked for them. The writer is the bytes the client has received and, when the connection
  breaks, how many it will still take. The title and the source identity are read from shared
  cells whenever a frame is built: \<open>snap i\<close> is what the cells hold when the i-th frame is built.
\<close>

section \<open>The writer\<close>

record icy_writer =
  wr_out :: "byte list"
  wr_room :: "nat option"

definition write_all :: "icy_writer \<Rightarrow> byte list \<Rightarrow> (output_error + unit) \<times> icy_writer" where
  "write_all w bs =
     (case wr_room w of
        None \<Rightarrow> (Inr (), w\<lparr>wr_out := wr_out w @ bs\<rparr>)
      | Some n \<Rightarrow>
          if length bs \<le> n then (Inr (), w\<lparr>wr_out := wr_out w @ bs, wr_room := Some (n - length bs)\<rparr>)
          else (Inl (OutputIo ''connection reset''), w\<lparr>wr_out := wr_out w @ take n bs, wr_room := Some 0\<rparr>))"

section \<open>Metadata frames\<close>

definition icy_quote :: char where
  "icy_quote = CHR 0x27"

definition icy_text :: "string \<Rightarrow> string \<Rightarrow> string" where
  "icy_text title url =
     ''StreamTitle='' @ [icy_quote] @ title @ [icy_quote] @ '';StreamUrl='' @ [icy_quote] @ url @ [icy_quote] @ '';''"

definition icy_title :: "mount_info \<Rightarrow> string option \<Rightarrow> source_overlay option \<Rightarrow> string" where
  "icy_title info title overlay =
     unwrap_or (or_else (or_else title (Option.bind overlay so_name)) (mm_name (mi_metadata info))) []"

definition icy_url :: "mount_info \<Rightarrow> source_overlay option \<Rightarrow> string" where
  "icy_url info overlay =
     unwrap_or (or_else (Option.bind overlay so_url) (mm_url (mi_metadata info))) []"

definition build_icy_frame :: "mount_info \<Rightarrow> string option \<Rightarrow> source_overlay option \<Rightarrow> byte list" where
  "build_icy_frame info current_title source_overlay =
     (let title = icy_title info current_title source_overlay;
          url = icy_url info source_overlay
      in if title = [] \<and> url = [] then [0]
         else
           let raw = bytes_of (icy_text title url);
               blocks = (length raw + 15) div 16;
               padded = blocks * 16
           in (if blocks < 256 then of_nat blocks else 255) # raw @ replicate (padded - length raw) 0)"

section \<open>write_with_icy\<close>

type_synonym icy_snap = "nat \<Rightarrow> string option \<times> source_overlay option"

record icy_state =
  ic_writer :: icy_writer
  ic_since_meta :: nat
  ic_bytes_sent :: nat
  ic_frames :: nat

text \<open>
  The loop of \<open>write_with_icy\<close> at an offset. It does not terminate for every \<open>metaint\<close>: not
  returning is \<open>None\<close>. The frame counter only selects the snapshot.
\<close>

partial_function (option) icy_loop ::
  "mount_info \<Rightarrow> icy_snap \<Rightarrow> nat \<Rightarrow> byte list \<Rightarrow> nat \<Rightarrow> icy_state \<Rightarrow> ((output_error + unit) \<times> icy_state) option" where
  "icy_loop info snap metaint data offset st =
     (if offset < length data then
        (let space = metaint - ic_since_meta st;
             chunk_end = min (offset + space) (length data);
             chunk = take (chunk_end - offset) (drop offset data)
         in case write_all (ic_writer st) chunk of
              (Inl e, w) \<Rightarrow> Some (Inl e, st\<lparr>ic_writer := w\<rparr>)
            | (Inr _, w) \<Rightarrow>
                (let since = ic_since_meta st + length chunk;
                     st1 = st\<lparr>ic_writer := w, ic_bytes_sent := ic_bytes_sent st + length chunk,
                              ic_since_meta := since\<rparr>
                 in if metaint \<le> since then
                      (case write_all w (case snap (ic_frames st) of (t, ov) \<Rightarrow> build_icy_frame info t ov) of
                         (Inl e, w') \<Rightarrow> Some (Inl e, st1\<lparr>ic_writer := w'\<rparr>)
                       | (Inr _, w') \<Rightarrow>
                           icy_loop info snap metaint data chunk_end
                             (st1\<lparr>ic_writer := w', ic_since_meta := 0, ic_frames := Suc (ic_frames st)\<rparr>))
                    else icy_loop info snap metaint data chunk_end st1))
      else Some (Inr (), st))"

definition write_with_icy ::
  "mount_info \<Rightarrow> icy_snap \<Rightarrow> nat \<Rightarrow> byte list \<Rightarrow> icy_state \<Rightarrow> ((output_error + unit) \<times> icy_state) option" where
  "write_with_icy info snap metaint data st = icy_loop info snap metaint data 0 st"

section \<open>The output loop\<close>

text \<open>
  What the \<open>select!\<close> sees, in order: the listener's cancellation token, a packet of the
  subscription, or its end. A script that runs out while the loop waits leaves the listener
  running.
\<close>

datatype out_event = OutCancelled | OutItem stream_packet | OutEnd

datatype out_result = OutFinished "output_error + listener_stats" icy_state | OutRunning icy_state | OutDiverged

definition icy_init :: "icy_writer \<Rightarrow> icy_state" where
  "icy_init w = \<lparr>ic_writer = w, ic_since_meta = 0, ic_bytes_sent = 0, ic_frames = 0\<rparr>"

definition listener_done :: "nat \<Rightarrow> icy_state \<Rightarrow> disconnect_reason \<Rightarrow> out_result" where
  "listener_done duration st reason =
     OutFinished (Inr \<lparr>ls_bytes_sent = ic_bytes_sent st, ls_duration = duration, ls_disconnect_reason = reason\<rparr>) st"

fun output_loop ::
  "nat \<Rightarrow> mount_info \<Rightarrow> icy_snap \<Rightarrow> nat \<Rightarrow> bool \<Rightarrow> out_event list \<Rightarrow> icy_state \<Rightarrow> out_result" where
  "output_loop duration info snap metaint icy_requested [] st = OutRunning st"
| "output_loop duration info snap metaint icy_requested (OutCancelled # evs) st =
     listener_done duration st ShuttingDown"
| "output_loop duration info snap metaint icy_requested (OutEnd # evs) st =
     listener_done duration st SourceEnded"
| "output_loop duration info snap metaint icy_requested (OutItem packet # evs) st =
     (case sp_payload packet of
        Decoded _ \<Rightarrow> output_loop duration info snap metaint icy_requested evs st
      | Encoded enc \<Rightarrow>
          if icy_requested then
            (case write_with_icy info snap metaint (ep_data enc) st of
               None \<Rightarrow> OutDiverged
             | Some (Inl e, st') \<Rightarrow> OutFinished (Inl e) st'
             | Some (Inr _, st') \<Rightarrow> output_loop duration info snap metaint icy_requested evs st')
          else
            (case write_all (ic_writer st) (ep_data enc) of
               (Inl e, w) \<Rightarrow> OutFinished (Inl e) (st\<lparr>ic_writer := w\<rparr>)
             | (Inr _, w) \<Rightarrow>
                 output_loop duration info snap metaint icy_requested evs
                   (st\<lparr>ic_writer := w, ic_bytes_sent := ic_bytes_sent st + length (ep_data enc)\<rparr>)))"

definition http_passthrough_run ::
  "nat \<Rightarrow> mount_info \<Rightarrow> icy_snap \<Rightarrow> nat \<Rightarrow> bool \<Rightarrow> out_event list \<Rightarrow> icy_writer \<Rightarrow> out_result" where
  "http_passthrough_run duration info snap metaint icy_requested evs w =
     output_loop duration info snap metaint icy_requested evs (icy_init w)"

definition default_icy_metaint :: nat where
  "default_icy_metaint = 8192"

section \<open>What the client sees\<close>

text \<open>
  The stream as the ICY convention describes it, byte by byte: audio, with the next frame after
  every \<open>metaint\<close> audio bytes, wherever the packet boundaries are.
\<close>

abbreviation snap_frame :: "mount_info \<Rightarrow> icy_snap \<Rightarrow> nat \<Rightarrow> byte list" where
  "snap_frame info snap i \<equiv> (case snap i of (t, ov) \<Rightarrow> build_icy_frame info t ov)"

fun weave :: "(nat \<Rightarrow> byte list) \<Rightarrow> nat \<Rightarrow> nat \<Rightarrow> nat \<Rightarrow> byte list \<Rightarrow> byte list" where
  "weave frame metaint since i [] = []"
| "weave frame metaint since i (b # bs) =
     (if metaint \<le> Suc since then b # frame i @ weave frame metaint 0 (Suc i) bs
      else b # weave frame metaint (Suc since) i bs)"

text \<open>Where the weaving stands after some bytes.\<close>

fun weave_pos :: "nat \<Rightarrow> nat \<Rightarrow> nat \<Rightarrow> byte list \<Rightarrow> nat \<times> nat" where
  "weave_pos metaint since i [] = (since, i)"
| "weave_pos metaint since i (b # bs) =
     (if metaint \<le> Suc since then weave_pos metaint 0 (Suc i) bs else weave_pos metaint (Suc since) i bs)"

lemma weave_append:
  "weave frame m since i (xs @ ys) =
     weave frame m since i xs @ (case weave_pos m since i xs of (s, j) \<Rightarrow> weave frame m s j ys)"
  by (induction xs arbitrary: since i) auto

lemma weave_pos_append:
  "weave_pos m since i (xs @ ys) = (case weave_pos m since i xs of (s, j) \<Rightarrow> weave_pos m s j ys)"
  by (induction xs arbitrary: since i) auto

lemma weave_pos_less: "since < m \<Longrightarrow> fst (weave_pos m since i xs) < m"
  by (induction xs arbitrary: since i) auto

lemma weave_short: "since + length xs < m \<Longrightarrow> weave frame m since i xs = xs \<and> weave_pos m since i xs = (since + length xs, i)"
  by (induction xs arbitrary: since) auto

lemma weave_exact:
  "xs \<noteq> [] \<Longrightarrow> since + length xs = m \<Longrightarrow>
     weave frame m since i xs = xs @ frame i \<and> weave_pos m since i xs = (0, Suc i)"
  by (induction xs arbitrary: since) (auto simp: neq_Nil_conv Suc_le_eq)

section \<open>The loop writes the woven stream\<close>

definition woven :: "mount_info \<Rightarrow> icy_snap \<Rightarrow> nat \<Rightarrow> byte list \<Rightarrow> icy_state \<Rightarrow> icy_state" where
  "woven info snap m xs st =
     (case weave_pos m (ic_since_meta st) (ic_frames st) xs of
        (s, j) \<Rightarrow>
          st\<lparr>ic_writer := (ic_writer st)\<lparr>wr_out := wr_out (ic_writer st) @
                weave (snap_frame info snap) m (ic_since_meta st) (ic_frames st) xs\<rparr>,
             ic_since_meta := s, ic_bytes_sent := ic_bytes_sent st + length xs, ic_frames := j\<rparr>)"

lemma woven_sel [simp]:
  "ic_since_meta (woven info snap m xs st) = fst (weave_pos m (ic_since_meta st) (ic_frames st) xs)"
  "ic_frames (woven info snap m xs st) = snd (weave_pos m (ic_since_meta st) (ic_frames st) xs)"
  "ic_bytes_sent (woven info snap m xs st) = ic_bytes_sent st + length xs"
  "wr_out (ic_writer (woven info snap m xs st)) =
     wr_out (ic_writer st) @ weave (snap_frame info snap) m (ic_since_meta st) (ic_frames st) xs"
  "wr_room (ic_writer (woven info snap m xs st)) = wr_room (ic_writer st)"
  by (simp_all add: woven_def case_prod_beta)

lemma icy_state_eqI:
  "wr_out (ic_writer a) = wr_out (ic_writer b) \<Longrightarrow> wr_room (ic_writer a) = wr_room (ic_writer b) \<Longrightarrow>
   ic_since_meta a = ic_since_meta b \<Longrightarrow> ic_bytes_sent a = ic_bytes_sent b \<Longrightarrow> ic_frames a = ic_frames b \<Longrightarrow>
   (a :: icy_state) = b"
  by (cases a; cases b; cases "ic_writer a"; cases "ic_writer b") simp

lemma woven_append: "woven info snap m ys (woven info snap m xs st) = woven info snap m (xs @ ys) st"
  by (rule icy_state_eqI) (simp_all add: weave_append weave_pos_append case_prod_beta)

lemma woven_Nil [simp]: "woven info snap m [] st = st"
  by (rule icy_state_eqI) simp_all

text \<open>One turn of the loop writes up to the next frame position, and the frame when it is reached.\<close>

lemma icy_loop_turn:
  assumes "wr_room (ic_writer st) = None" and "ic_since_meta st < m" and "offset < length data"
    and n: "n = min (m - ic_since_meta st) (length data - offset)"
  shows "icy_loop info snap m data offset st =
    icy_loop info snap m data (offset + n) (woven info snap m (take n (drop offset data)) st)"
proof -
  let ?c = "take n (drop offset data)"
  have e: "min (offset + (m - ic_since_meta st)) (length data) = offset + n"
    using n assms(3) by auto
  have len: "length ?c = n" using n by simp
  have nmin: "min (length data - offset) n = n" using n by simp
  have pos: "0 < n" using n assms(2,3) by simp
  show ?thesis
  proof (cases "m \<le> ic_since_meta st + n")
    case True
    then have m: "ic_since_meta st + length ?c = m" using n len assms(2) by simp
    have w: "woven info snap m ?c st =
        st\<lparr>ic_bytes_sent := ic_bytes_sent st + n,
           ic_writer := (ic_writer st)\<lparr>wr_out := wr_out (ic_writer st) @ ?c @ snap_frame info snap (ic_frames st)\<rparr>,
           ic_since_meta := 0, ic_frames := Suc (ic_frames st)\<rparr>"
      using weave_exact [OF _ m, of "snap_frame info snap" "ic_frames st"] pos len
      by (intro icy_state_eqI) auto
    show ?thesis
      by (subst icy_loop.simps, subst w, simp only: assms(3) if_True Let_def e write_all_def)
        (use True in \<open>simp add: assms(1) nmin\<close>)
  next
    case False
    have w: "woven info snap m ?c st =
        st\<lparr>ic_writer := (ic_writer st)\<lparr>wr_out := wr_out (ic_writer st) @ ?c\<rparr>,
           ic_bytes_sent := ic_bytes_sent st + n, ic_since_meta := ic_since_meta st + n\<rparr>"
      using weave_short [of "ic_since_meta st" ?c m "snap_frame info snap" "ic_frames st"] len False
      by (intro icy_state_eqI) auto
    show ?thesis
      by (subst icy_loop.simps, subst w, simp only: assms(3) if_True Let_def e write_all_def)
        (use False in \<open>simp add: assms(1) nmin\<close>)
  qed
qed

lemma icy_loop_woven:
  "wr_room (ic_writer st) = None \<Longrightarrow> ic_since_meta st < m \<Longrightarrow>
     icy_loop info snap m data offset st = Some (Inr (), woven info snap m (drop offset data) st)"
proof (induction "length data - offset" arbitrary: offset st rule: less_induct)
  case less
  show ?case
  proof (cases "offset < length data")
    case True
    define n where "n = min (m - ic_since_meta st) (length data - offset)"
    have n: "0 < n" using less.prems True by (simp add: n_def)
    let ?st = "woven info snap m (take n (drop offset data)) st"
    have "icy_loop info snap m data (offset + n) ?st =
        Some (Inr (), woven info snap m (drop (offset + n) data) ?st)"
      using less.prems n True weave_pos_less by (intro less.hyps) auto
    also have "woven info snap m (drop (offset + n) data) ?st = woven info snap m (drop offset data) st"
      by (simp add: woven_append add.commute flip: drop_drop)
    finally show ?thesis using icy_loop_turn [OF less.prems True n_def] by simp
  next
    case False
    then show ?thesis by (simp add: icy_loop.simps)
  qed
qed

lemma write_with_icy_woven:
  "wr_room (ic_writer st) = None \<Longrightarrow> ic_since_meta st < m \<Longrightarrow>
     write_with_icy info snap m data st = Some (Inr (), woven info snap m data st)"
  by (simp add: write_with_icy_def icy_loop_woven)

text \<open>The audio a script of events carries to the listener, up to the first cancellation or end.\<close>

fun event_audio :: "out_event list \<Rightarrow> byte list" where
  "event_audio [] = []"
| "event_audio (OutItem p # evs) =
     (case sp_payload p of Encoded e \<Rightarrow> ep_data e | Decoded _ \<Rightarrow> []) @ event_audio evs"
| "event_audio (_ # evs) = []"

fun event_outcome :: "out_event list \<Rightarrow> disconnect_reason option" where
  "event_outcome [] = None"
| "event_outcome (OutItem p # evs) = event_outcome evs"
| "event_outcome (OutCancelled # evs) = Some ShuttingDown"
| "event_outcome (OutEnd # evs) = Some SourceEnded"

definition out_outcome :: "nat \<Rightarrow> disconnect_reason option \<Rightarrow> icy_state \<Rightarrow> out_result" where
  "out_outcome duration reason st =
     (case reason of None \<Rightarrow> OutRunning st | Some r \<Rightarrow> listener_done duration st r)"

lemma output_loop_icy:
  "wr_room (ic_writer st) = None \<Longrightarrow> ic_since_meta st < m \<Longrightarrow>
     output_loop duration info snap m True evs st =
       out_outcome duration (event_outcome evs) (woven info snap m (event_audio evs) st)"
proof (induction evs arbitrary: st rule: event_audio.induct)
  case (2 p evs)
  show ?case
  proof (cases "sp_payload p")
    case (Encoded e)
    have "output_loop duration info snap m True evs (woven info snap m (ep_data e) st) =
        out_outcome duration (event_outcome evs) (woven info snap m (event_audio evs) (woven info snap m (ep_data e) st))"
      using "2.prems" weave_pos_less by (intro "2.IH") auto
    with 2 Encoded show ?thesis by (simp add: write_with_icy_woven woven_append)
  next
    case (Decoded d)
    with 2 show ?thesis by simp
  qed
qed (auto simp: out_outcome_def)

lemma output_loop_plain:
  "wr_room (ic_writer st) = None \<Longrightarrow>
     output_loop duration info snap m False evs st =
       out_outcome duration (event_outcome evs)
         (st\<lparr>ic_writer := (ic_writer st)\<lparr>wr_out := wr_out (ic_writer st) @ event_audio evs\<rparr>,
            ic_bytes_sent := ic_bytes_sent st + length (event_audio evs)\<rparr>)"
proof (induction evs arbitrary: st rule: event_audio.induct)
  case (2 p evs)
  then show ?case
    by (auto simp: write_all_def out_outcome_def add.assoc split: audio_payload.splits option.splits)
qed (auto simp: out_outcome_def intro!: icy_state_eqI arg_cong2 [where f = "listener_done duration"])

section \<open>The ICY client\<close>

text \<open>
  A client that asked for metadata: after \<open>metaint\<close> audio bytes a length byte \<open>l\<close>, then \<open>16 * l\<close>
  bytes of metadata to set aside. \<open>k\<close> counts the audio bytes until the next length byte.
\<close>

function icy_strip :: "nat \<Rightarrow> nat \<Rightarrow> byte list \<Rightarrow> byte list" where
  "icy_strip metaint k [] = []"
| "icy_strip metaint 0 (l # rest) = icy_strip metaint metaint (drop (16 * unat l) rest)"
| "icy_strip metaint (Suc k) (b # rest) = b # icy_strip metaint k rest"
  by pat_completeness auto
termination by (relation "measure (\<lambda>(m, k, bs). length bs)") auto

definition frame_fits :: "byte list \<Rightarrow> bool" where
  "frame_fits f \<longleftrightarrow> f \<noteq> [] \<and> length f = Suc (16 * unat (hd f))"

lemma icy_strip_frame: "frame_fits f \<Longrightarrow> icy_strip m 0 (f @ rest) = icy_strip m m rest"
  by (cases f) (auto simp: frame_fits_def)

lemma icy_strip_weave:
  "\<forall>i. frame_fits (frame i) \<Longrightarrow> since < m \<Longrightarrow> icy_strip m (m - since) (weave frame m since i xs) = xs"
proof (induction xs arbitrary: since i)
  case (Cons x xs)
  then have k: "m - since = Suc (m - Suc since)" by simp
  show ?case
  proof (cases "m \<le> Suc since")
    case True
    then have "m - Suc since = 0" by simp
    with True k Cons show ?thesis
      using icy_strip_frame [of "frame i" m] Cons.IH [of 0 "Suc i"] by simp
  next
    case False
    with k Cons show ?thesis by simp
  qed
qed simp

lemma frame_fits_iff:
  "frame_fits (build_icy_frame info t ov) \<longleftrightarrow>
     icy_title info t ov = [] \<and> icy_url info ov = [] \<or>
     length (icy_text (icy_title info t ov) (icy_url info ov)) \<le> 4080"
proof (cases "icy_title info t ov = [] \<and> icy_url info ov = []")
  case True
  then show ?thesis by (simp add: build_icy_frame_def frame_fits_def)
next
  case False
  define raw where "raw = bytes_of (icy_text (icy_title info t ov) (icy_url info ov))"
  define blocks where "blocks = (length raw + 15) div 16"
  have f: "build_icy_frame info t ov =
      (if blocks < 256 then of_nat blocks else 255) # raw @ replicate (blocks * 16 - length raw) 0"
    by (simp only: build_icy_frame_def Let_def raw_def blocks_def False if_False)
  have len: "length raw \<le> blocks * 16" "blocks < 256 \<longleftrightarrow> length raw \<le> 4080"
    by (auto simp: blocks_def)
  show ?thesis
  proof (cases "blocks < 256")
    case True
    then have "unat (of_nat blocks :: byte) = blocks" by (simp add: unat_of_nat take_bit_nat_eq_self)
    with True f len False show ?thesis by (simp add: frame_fits_def raw_def)
  next
    case big: False
    then have "length (build_icy_frame info t ov) = Suc (16 * blocks)" using f len by simp
    with big f len False show ?thesis by (simp add: frame_fits_def raw_def)
  qed
qed

text \<open>
  Claim C11. The ICY listener protocol: whatever packets the audio comes in, a client that removes
  the metadata frames from what it received has exactly the encoded audio of the packets, in
  order, up to the event that ended the session; the reported byte count is the length of that
  audio. This holds as long as every frame's text fits the frame's length byte (4080 bytes).
\<close>

theorem icy_listener_roundtrip:
  assumes "0 < metaint"
    and "\<forall>i. case snap i of (t, ov) \<Rightarrow> length (icy_text (icy_title info t ov) (icy_url info ov)) \<le> 4080"
    and "http_passthrough_run duration info snap metaint True evs \<lparr>wr_out = [], wr_room = None\<rparr> =
      OutFinished (Inr stats) st"
  shows "icy_strip metaint metaint (wr_out (ic_writer st)) = event_audio evs \<and>
    ls_bytes_sent stats = length (event_audio evs) \<and>
    event_outcome evs = Some (ls_disconnect_reason stats)"
proof -
  let ?w = "\<lparr>wr_out = [], wr_room = None\<rparr>"
  have "output_loop duration info snap metaint True evs (icy_init ?w) =
      out_outcome duration (event_outcome evs) (woven info snap metaint (event_audio evs) (icy_init ?w))"
    using assms(1) by (intro output_loop_icy) (simp_all add: icy_init_def)
  with assms(3) obtain r where r: "event_outcome evs = Some r"
      "st = woven info snap metaint (event_audio evs) (icy_init ?w)"
      "stats = \<lparr>ls_bytes_sent = ic_bytes_sent st, ls_duration = duration, ls_disconnect_reason = r\<rparr>"
    by (auto simp: http_passthrough_run_def out_outcome_def listener_done_def split: option.splits)
  have "\<forall>i. frame_fits (snap_frame info snap i)"
    using assms(2) by (simp add: frame_fits_iff case_prod_beta)
  from icy_strip_weave [OF this assms(1), of 0] r show ?thesis
    by (simp add: icy_init_def)
qed

definition icy_sample_info :: mount_info where
  "icy_sample_info = \<lparr>mi_path = ''/live'', mi_codec = MP3, mi_source_password = ''s'',
     mi_max_listeners = None, mi_metadata = default_metadata\<rparr>"

theorem icy_listener_roundtrip_witness:
  "\<exists>stats st. http_passthrough_run 7 icy_sample_info (\<lambda>i. (Some ''A'', None)) 3 True
      [OutItem (enc_packet [1, 2] 0), OutItem (enc_packet [3, 4] 1), OutEnd] \<lparr>wr_out = [], wr_room = None\<rparr> =
      OutFinished (Inr stats) st \<and>
    icy_strip 3 3 (wr_out (ic_writer st)) = [1, 2, 3, 4] \<and> ls_bytes_sent stats = 4"
proof -
  let ?w = "\<lparr>wr_out = [], wr_room = None\<rparr>" and ?snap = "\<lambda>i :: nat. (Some ''A'', None :: source_overlay option)"
  let ?evs = "[OutItem (enc_packet [1, 2] 0), OutItem (enc_packet [3, 4] 1), OutEnd]"
  obtain stats st where r: "http_passthrough_run 7 icy_sample_info ?snap 3 True ?evs ?w = OutFinished (Inr stats) st"
    using output_loop_icy [of "icy_init ?w" 3 7 icy_sample_info ?snap ?evs]
    by (simp add: http_passthrough_run_def icy_init_def enc_packet_def out_outcome_def listener_done_def)
  have "\<forall>i. case ?snap i of (t, ov) \<Rightarrow>
      length (icy_text (icy_title icy_sample_info t ov) (icy_url icy_sample_info ov)) \<le> 4080"
    by (simp add: icy_text_def icy_title_def icy_url_def icy_sample_info_def default_metadata_def)
  from icy_listener_roundtrip [OF _ this r] r show ?thesis
    by (simp add: enc_packet_def)
qed

section \<open>The plain listener, termination, and oversized metadata\<close>

text \<open>
  Without ICY metadata the listener receives exactly the encoded audio of the packets,
  in order, until the event that ends the session; a packet that is not encoded is skipped, and a
  cancelled listener is always reported as shutting down: a kick, which cancels the same token, is
  never told apart from it.
\<close>

theorem plain_listener_output:
  "http_passthrough_run duration info snap metaint False evs \<lparr>wr_out = [], wr_room = None\<rparr> =
     out_outcome duration (event_outcome evs)
       \<lparr>ic_writer = \<lparr>wr_out = event_audio evs, wr_room = None\<rparr>, ic_since_meta = 0,
        ic_bytes_sent = length (event_audio evs), ic_frames = 0\<rparr> \<and>
   event_outcome evs \<noteq> Some Kicked"
proof -
  have "event_outcome evs \<noteq> Some Kicked"
    by (induction evs rule: event_outcome.induct) simp_all
  then show ?thesis
    by (simp add: http_passthrough_run_def output_loop_plain icy_init_def)
qed

lemma write_all_room: "write_all w bs = (r, w') \<Longrightarrow> wr_room w = None \<Longrightarrow> r = Inr () \<and> wr_room w' = None"
  by (auto simp: write_all_def)

lemma icy_loop_zero_metaint:
  assumes "icy_loop info snap m data offset st = Some y"
    and "m = 0" and "offset < length data" and "wr_room (ic_writer st) = None"
  shows False
proof -
  have "m = 0 \<longrightarrow> offset < length data \<longrightarrow> wr_room (ic_writer st) = None \<longrightarrow> False"
    by (rule icy_loop.raw_induct [where P = "\<lambda>info snap m data offset st y. m = 0 \<longrightarrow>
          offset < length data \<longrightarrow> wr_room (ic_writer st) = None \<longrightarrow> False", OF _ assms(1)])
      (clarify, fastforce simp: Let_def write_all_def min_def split: if_splits)
  with assms show False by blast
qed

text \<open>
  Claim C34. The write loop returns for every packet when the metadata interval is positive, on a
  connection that holds; with an interval of zero it never returns for a packet with data: it
  writes metadata frames for ever.
\<close>

theorem write_with_icy_returns_iff:
  assumes "wr_room (ic_writer st) = None" and "ic_since_meta st < metaint \<or> metaint = 0 \<and> ic_since_meta st = 0"
    and "data \<noteq> []"
  shows "(\<exists>r. write_with_icy info snap metaint data st = Some r) \<longleftrightarrow> 0 < metaint"
proof (cases "metaint = 0")
  case True
  then have "write_with_icy info snap metaint data st = None"
    using icy_loop_zero_metaint [of info snap metaint data 0 st] assms
    by (cases "write_with_icy info snap metaint data st") (auto simp: write_with_icy_def)
  with True show ?thesis by simp
next
  case False
  then show ?thesis using assms write_with_icy_woven [of st metaint info snap data] by auto
qed

theorem write_with_icy_returns_iff_witness:
  "(\<nexists>r. write_with_icy icy_sample_info (\<lambda>i. (None, None)) 0 [1] (icy_init \<lparr>wr_out = [], wr_room = None\<rparr>) = Some r) \<and>
   (\<exists>r. write_with_icy icy_sample_info (\<lambda>i. (None, None)) 8192 [1] (icy_init \<lparr>wr_out = [], wr_room = None\<rparr>) = Some r)"
  using write_with_icy_returns_iff [of "icy_init \<lparr>wr_out = [], wr_room = None\<rparr>" 0 "[1]" icy_sample_info "\<lambda>i. (None, None)"]
    write_with_icy_returns_iff [of "icy_init \<lparr>wr_out = [], wr_room = None\<rparr>" 8192 "[1]" icy_sample_info "\<lambda>i. (None, None)"]
  by (simp add: icy_init_def)

text \<open>
  A metadata text of more than 4080 bytes breaks the framing: the length byte is capped
  at 255 while the frame keeps all its blocks, so the client takes the end of the metadata for
  audio. Nothing in this file bounds the title.
\<close>

theorem icy_frame_overflow:
  assumes "4080 < length (icy_text (icy_title info t ov) (icy_url info ov))"
    and "icy_title info t ov \<noteq> []"
  shows "hd (build_icy_frame info t ov) = 255 \<and>
    1 + 16 * unat (hd (build_icy_frame info t ov)) < length (build_icy_frame info t ov)"
proof -
  define raw where "raw = bytes_of (icy_text (icy_title info t ov) (icy_url info ov))"
  have ne: "\<not> (icy_title info t ov = [] \<and> icy_url info ov = [])" using assms(2) by simp
  have f: "build_icy_frame info t ov =
      (if (length raw + 15) div 16 < 256 then of_nat ((length raw + 15) div 16) else 255) # raw @
        replicate ((length raw + 15) div 16 * 16 - length raw) 0"
    by (simp only: build_icy_frame_def Let_def raw_def ne if_False)
  have "4080 < length raw" using assms(1) by (simp add: raw_def)
  with f show ?thesis by simp
qed

theorem icy_frame_overflow_witness:
  "hd (build_icy_frame icy_sample_info (Some (replicate 4080 (CHR ''x''))) None) = 255"
  by (rule icy_frame_overflow [THEN conjunct1])
    (simp_all add: icy_text_def icy_title_def)

end
