(* ===== verification/Listener_Session.thy ===== *)
theory Listener_Session
  imports App_State Source_Head Icy_Output
begin

text \<open>
  A listener on the stream port: \<open>listener_handler\<close> of \<open>stream_router.rs\<close> (the checks, the
  subscription, the registration, the response headers), the task it spawns, and the writer that
  counts the bytes sent. Whether a header value is valid is decided by the \<open>http\<close> crate and an
  argument.
\<close>

section \<open>The writer\<close>

text \<open>\<open>CountingWriter::poll_write\<close>: the bytes a successful write took are added to the gauge.\<close>

datatype write_poll = WrPending | WrErr io_err | WrTaken nat

definition counting_poll_write :: "write_poll \<Rightarrow> active_mount \<Rightarrow> active_mount" where
  "counting_poll_write result m =
     (case result of
        WrTaken n \<Rightarrow> m\<lparr>am_stats := (am_stats m)\<lparr>ms_bytes_sent := ms_bytes_sent (am_stats m) + of_nat n\<rparr>\<rparr>
      | _ \<Rightarrow> m)"

lemma counting_writes:
  "ms_bytes_sent (am_stats (foldl (\<lambda>m r. counting_poll_write r m) m rs)) =
     ms_bytes_sent (am_stats m) + of_nat (\<Sum>r\<leftarrow>rs. case r of WrTaken n \<Rightarrow> n | _ \<Rightarrow> 0)"
  by (induction rs arbitrary: m) (auto simp: counting_poll_write_def split: write_poll.split)

section \<open>The response\<close>

definition content_type_for :: "codec_id \<Rightarrow> string" where
  "content_type_for codec = (case codec of VORBIS \<Rightarrow> ''application/ogg'' | _ \<Rightarrow> ''audio/mpeg'')"

definition icy_wanted :: "headers \<Rightarrow> codec_id \<Rightarrow> bool" where
  "icy_wanted hs codec \<longleftrightarrow>
     codec = MP3 \<and> (case header_str hs ''icy-metadata'' of None \<Rightarrow> False | Some v \<Rightarrow> trim v = ''1'')"

definition optional_header :: "string \<Rightarrow> string option \<Rightarrow> (string \<times> string) list" where
  "optional_header name v = (case v of None \<Rightarrow> [] | Some s \<Rightarrow> [(name, s)])"

definition response_headers :: "codec_id \<Rightarrow> effective_identity \<Rightarrow> bool \<Rightarrow> (string \<times> string) list" where
  "response_headers codec identity icy_requested =
     [(''content-type'', content_type_for codec), (''access-control-allow-origin'', ''*'')] @
     optional_header ''icy-name'' (ei_name identity) @
     optional_header ''icy-description'' (ei_description identity) @
     optional_header ''icy-genre'' (ei_genre identity) @
     optional_header ''icy-url'' (ei_url identity) @
     optional_header ''icy-pub'' (map_option (\<lambda>p. if p then ''1'' else ''0'') (ei_public identity)) @
     optional_header ''ice-audio-info'' (ei_audio_info identity) @
     optional_header ''icy-br'' (map_option show_nat (ei_bitrate_kbps identity)) @
     (if icy_requested then [(''icy-metaint'', ''8192'')] else [])"

text \<open>A builder that was given an invalid value answers 500 in place of the stream.\<close>

definition build_response :: "(string \<Rightarrow> bool) \<Rightarrow> (string \<times> string) list \<Rightarrow> response" where
  "build_response value_ok hs =
     (if list_all (\<lambda>(n, v). value_ok v) hs then \<lparr>re_status = 200, re_headers = hs, re_body = []\<rparr>
      else status_response 500 [])"

section \<open>The handler\<close>

record listener_session =
  ln_id :: nat
  ln_addr :: mount_addr
  ln_info :: mount_info
  ln_prefix :: "byte list option"
  ln_burst :: "stream_packet list"
  ln_icy :: bool
  ln_token :: token

text \<open>The checks before the subscription: a refusal, or the mount.\<close>

definition listener_check :: "string \<Rightarrow> app_state \<Rightarrow> response + mount_addr" where
  "listener_check mount_path st =
     (case find_app_mount st mount_path of
        None \<Rightarrow> Inl (status_response 404 ''mount not found'')
      | Some a \<Rightarrow>
          if lm_max_listeners_global (cf_limits (ap_config st)) \<le> total_count (ap_listeners st) then
            Inl (status_response 503 ''server full'')
          else (case mi_max_listeners (am_info (app_mount st a)) of
                  Some mx \<Rightarrow>
                    if mx \<le> listener_count (app_mount st a) then Inl (status_response 503 ''mount full'') else Inr a
                | None \<Rightarrow> Inr a))"

text \<open>The subscription and the registration of an accepted listener.\<close>

definition listener_join ::
  "nat \<Rightarrow> string \<Rightarrow> string \<Rightarrow> headers \<Rightarrow> mount_addr \<Rightarrow> app_state \<Rightarrow> listener_session \<times> app_state" where
  "listener_join now mount_path peer hs a st =
     (let m = app_mount st a;
          transcode = mount_transcode (ap_config st) mount_path;
          codec = resolve_output_codec (mi_codec (am_info m)) transcode;
          header_bytes = am_header_bytes m;
          (burst, b) = (if header_bytes \<noteq> None then subscribe_live (am_bus m) else subscribe (am_bus m));
          (cancel, st1) = fresh_token st;
          (i, lm) = listener_register now mount_path (Some peer) cancel (ap_listeners st1)
      in (\<lparr>ln_id = i, ln_addr = a, ln_info = am_info m, ln_prefix = header_bytes, ln_burst = burst,
           ln_icy = icy_wanted hs codec, ln_token = cancel\<rparr>,
          put_mount a (m\<lparr>am_bus := b\<rparr>) (st1\<lparr>ap_listeners := lm\<rparr>)))"

definition listener_response :: "(string \<Rightarrow> bool) \<Rightarrow> string \<Rightarrow> listener_session \<Rightarrow> app_state \<Rightarrow> response" where
  "listener_response value_ok mount_path ln st =
     (let m = app_mount st (ln_addr ln);
          transcode = mount_transcode (ap_config st) mount_path
      in build_response value_ok
           (response_headers (resolve_output_codec (mi_codec (ln_info ln)) transcode)
             (effective_identity_of m transcode) (ln_icy ln)))"

definition listener_handler ::
  "(string \<Rightarrow> bool) \<Rightarrow> nat \<Rightarrow> string \<Rightarrow> string \<Rightarrow> headers \<Rightarrow> app_state \<Rightarrow>
     (response \<times> listener_session option) \<times> app_state" where
  "listener_handler value_ok now mount_segment peer hs st =
     (let mount_path = ''/'' @ mount_segment in
      case listener_check mount_path st of
        Inl r \<Rightarrow> ((r, None), st)
      | Inr a \<Rightarrow>
          (case listener_join now mount_path peer hs a st of
             (ln, st1) \<Rightarrow> ((listener_response value_ok mount_path ln st1, Some ln), st1)))"

section \<open>The listener task\<close>

datatype listener_end = PrefixFailed icy_writer | OutputEnded out_result

text \<open>The captured header pages go first, then the burst and what the live subscription yields.\<close>

definition listener_task ::
  "nat \<Rightarrow> icy_snap \<Rightarrow> listener_session \<Rightarrow> out_event list \<Rightarrow> icy_writer \<Rightarrow> listener_end" where
  "listener_task duration snap ln live w =
     (let (r, w') = (case ln_prefix ln of None \<Rightarrow> (Inr (), w) | Some h \<Rightarrow> write_all w h) in
      case r of
        Inl e \<Rightarrow> PrefixFailed w'
      | Inr _ \<Rightarrow>
          OutputEnded (http_passthrough_run duration (ln_info ln) snap default_icy_metaint (ln_icy ln)
            (map OutItem (ln_burst ln) @ live) w'))"

text \<open>
  When the task ends its subscription is dropped, the \<open>k\<close>-th receiver of the bus at that time, and
  it is taken out of the listener map.
\<close>

definition listener_leave :: "listener_session \<Rightarrow> nat \<Rightarrow> app_state \<Rightarrow> app_state" where
  "listener_leave ln k st =
     (let m = app_mount st (ln_addr ln) in
      (put_mount (ln_addr ln) (m\<lparr>am_bus := drop_receiver (am_bus m) k\<rparr>) st)
        \<lparr>ap_listeners := listener_deregister (ln_id ln) (ap_listeners st)\<rparr>)"

lemma advertised_metaint: "show_nat default_icy_metaint = ''8192''"
  by (simp add: default_icy_metaint_def show_nat.simps char_of_eq_iff)

section \<open>What a listener gets\<close>

lemma event_audio_items:
  "event_audio (map OutItem ps @ evs) = event_audio (map OutItem ps) @ event_audio evs"
  "event_outcome (map OutItem ps @ evs) = event_outcome evs"
  by (induction ps) auto

text \<open>The last element of a joined session is known without its internals.\<close>

lemma listener_join_facts:
  assumes "listener_join now p peer hs a st = (ln, st')"
  shows "ln_id ln = lm_next_id (ap_listeners st)" and "ln_addr ln = a" and "ln_info ln = am_info (app_mount st a)"
    and "ln_prefix ln = am_header_bytes (app_mount st a)"
    and "ln_burst ln = (if am_header_bytes (app_mount st a) = None then fst (subscribe (am_bus (app_mount st a))) else [])"
    and "ln_icy ln = icy_wanted hs (resolve_output_codec (mi_codec (am_info (app_mount st a))) (mount_transcode (ap_config st) p))"
    and "ap_config st' = ap_config st" and "ap_mounts st' = ap_mounts st"
    and "ap_listeners st' = snd (listener_register now p (Some peer) (ln_token ln) (ap_listeners st))"
    and "app_mount st' a = (app_mount st a)\<lparr>am_bus := add_receiver (am_bus (app_mount st a))\<rparr>"
  using assms
  by (auto simp: listener_join_def Let_def fresh_token_def listener_register_def subscribe_live_def subscribe_def
      app_mount_def put_mount_def split: prod.splits if_splits)

lemma listener_task_plain:
  assumes "\<not> ln_icy ln" and "wr_room w = None"
  shows "listener_task duration snap ln live w =
    OutputEnded (out_outcome duration (event_outcome live)
      \<lparr>ic_writer = w\<lparr>wr_out := wr_out w @ unwrap_or (ln_prefix ln) [] @ event_audio (map OutItem (ln_burst ln)) @ event_audio live\<rparr>,
       ic_since_meta = 0, ic_bytes_sent = length (event_audio (map OutItem (ln_burst ln)) @ event_audio live),
       ic_frames = 0\<rparr>)"
  using assms
  by (cases "ln_prefix ln")
    (simp_all add: listener_task_def http_passthrough_run_def output_loop_plain icy_init_def event_audio_items write_all_def)

lemma subscribe_receiver: "snd (subscribe b) = add_receiver b" "snd (subscribe_live b) = add_receiver b"
  by (simp_all add: subscribe_def subscribe_live_def)

text \<open>
  Claim C5. What a listener is sent: the response names the codec that is really sent, announces
  metadata exactly when the client asked for it on an MP3 stream, with the interval the output
  uses; and without metadata the connection carries the captured header pages once, then, when
  there are none, the burst history, then the live packets, with nothing in between.
\<close>

theorem listener_stream:
  assumes "listener_handler value_ok now seg peer hs st = ((r, Some ln), st')"
  shows "\<exists>a codec. find_app_mount st (''/'' @ seg) = Some a \<and>
      codec = resolve_output_codec (mi_codec (am_info (app_mount st a))) (mount_transcode (ap_config st) (''/'' @ seg)) \<and>
      (re_status r = 200 \<longrightarrow> (''content-type'', content_type_for codec) \<in> set (re_headers r) \<and>
         ((''icy-metaint'', show_nat default_icy_metaint) \<in> set (re_headers r) \<longleftrightarrow> ln_icy ln)) \<and>
      (ln_icy ln \<longleftrightarrow> icy_wanted hs codec) \<and>
      (\<not> ln_icy ln \<longrightarrow>
         listener_task duration snap ln live \<lparr>wr_out = [], wr_room = None\<rparr> =
           OutputEnded (out_outcome duration (event_outcome live)
             (let burst = (if am_header_bytes (app_mount st a) = None then fst (subscribe (am_bus (app_mount st a))) else []);
                  audio = event_audio (map OutItem burst) @ event_audio live
              in \<lparr>ic_writer = \<lparr>wr_out = unwrap_or (am_header_bytes (app_mount st a)) [] @ audio, wr_room = None\<rparr>,
                  ic_since_meta = 0, ic_bytes_sent = length audio, ic_frames = 0\<rparr>)))"
proof -
  let ?p = "''/'' @ seg"
  obtain a where c: "listener_check ?p st = Inr a"
    and j: "listener_join now ?p peer hs a st = (ln, st')"
    and r: "r = listener_response value_ok ?p ln st'"
    using assms by (auto simp: listener_handler_def Let_def split: sum.splits prod.splits)
  note f = listener_join_facts [OF j]
  have fm: "find_app_mount st ?p = Some a"
    using c by (auto simp: listener_check_def split: option.splits if_splits)
  have hdr: "(''icy-metaint'', x) \<notin> set (optional_header n v)" if "n \<noteq> ''icy-metaint''" for x n v
    using that by (auto simp: optional_header_def split: option.splits)
  have rs: "re_status r = 200 \<longrightarrow> (''content-type'', content_type_for
       (resolve_output_codec (mi_codec (am_info (app_mount st a))) (mount_transcode (ap_config st) ?p))) \<in> set (re_headers r) \<and>
     ((''icy-metaint'', show_nat default_icy_metaint) \<in> set (re_headers r) \<longleftrightarrow> ln_icy ln)"
    by (auto simp: r listener_response_def build_response_def response_headers_def Let_def f status_response_def hdr
        advertised_metaint split: if_splits)
  show ?thesis
    using fm rs f(6) by (intro exI [of _ a]) (auto simp: listener_task_plain f Let_def)
qed

section \<open>The listener limit\<close>

lemma listener_handler_state:
  "snd (listener_handler value_ok now seg peer hs st) =
     (case listener_check (''/'' @ seg) st of
        Inl _ \<Rightarrow> st | Inr a \<Rightarrow> snd (listener_join now (''/'' @ seg) peer hs a st))"
  by (auto simp: listener_handler_def Let_def split: sum.split prod.split)

lemma listener_join_count:
  assumes "listeners_inv (ap_listeners st)"
  shows "total_count (ap_listeners (snd (listener_join now p peer hs a st))) = Suc (total_count (ap_listeners st))"
    and "listeners_inv (ap_listeners (snd (listener_join now p peer hs a st)))"
proof -
  obtain ln st' where j: "listener_join now p peer hs a st = (ln, st')" by fastforce
  note f = listener_join_facts(9) [OF j]
  show "total_count (ap_listeners (snd (listener_join now p peer hs a st))) = Suc (total_count (ap_listeners st))"
    using assms by (simp add: j f total_count_register)
  show "listeners_inv (ap_listeners (snd (listener_join now p peer hs a st)))"
    using assms by (simp add: j f listeners_inv_register)
qed

text \<open>
  Claim C35. The server-wide listener limit. Requests handled one after the other never bring the
  number of listeners above it; but the check and the registration are separate, and requests that
  have all passed the check are all registered, whatever the limit.
\<close>

theorem listener_limit:
  assumes "listeners_inv (ap_listeners st)"
  shows "(total_count (ap_listeners st) \<le> lm_max_listeners_global (cf_limits (ap_config st)) \<longrightarrow>
      total_count (ap_listeners (foldl (\<lambda>s (seg, hs). snd (listener_handler value_ok now seg peer hs s)) st reqs))
        \<le> lm_max_listeners_global (cf_limits (ap_config st))) \<and>
    (listener_check (''/'' @ seg') st = Inr a \<longrightarrow>
      total_count (ap_listeners (foldl (\<lambda>s hs. snd (listener_join now (''/'' @ seg') peer hs a s)) st passed)) =
        total_count (ap_listeners st) + length passed)"
proof -
  let ?lim = "\<lambda>s. lm_max_listeners_global (cf_limits (ap_config s))"
  let ?ok = "\<lambda>s. listeners_inv (ap_listeners s) \<and> total_count (ap_listeners s) \<le> ?lim s"
  have one: "?ok (snd (listener_handler value_ok now seg peer hs s)) \<and>
      ap_config (snd (listener_handler value_ok now seg peer hs s)) = ap_config s" if "?ok s" for s seg hs
  proof (cases "listener_check (''/'' @ seg) s")
    case (Inl r)
    with that show ?thesis by (simp add: listener_handler_state)
  next
    case (Inr b)
    then have lt: "Suc (total_count (ap_listeners s)) \<le> ?lim s"
      by (auto simp: listener_check_def split: option.splits if_splits)
    obtain ln s' where j: "listener_join now (''/'' @ seg) peer hs b s = (ln, s')" by fastforce
    have e: "snd (listener_handler value_ok now seg peer hs s) = s'"
      unfolding listener_handler_state Inr using j by simp
    note c = listener_join_count [OF conjunct1 [OF that], of now "''/'' @ seg" peer hs b, unfolded j snd_conv]
    show ?thesis
      unfolding e listener_join_facts(7) [OF j] c(1) using lt c(2) by blast
  qed
  have many: "?ok (foldl (\<lambda>s (seg, hs). snd (listener_handler value_ok now seg peer hs s)) s rs) \<and>
      ap_config (foldl (\<lambda>s (seg, hs). snd (listener_handler value_ok now seg peer hs s)) s rs) = ap_config s"
    if "?ok s" for s rs
    using that
  proof (induction rs arbitrary: s)
    case (Cons q rs)
    obtain seg hs where q: "q = (seg, hs)" by (cases q)
    define s1 where "s1 = snd (listener_handler value_ok now seg peer hs s)"
    have o: "?ok s1" "ap_config s1 = ap_config s" using one [OF Cons.prems, of seg hs] unfolding s1_def by blast+
    have f: "foldl (\<lambda>s (seg, hs). snd (listener_handler value_ok now seg peer hs s)) s (q # rs) =
        foldl (\<lambda>s (seg, hs). snd (listener_handler value_ok now seg peer hs s)) s1 rs"
      by (simp add: q s1_def)
    show ?case unfolding f using Cons.IH [OF o(1)] unfolding o(2) by blast
  qed simp
  have joins: "total_count (ap_listeners (foldl (\<lambda>s hs. snd (listener_join now p peer hs a s)) s hss)) =
      total_count (ap_listeners s) + length hss" if "listeners_inv (ap_listeners s)" for s p hss
    using that
  proof (induction hss arbitrary: s)
    case (Cons q hss)
    then show ?case using listener_join_count [of s now p peer q a] by simp
  qed simp
  show ?thesis
  proof (intro conjI impI)
    assume "total_count (ap_listeners st) \<le> ?lim st"
    with assms have "?ok st" by blast
    from many [OF this, of reqs]
    show "total_count (ap_listeners (foldl (\<lambda>s (seg, hs). snd (listener_handler value_ok now seg peer hs s)) st reqs)) \<le> ?lim st"
      by metis
  qed (rule joins [OF assms])
qed

section \<open>Concrete instances\<close>

lemma sample_check: "listener_check ''/dj'' (sample_app tc) = Inr 0"
  by (simp add: listener_check_def sample_find)
    (simp add: sample_app_def sample_cfg_def app_mount_def active_mount_new_def total_count_def listener_map_new_def)

theorem listener_limit_witness:
  "total_count (ap_listeners (foldl (\<lambda>s hs. snd (listener_join 3 (''/'' @ ''dj'') ''peer'' hs 0 s)) (sample_app None)
     (replicate 11 Map.empty))) = 11 \<and> lm_max_listeners_global (cf_limits (ap_config (sample_app None))) = 10"
proof -
  have i: "listeners_inv (ap_listeners (sample_app None))"
    by (simp add: sample_app_def listeners_inv_new)
  have z: "total_count (ap_listeners (sample_app None)) = 0"
    by (simp add: sample_app_def total_count_def listener_map_new_def)
  show ?thesis
    using listener_limit [OF i, THEN conjunct2, rule_format, of "''dj''" 0 3 "''peer''" "replicate 11 Map.empty"] z
    by (simp add: sample_check) (simp add: sample_app_def sample_cfg_def)
qed

theorem listener_stream_witness:
  "\<exists>r ln st'. listener_handler (\<lambda>_. True) 3 ''dj'' ''peer'' Map.empty (sample_app None) = ((r, Some ln), st') \<and>
     re_status r = 200 \<and> (''content-type'', ''audio/mpeg'') \<in> set (re_headers r)"
proof -
  obtain ln st' where j: "listener_join 3 (''/'' @ ''dj'') ''peer'' Map.empty 0 (sample_app None) = (ln, st')" by fastforce
  let ?r = "listener_response (\<lambda>_. True) (''/'' @ ''dj'') ln st'"
  have h: "listener_handler (\<lambda>_. True) 3 ''dj'' ''peer'' Map.empty (sample_app None) = ((?r, Some ln), st')"
    using j by (simp add: listener_handler_def Let_def sample_check)
  have "mi_codec (am_info (app_mount (sample_app None) 0)) = MP3" "mount_transcode (ap_config (sample_app None)) ''/dj'' = None"
    by (simp_all add: sample_app_def sample_cfg_def app_mount_def active_mount_new_def mount_transcode_def)
  moreover have "re_status ?r = 200"
    by (simp add: listener_response_def build_response_def Let_def list_all_iff)
  ultimately show ?thesis
    using listener_stream [OF h] h by (auto simp: sample_find resolve_output_codec_def content_type_for_def)
qed

end
