(* ===== verification/Chunked_Decoder.thy ===== *)
theory Chunked_Decoder
  imports Async_Io
begin

text \<open>
  \<open>crates/rustyice-server/src/chunked.rs\<close>: the decoder of the chunked transfer encoding, a state
  machine over a reader that may answer pending, an error, or any number of bytes at each poll.
  The inner reader is the scripted socket of \<open>Async_Io\<close>. A poll is given room for some bytes and
  returns the bytes it appends to the caller's buffer, which is what the code's \<open>ReadBuf\<close> holds
  after it.
\<close>

section \<open>State\<close>

definition max_size_line_bytes :: nat where
  "max_size_line_bytes = 64"

definition max_trailer_bytes :: nat where
  "max_trailer_bytes = 4096"

datatype chunk_state =
  NextSize | Payload nat | AfterPayload nat | Trailers | ChunkDone | ChunkErrored

record chunked_decoder =
  cd_inner :: net_reader
  cd_state :: chunk_state
  cd_scratch :: "byte list"

definition chunked_new :: "net_reader \<Rightarrow> chunked_decoder" where
  "chunked_new inner = \<lparr>cd_inner = inner, cd_state = NextSize, cd_scratch = []\<rparr>"

section \<open>Lines\<close>

fun find_crlf :: "byte list \<Rightarrow> nat option" where
  "find_crlf (a # b # xs) =
     (if a = 13 \<and> b = 10 then Some 0 else map_option Suc (find_crlf (b # xs)))"
| "find_crlf _ = None"

definition chunk_size_semicolon :: byte where
  "chunk_size_semicolon = 59"

definition parse_chunk_size :: "byte list \<Rightarrow> io_err + nat" where
  "parse_chunk_size line =
     (let end' = (case position (\<lambda>b. b = chunk_size_semicolon) line of Some i \<Rightarrow> i | None \<Rightarrow> length line)
      in case str_from_utf8 (take end' line) of
           None \<Rightarrow> Inl (IoErr InvalidDataKind ''chunk size not utf-8'')
         | Some s \<Rightarrow>
             (case parse_hex 64 (trim s) of
                None \<Rightarrow> Inl (IoErr InvalidDataKind ''chunk size not hex'')
              | Some n \<Rightarrow> Inr n))"

datatype line_poll = LinePending | LineErr io_err | LineReady "byte list"

function poll_fill_line :: "nat \<Rightarrow> chunked_decoder \<Rightarrow> line_poll \<times> chunked_decoder" where
  "poll_fill_line max_bytes d =
     (case find_crlf (cd_scratch d) of
        Some pos \<Rightarrow>
          (LineReady (take pos (cd_scratch d)), d\<lparr>cd_scratch := drop (pos + 2) (cd_scratch d)\<rparr>)
      | None \<Rightarrow>
          if length (cd_scratch d) \<ge> max_bytes then
            (LineErr (IoErr InvalidDataKind ''chunked header line too long''), d\<lparr>cd_state := ChunkErrored\<rparr>)
          else (case net_poll 1 (cd_inner d) of
                  (RdPending, r) \<Rightarrow> (LinePending, d\<lparr>cd_inner := r\<rparr>)
                | (RdErr e, r) \<Rightarrow> (LineErr e, d\<lparr>cd_inner := r\<rparr>)
                | (RdOk [], r) \<Rightarrow>
                    (LineErr (IoErr UnexpectedEof ''chunked stream ended mid-header''), d\<lparr>cd_inner := r\<rparr>)
                | (RdOk (b # _), r) \<Rightarrow>
                    poll_fill_line max_bytes (d\<lparr>cd_inner := r, cd_scratch := cd_scratch d @ [b]\<rparr>)))"
  by pat_completeness auto
termination
  by (relation "measure (\<lambda>(m, d). m - length (cd_scratch d))") auto

declare poll_fill_line.simps [simp del]

text \<open>Every byte of the reader is in the scratch buffer, consumed with the line, or still unread.\<close>

lemma find_crlf_SomeD:
  "find_crlf xs = Some p \<Longrightarrow> p + 2 \<le> length xs \<and> xs = take p xs @ [13, 10] @ drop (p + 2) xs"
  by (induction xs arbitrary: p rule: find_crlf.induct) (auto split: if_splits)

lemma poll_fill_line_ready:
  "poll_fill_line m d = (LineReady line, d') \<Longrightarrow>
     cd_state d' = cd_state d \<and>
     cd_scratch d @ net_bytes (cd_inner d) = line @ [13, 10] @ cd_scratch d' @ net_bytes (cd_inner d')"
proof (induction m d rule: poll_fill_line.induct)
  case (1 m d)
  show ?case
  proof (cases "find_crlf (cd_scratch d)")
    case (Some pos)
    with "1.prems" have l: "line = take pos (cd_scratch d)" "d' = d\<lparr>cd_scratch := drop (pos + 2) (cd_scratch d)\<rparr>"
      by (auto simp: poll_fill_line.simps [of m d])
    have "cd_scratch d @ ys = (take pos (cd_scratch d) @ [13, 10] @ drop (pos + 2) (cd_scratch d)) @ ys" for ys
      using find_crlf_SomeD [OF Some] by (rule arg_cong [OF conjunct2])
    from this [of "net_bytes (cd_inner d)"] show ?thesis by (simp add: l)
  next
    case None
    with "1.prems" have short: "\<not> length (cd_scratch d) \<ge> m"
      by (auto simp: poll_fill_line.simps [of m d] split: if_splits)
    obtain x r where p: "net_poll 1 (cd_inner d) = (x, r)" by (cases "net_poll 1 (cd_inner d)")
    with "1.prems" None short obtain b bs where x: "x = RdOk (b # bs)" and
      rec: "poll_fill_line m (d\<lparr>cd_inner := r, cd_scratch := cd_scratch d @ [b]\<rparr>) = (LineReady line, d')"
      by (auto simp: poll_fill_line.simps [of m d] split: poll_result.splits list.splits)
    have "bs = []" using net.poll_len p x by fastforce
    then have "net_bytes (cd_inner d) = b # net_bytes r" using net.poll_ok p x by fastforce
    with "1.IH" [OF None short p [symmetric] x refl rec] show ?thesis by simp
  qed
qed

section \<open>The poll\<close>

definition want_byte :: "nat \<Rightarrow> byte" where
  "want_byte seen = (if seen = 0 then 13 else 10)"

function chunked_poll :: "nat \<Rightarrow> chunked_decoder \<Rightarrow> poll_result \<times> chunked_decoder" where
  "chunked_poll room d =
     (case cd_state d of
        ChunkDone \<Rightarrow> (RdOk [], d)
      | ChunkErrored \<Rightarrow> (RdOk [], d)
      | Payload remaining \<Rightarrow>
          if remaining = 0 then chunked_poll room (d\<lparr>cd_state := AfterPayload 0\<rparr>)
          else if room = 0 then (RdOk [], d)
          else (case net_poll (min remaining room) (cd_inner d) of
                  (RdPending, r) \<Rightarrow> (RdPending, d\<lparr>cd_inner := r\<rparr>)
                | (RdErr e, r) \<Rightarrow> (RdErr e, d\<lparr>cd_inner := r, cd_state := ChunkErrored\<rparr>)
                | (RdOk bs, r) \<Rightarrow>
                    if length bs = 0 then
                      (RdErr (IoErr UnexpectedEof ''chunked stream ended mid-payload''),
                       d\<lparr>cd_inner := r, cd_state := ChunkErrored\<rparr>)
                    else (RdOk bs, d\<lparr>cd_inner := r, cd_state := Payload (remaining - length bs)\<rparr>))
      | NextSize \<Rightarrow>
          (case poll_fill_line max_size_line_bytes d of
             (LinePending, d') \<Rightarrow> (RdPending, d')
           | (LineErr e, d') \<Rightarrow> (RdErr e, d')
           | (LineReady line, d') \<Rightarrow>
               (case parse_chunk_size line of
                  Inl e \<Rightarrow> (RdErr e, d'\<lparr>cd_state := ChunkErrored\<rparr>)
                | Inr n \<Rightarrow>
                    chunked_poll room (d'\<lparr>cd_state := (if n = 0 then Trailers else Payload n)\<rparr>)))
      | AfterPayload seen \<Rightarrow>
          (case net_poll 1 (cd_inner d) of
             (RdPending, r) \<Rightarrow> (RdPending, d\<lparr>cd_inner := r\<rparr>)
           | (RdErr e, r) \<Rightarrow> (RdErr e, d\<lparr>cd_inner := r, cd_state := ChunkErrored\<rparr>)
           | (RdOk [], r) \<Rightarrow>
               (RdErr (IoErr UnexpectedEof ''chunked stream ended in payload trailer''),
                d\<lparr>cd_inner := r, cd_state := ChunkErrored\<rparr>)
           | (RdOk (byte # _), r) \<Rightarrow>
               if byte \<noteq> want_byte seen then
                 (RdErr (IoErr InvalidDataKind ''chunked payload not followed by CRLF''),
                  d\<lparr>cd_inner := r, cd_state := ChunkErrored\<rparr>)
               else chunked_poll room
                 (d\<lparr>cd_inner := r,
                    cd_state := (if seen + 1 = 2 then NextSize else AfterPayload (seen + 1))\<rparr>))
      | Trailers \<Rightarrow>
          (case poll_fill_line max_trailer_bytes d of
             (LinePending, d') \<Rightarrow> (RdPending, d')
           | (LineErr e, d') \<Rightarrow> (RdErr e, d')
           | (LineReady line, d') \<Rightarrow>
               chunked_poll room (if line = [] then d'\<lparr>cd_state := ChunkDone\<rparr> else d')))"
  by pat_completeness auto

definition poll_rank :: "chunked_decoder \<Rightarrow> nat" where
  "poll_rank d =
     3 * (length (cd_scratch d) + length (net_bytes (cd_inner d))) +
     (case cd_state d of Payload _ \<Rightarrow> 1 | _ \<Rightarrow> 0)"

lemma poll_fill_line_rank:
  assumes "poll_fill_line m d = (LineReady line, d')"
  shows "cd_state d' = cd_state d \<and>
    length (cd_scratch d') + length (net_bytes (cd_inner d')) + 2
      \<le> length (cd_scratch d) + length (net_bytes (cd_inner d))"
proof -
  have "length (cd_scratch d @ net_bytes (cd_inner d)) =
      length (line @ [13, 10] @ cd_scratch d' @ net_bytes (cd_inner d'))"
    using poll_fill_line_ready [OF assms] by (intro arg_cong [where f = length]) blast
  moreover have "cd_state d' = cd_state d" using poll_fill_line_ready [OF assms] ..
  ultimately show ?thesis by simp
qed

lemma net_poll_shrinks:
  "(RdOk (b # bs), r) = net_poll k es \<Longrightarrow> length (net_bytes r) < length (net_bytes es)"
  using net.poll_ok [of k es "b # bs" r] by simp

termination chunked_poll
proof (relation "measure (\<lambda>(room, d). poll_rank d)")
  show "wf (measure (\<lambda>(room :: nat, d). poll_rank d))" by simp
qed (auto simp: poll_rank_def dest!: poll_fill_line_rank [OF sym] net_poll_shrinks)

declare chunked_poll.simps [simp del]

section \<open>The wire format\<close>

text \<open>
  The grammar of a chunked body, as the module's documentation gives it: chunk lines whose size
  field parses, each followed by that many bytes and a line break, then a zero-size line and
  trailer lines up to an empty one. \<open>chunked_body w payload rest\<close>: \<open>w\<close> begins with such a body
  carrying \<open>payload\<close> and continues with \<open>rest\<close>.
\<close>

abbreviation crlf :: "byte list" where
  "crlf \<equiv> [13, 10]"

definition size_line :: "byte list \<Rightarrow> nat \<Rightarrow> bool" where
  "size_line line n \<longleftrightarrow>
     parse_chunk_size line = Inr n \<and> find_crlf (line @ [13]) = None \<and> length line + 2 \<le> max_size_line_bytes"

inductive trailer_part :: "byte list \<Rightarrow> byte list \<Rightarrow> bool" where
  trailer_end: "trailer_part (crlf @ rest) rest"
| trailer_field: "f \<noteq> [] \<Longrightarrow> find_crlf (f @ [13]) = None \<Longrightarrow> length f + 2 \<le> max_trailer_bytes \<Longrightarrow>
    trailer_part t rest \<Longrightarrow> trailer_part (f @ crlf @ t) rest"

inductive chunked_body :: "byte list \<Rightarrow> byte list \<Rightarrow> byte list \<Rightarrow> bool" where
  last_chunk: "size_line line 0 \<Longrightarrow> trailer_part t rest \<Longrightarrow> chunked_body (line @ crlf @ t) [] rest"
| data_chunk: "size_line line (length pl) \<Longrightarrow> pl \<noteq> [] \<Longrightarrow> chunked_body w payload rest \<Longrightarrow>
    chunked_body (line @ crlf @ pl @ crlf @ w) (pl @ payload) rest"

lemma find_crlf_prefix: "find_crlf (xs @ ys) = None \<Longrightarrow> find_crlf xs = None"
proof (induction xs rule: find_crlf.induct)
  case (1 a b xs)
  then show ?case by (auto split: if_splits)
qed auto

lemma find_crlf_line: "find_crlf (line @ [13]) = None \<Longrightarrow> find_crlf (line @ 13 # 10 # xs) = Some (length line)"
proof (induction line rule: find_crlf.induct)
  case (1 a b line)
  then show ?case by (auto split: if_splits)
qed (auto split: if_splits)

lemma poll_fill_line_reads:
  assumes "plain_net (cd_inner d)" and "find_crlf (line @ [13]) = None" and "length line + 2 \<le> m"
    and "cd_scratch d @ net_bytes (cd_inner d) = line @ 13 # 10 # w"
    and "length (cd_scratch d) \<le> length line + 2"
  shows "\<exists>r. poll_fill_line m d = (LineReady line, d\<lparr>cd_inner := r, cd_scratch := []\<rparr>) \<and>
    plain_net r \<and> net_bytes r = w"
  using assms
proof (induction m d rule: poll_fill_line.induct)
  case (1 m d)
  show ?case
  proof (cases "length (cd_scratch d) = length line + 2")
    case True
    then have s: "cd_scratch d = line @ crlf" "net_bytes (cd_inner d) = w"
      using "1.prems"(4) append_eq_append_conv [of "cd_scratch d" "line @ crlf" "net_bytes (cd_inner d)" w]
      by simp_all
    then have "find_crlf (cd_scratch d) = Some (length line)"
      using find_crlf_line [OF "1.prems"(2), of "[]"] by simp
    moreover have "d\<lparr>cd_inner := cd_inner d, cd_scratch := []\<rparr> = d\<lparr>cd_scratch := []\<rparr>"
      by (cases d) simp
    ultimately show ?thesis using s "1.prems"(1)
      by (intro exI [of _ "cd_inner d"]) (simp add: poll_fill_line.simps [of m d])
  next
    case False
    then have short: "length (cd_scratch d) \<le> length (line @ [13])" using "1.prems"(5) by simp
    have "cd_scratch d = take (length (cd_scratch d)) ((line @ [13]) @ 10 # w)"
      using "1.prems"(4) by (metis append.assoc append_Cons append_Nil append_eq_conv_conj)
    then have pre: "\<exists>zs. line @ [13] = cd_scratch d @ zs"
      using short by (metis append_take_drop_id take_append_le)
    then have none: "find_crlf (cd_scratch d) = None"
      using "1.prems"(2) find_crlf_prefix by metis
    obtain b rest where b: "net_bytes (cd_inner d) = b # rest"
      using "1.prems"(4) short by (cases "net_bytes (cd_inner d)") auto
    obtain r where r: "net_poll 1 (cd_inner d) = (RdOk [b], r)" "net_bytes r = rest" "plain_net r"
      using plain_net_poll_1 [OF "1.prems"(1) b] .
    have lt: "\<not> length (cd_scratch d) \<ge> m" using short "1.prems"(3) by simp
    let ?d = "d\<lparr>cd_inner := r, cd_scratch := cd_scratch d @ [b]\<rparr>"
    have "\<exists>r'. poll_fill_line m ?d = (LineReady line, ?d\<lparr>cd_inner := r', cd_scratch := []\<rparr>) \<and>
        plain_net r' \<and> net_bytes r' = w"
      using "1.prems" r b short
      by (intro "1.IH" [OF none lt r(1) [symmetric] refl refl]) auto
    then show ?thesis by (simp add: poll_fill_line.simps [of m d] none lt r(1) [unfolded One_nat_def] leD)
  qed
qed

section \<open>The decoder implements the wire format\<close>

text \<open>What a decoder still has to deliver, for each state it can be in between polls.\<close>

definition owes :: "chunked_decoder \<Rightarrow> byte list \<Rightarrow> byte list \<Rightarrow> bool" where
  "owes d payload rest \<longleftrightarrow>
     plain_net (cd_inner d) \<and> cd_scratch d = [] \<and>
     (case cd_state d of
        NextSize \<Rightarrow> chunked_body (net_bytes (cd_inner d)) payload rest
      | Payload n \<Rightarrow> (\<exists>pl payload' w. net_bytes (cd_inner d) = pl @ crlf @ w \<and> length pl = n \<and>
          payload = pl @ payload' \<and> chunked_body w payload' rest)
      | AfterPayload seen \<Rightarrow> (\<exists>w. seen \<le> 1 \<and> net_bytes (cd_inner d) = drop seen crlf @ w \<and>
          chunked_body w payload rest)
      | Trailers \<Rightarrow> payload = [] \<and> trailer_part (net_bytes (cd_inner d)) rest
      | ChunkDone \<Rightarrow> payload = [] \<and> net_bytes (cd_inner d) = rest
      | ChunkErrored \<Rightarrow> False)"

definition delivers :: "poll_result \<times> chunked_decoder \<Rightarrow> byte list \<Rightarrow> byte list \<Rightarrow> bool" where
  "delivers res payload rest \<longleftrightarrow>
     (\<exists>bs payload'. fst res = RdOk bs \<and> payload = bs @ payload' \<and> owes (snd res) payload' rest \<and>
        (bs = [] \<longrightarrow> payload = [] \<and> cd_state (snd res) = ChunkDone))"

lemma poll_owes_payload:
  assumes d: "owes d payload rest" "cd_state d = Payload n" and n: "n \<noteq> 0" and room: "0 < room"
  shows "delivers (chunked_poll room d) payload rest"
proof -
  from d obtain pl payload' w where pl: "net_bytes (cd_inner d) = pl @ crlf @ w" "length pl = n"
      "payload = pl @ payload'" "chunked_body w payload' rest" "plain_net (cd_inner d)" "cd_scratch d = []"
    by (auto simp: owes_def)
  have "0 < min n room" using n room by simp
  from plain_net_poll [OF pl(5) this] obtain bs r where
    r: "net_poll (min n room) (cd_inner d) = (RdOk bs, r)" "net_bytes (cd_inner d) = bs @ net_bytes r"
      "plain_net r" "length bs \<le> min n room" "bs = [] \<longleftrightarrow> net_bytes (cd_inner d) = []" .
  have bs: "bs \<noteq> []" using r(5) pl(1) by simp
  have e: "pl @ crlf @ w = bs @ net_bytes r" using pl(1) r(2) by simp
  have "take (length bs) (pl @ crlf @ w) = bs" "drop (length bs) (pl @ crlf @ w) = net_bytes r"
    unfolding e by simp_all
  then have split: "bs = take (length bs) pl" "net_bytes r = drop (length bs) pl @ crlf @ w"
    using r(4) pl(2) by simp_all
  have "chunked_poll room d = (RdOk bs, d\<lparr>cd_inner := r, cd_state := Payload (n - length bs)\<rparr>)"
    using d(2) n room r(1) bs by (simp add: chunked_poll.simps [of room d])
  moreover have "owes (d\<lparr>cd_inner := r, cd_state := Payload (n - length bs)\<rparr>) (drop (length bs) pl @ payload') rest"
    using split(2) pl r(3) by (simp add: owes_def) (metis length_drop)
  moreover have "payload = bs @ drop (length bs) pl @ payload'"
    using split(1) pl(3) by (metis append.assoc append_take_drop_id)
  ultimately show ?thesis using bs by (auto simp: delivers_def)
qed

lemma poll_owes: "owes d payload rest \<Longrightarrow> 0 < room \<Longrightarrow> delivers (chunked_poll room d) payload rest"
proof (induction room d arbitrary: payload rule: chunked_poll.induct)
  case (1 room d)
  note IH = "1.IH" and d = "1.prems"(1) and room = "1.prems"(2)
  have plain: "plain_net (cd_inner d)" and scratch: "cd_scratch d = []"
    using d by (simp_all add: owes_def)
  show ?case
  proof (cases "cd_state d")
    case NextSize
    with d have "chunked_body (net_bytes (cd_inner d)) payload rest" by (simp add: owes_def)
    then show ?thesis
    proof cases
      case (last_chunk line t)
      then obtain r where r: "poll_fill_line max_size_line_bytes d = (LineReady line, d\<lparr>cd_inner := r, cd_scratch := []\<rparr>)"
          "plain_net r" "net_bytes r = t"
        using poll_fill_line_reads [OF plain, of line _ t] scratch by (auto simp: size_line_def)
      let ?d = "d\<lparr>cd_inner := r, cd_scratch := [], cd_state := Trailers\<rparr>"
      have "delivers (chunked_poll room ?d) payload rest"
        using IH(1) [OF NextSize r(1) [symmetric] refl, of 0] last_chunk r room
        by (simp add: size_line_def owes_def)
      then show ?thesis using NextSize r(1) last_chunk
        by (simp add: chunked_poll.simps [of room d] size_line_def)
    next
      case (data_chunk line pl w payload')
      then obtain r where r: "poll_fill_line max_size_line_bytes d = (LineReady line, d\<lparr>cd_inner := r, cd_scratch := []\<rparr>)"
          "plain_net r" "net_bytes r = pl @ crlf @ w"
        using poll_fill_line_reads [OF plain, of line _ "pl @ crlf @ w"] scratch by (auto simp: size_line_def)
      let ?d = "d\<lparr>cd_inner := r, cd_scratch := [], cd_state := Payload (length pl)\<rparr>"
      have "owes ?d payload rest" using data_chunk r by (auto simp: owes_def)
      then have "delivers (chunked_poll room ?d) payload rest"
        using poll_owes_payload [of ?d payload rest "length pl" room] data_chunk room by simp
      then show ?thesis using NextSize r(1) data_chunk
        by (simp add: chunked_poll.simps [of room d] size_line_def)
    qed
  next
    case (Payload n)
    show ?thesis
    proof (cases "n = 0")
      case True
      have "owes (d\<lparr>cd_state := AfterPayload 0\<rparr>) payload rest"
        using d Payload True by (auto simp: owes_def)
      with IH(2) [OF Payload True] room Payload True show ?thesis
        by (simp add: chunked_poll.simps [of room d])
    qed (use poll_owes_payload d Payload room in auto)
  next
    case (AfterPayload seen)
    with d obtain w where w: "seen \<le> 1" "net_bytes (cd_inner d) = drop seen crlf @ w" "chunked_body w payload rest"
      by (auto simp: owes_def)
    then have b: "net_bytes (cd_inner d) = want_byte seen # drop (seen + 1) crlf @ w"
      by (cases seen) (auto simp: want_byte_def)
    obtain r where r: "net_poll 1 (cd_inner d) = (RdOk [want_byte seen], r)"
        "net_bytes r = drop (seen + 1) crlf @ w" "plain_net r"
      using plain_net_poll_1 [OF plain b] .
    let ?d = "d\<lparr>cd_inner := r, cd_state := (if seen + 1 = 2 then NextSize else AfterPayload (seen + 1))\<rparr>"
    have "owes ?d payload rest" using w r scratch by (auto simp: owes_def)
    then have "delivers (chunked_poll room ?d) payload rest"
      using IH(3) [OF AfterPayload r(1) [symmetric] refl refl] room by simp
    then show ?thesis using AfterPayload r(1) [unfolded One_nat_def] by (simp add: chunked_poll.simps [of room d])
  next
    case Trailers
    with d have p: "payload = []" and "trailer_part (net_bytes (cd_inner d)) rest" by (simp_all add: owes_def)
    from this(2) show ?thesis
    proof cases
      case trailer_end
      have two: "2 \<le> max_trailer_bytes" by (simp add: max_trailer_bytes_def)
      with trailer_end obtain r where r: "poll_fill_line max_trailer_bytes d = (LineReady [], d\<lparr>cd_inner := r, cd_scratch := []\<rparr>)"
          "plain_net r" "net_bytes r = rest"
        using poll_fill_line_reads [OF plain, of "[]" max_trailer_bytes rest] scratch two by auto
      then show ?thesis using Trailers p
        by (simp add: chunked_poll.simps [of room d] chunked_poll.simps [of room "d\<lparr>cd_inner := r, cd_scratch := [], cd_state := ChunkDone\<rparr>"]
            delivers_def owes_def)
    next
      case (trailer_field f t)
      then obtain r where r: "poll_fill_line max_trailer_bytes d = (LineReady f, d\<lparr>cd_inner := r, cd_scratch := []\<rparr>)"
          "plain_net r" "net_bytes r = t"
        using poll_fill_line_reads [OF plain, of f _ t] scratch by auto
      have "delivers (chunked_poll room (d\<lparr>cd_inner := r, cd_scratch := []\<rparr>)) payload rest"
        using IH(4) [OF Trailers r(1) [symmetric] refl] trailer_field r p room Trailers
        by (simp add: owes_def)
      then show ?thesis using Trailers r(1) trailer_field
        by (simp add: chunked_poll.simps [of room d])
    qed
  next
    case ChunkDone
    with d show ?thesis by (simp add: chunked_poll.simps [of room d] delivers_def owes_def)
  next
    case ChunkErrored
    with d show ?thesis by (simp add: owes_def)
  qed
qed

section \<open>Sequences of reads\<close>

lemma chunked_poll_len: "chunked_poll room d = (RdOk bs, d') \<Longrightarrow> length bs \<le> room"
proof (induction room d rule: chunked_poll.induct)
  case (1 room d)
  note IH = "1.IH" and pr = "1.prems"
  show ?case
  proof (cases "cd_state d")
    case NextSize
    with pr show ?thesis
      by (subst (asm) chunked_poll.simps) (auto split: prod.splits line_poll.splits sum.splits dest: IH(1) [OF NextSize sym refl])
  next
    case (Payload n)
    then show ?thesis using pr IH(2) [OF Payload] net.poll_len [of "min n room" "cd_inner d"]
      by (subst (asm) chunked_poll.simps) (auto split: if_splits prod.splits poll_result.splits)
  next
    case (AfterPayload seen)
    obtain x r where p: "net_poll 1 (cd_inner d) = (x, r)" by (cases "net_poll 1 (cd_inner d)")
    note poll = chunked_poll.simps [of room d] AfterPayload p [unfolded One_nat_def]
    show ?thesis
    proof (cases x)
      case (RdOk l)
      show ?thesis
      proof (cases l)
        case Nil
        with pr RdOk show ?thesis by (simp add: poll)
      next
        case (Cons b l')
        show ?thesis
          using pr RdOk Cons IH(3) [OF AfterPayload p [symmetric] RdOk Cons]
          by (simp add: poll split: if_splits)
      qed
    qed (use pr in \<open>simp_all add: poll\<close>)
  next
    case Trailers
    with pr show ?thesis
      by (subst (asm) chunked_poll.simps) (auto split: if_splits prod.splits line_poll.splits dest: IH(4) [OF Trailers sym refl])
  qed (use pr in \<open>simp_all add: chunked_poll.simps [of room d]\<close>)
qed

interpretation chunked: sized_reader chunked_poll
  by unfold_locales (rule chunked_poll_len)

lemma chunked_done_polls: "cd_state d = ChunkDone \<Longrightarrow> chunked.polls ks d = (out, d') \<Longrightarrow> out = [] \<and> d' = d"
  by (induction ks arbitrary: out) (auto simp: chunked_poll.simps split: prod.splits)

lemma chunked_polls_owes:
  "owes d payload rest \<Longrightarrow> \<forall>k\<in>set ks. 0 < k \<Longrightarrow> chunked.polls ks d = (out, d') \<Longrightarrow>
     \<exists>payload'. payload = out @ payload' \<and> owes d' payload' rest \<and>
       (length payload < length ks \<longrightarrow> payload' = [] \<and> cd_state d' = ChunkDone)"
proof (induction ks arbitrary: d payload out)
  case Nil
  then show ?case by simp
next
  case (Cons k ks)
  obtain x d1 where p: "chunked_poll k d = (x, d1)" by (cases "chunked_poll k d")
  have "delivers (chunked_poll k d) payload rest" using Cons.prems by (intro poll_owes) auto
  with p obtain bs payload1 where x: "x = RdOk bs" "payload = bs @ payload1" "owes d1 payload1 rest"
      "bs = [] \<longrightarrow> payload = [] \<and> cd_state d1 = ChunkDone"
    by (auto simp: delivers_def)
  obtain out1 where q: "chunked.polls ks d1 = (out1, d')" and out: "out = bs @ out1"
    using Cons.prems(3) p x(1) by (auto split: prod.splits)
  obtain payload' where r: "payload1 = out1 @ payload'" "owes d' payload' rest"
      "length payload1 < length ks \<longrightarrow> payload' = [] \<and> cd_state d' = ChunkDone"
    using Cons.IH [OF x(3) _ q] Cons.prems(2) by auto
  have "payload' = [] \<and> cd_state d' = ChunkDone" if "length payload < length (k # ks)"
  proof (cases "bs = []")
    case True
    with x(4) have "payload = []" "cd_state d1 = ChunkDone" by simp_all
    then show ?thesis using r x that chunked_done_polls [OF _ q] by simp
  next
    case False
    then have "length payload1 < length payload" using x(2) by (cases bs) auto
    with that r(3) show ?thesis by simp
  qed
  then show ?case using x r out by auto
qed

text \<open>
  Claim C8. The decoder implements the chunked transfer encoding: for a connection that delivers
  a well-formed chunked body in any segmentation, and a reader that polls with any positive
  buffer sizes, what is delivered is always a prefix of the payload; after at most one poll more
  than the payload has bytes it is the whole payload, the decoder reports the end of the stream,
  and it has consumed not a byte beyond the body.
\<close>

theorem chunked_decodes:
  assumes "plain_net es" and "chunked_body (net_bytes es) payload rest"
    and "\<forall>k\<in>set ks. 0 < k" and "chunked.polls ks (chunked_new es) = (out, d)"
  shows "prefix out payload \<and>
    (length payload < length ks \<longrightarrow>
       out = payload \<and> cd_state d = ChunkDone \<and> net_bytes (cd_inner d) = rest)"
proof -
  have "owes (chunked_new es) payload rest"
    using assms by (simp add: owes_def chunked_new_def)
  from chunked_polls_owes [OF this assms(3,4)] show ?thesis
    by (auto simp: owes_def)
qed

section \<open>An encoder, and the round trip\<close>

definition chunk_frame :: "byte list \<Rightarrow> byte list" where
  "chunk_frame pl = bytes_of (show_hex (length pl)) @ crlf @ pl @ crlf"

definition chunk_encode :: "byte list list \<Rightarrow> byte list" where
  "chunk_encode chunks = concat (map chunk_frame chunks) @ bytes_of (show_hex 0) @ crlf @ crlf"

lemma find_crlf_no_cr: "13 \<notin> set xs \<Longrightarrow> find_crlf (xs @ [13]) = None"
  by (induction xs rule: find_crlf.induct) auto

lemma size_line_show_hex:
  assumes "n < 2 ^ 64"
  shows "size_line (bytes_of (show_hex n)) n"
proof -
  let ?s = "show_hex n"
  have g: "graphic c \<and> (of_char c :: byte) \<noteq> 13 \<and> (of_char c :: byte) \<noteq> 59 \<and> (of_char c :: nat) < 128"
    if mem: "c \<in> set ?s" for c
  proof -
    obtain d where d: "d < 16" "c = hex_digit d" using set_show_hex [OF mem] by blast
    then have n: "(of_char c :: nat) = (if d < 10 then 48 + d else 87 + d)"
      by (simp add: hex_digit_def)
    have "(of_char c :: byte) \<noteq> 13" "(of_char c :: byte) \<noteq> 59"
      using n d(1) by (auto dest!: arg_cong [where f = unat] split: if_splits)
    with n d show ?thesis by auto
  qed
  then have "position (\<lambda>b. b = chunk_size_semicolon) (bytes_of ?s) = None"
    by (auto simp: position_None_iff bytes_of_def chunk_size_semicolon_def)
  moreover have "str_from_utf8 (bytes_of ?s) = Some ?s"
    using g by (intro str_from_utf8_ascii) auto
  moreover have "trim ?s = ?s"
    using g by (intro trim_graphic) auto
  ultimately have "parse_chunk_size (bytes_of ?s) = Inr n"
    using assms by (simp add: parse_chunk_size_def parse_show_hex)
  moreover have "find_crlf (bytes_of ?s @ [13]) = None"
    using g by (intro find_crlf_no_cr) (auto simp: bytes_of_def)
  moreover have "length ?s \<le> 16"
    using assms by (intro length_show_hex) auto
  ultimately show ?thesis by (simp add: size_line_def max_size_line_bytes_def)
qed

lemma chunk_encode_body:
  "\<forall>pl\<in>set chunks. pl \<noteq> [] \<and> length pl < 2 ^ 64 \<Longrightarrow>
     chunked_body (chunk_encode chunks @ rest) (concat chunks) rest"
proof (induction chunks)
  case Nil
  have "chunked_body (bytes_of (show_hex 0) @ crlf @ crlf @ rest) [] rest"
    by (intro last_chunk size_line_show_hex trailer_end) simp
  then show ?case by (simp add: chunk_encode_def)
next
  case (Cons pl chunks)
  have "chunked_body (bytes_of (show_hex (length pl)) @ crlf @ pl @ crlf @ chunk_encode chunks @ rest)
      (pl @ concat chunks) rest"
    using Cons by (intro data_chunk size_line_show_hex) auto
  then show ?case by (simp add: chunk_encode_def chunk_frame_def)
qed

theorem chunked_decodes_witness:
  "fst (chunked.polls (replicate 6 4)
     (chunked_new [NetData (chunk_encode [[1, 2, 3], [4, 5]])])) = [1, 2, 3, 4, 5]"
proof -
  let ?es = "[NetData (chunk_encode [[1, 2, 3], [4, 5]])]"
  obtain out d where q: "chunked.polls (replicate 6 4) (chunked_new ?es) = (out, d)"
    by (cases "chunked.polls (replicate 6 4) (chunked_new ?es)")
  have "chunked_body (net_bytes ?es) (concat [[1, 2, 3], [4, 5]]) []"
    using chunk_encode_body [of "[[1, 2, 3], [4, 5]]" "[]"] by simp
  from chunked_decodes [OF _ this _ q] have "out = [1, 2, 3, 4, 5]"
    by (simp add: chunk_encode_def)
  with q show ?thesis by simp
qed

section \<open>Bounds and errors\<close>

lemma poll_fill_line_scratch:
  "poll_fill_line m d = (x, d') \<Longrightarrow> length (cd_scratch d) \<le> b \<Longrightarrow> m \<le> b \<Longrightarrow> length (cd_scratch d') \<le> b"
proof (induction m d arbitrary: x d' rule: poll_fill_line.induct)
  case (1 m d)
  show ?case
  proof (cases "find_crlf (cd_scratch d) = None \<and> \<not> length (cd_scratch d) \<ge> m")
    case True
    obtain y r where p: "net_poll 1 (cd_inner d) = (y, r)" by (cases "net_poll 1 (cd_inner d)")
    note poll = poll_fill_line.simps [of m d] p [unfolded One_nat_def]
    show ?thesis
    proof (cases y)
      case (RdOk l)
      show ?thesis
      proof (cases l)
        case Nil
        with "1.prems" RdOk True show ?thesis by (auto simp: poll)
      next
        case (Cons c l')
        then show ?thesis
          using "1.prems" RdOk True "1.IH" [OF _ _ p [symmetric] RdOk Cons] by (simp add: poll)
      qed
    qed (use "1.prems" True in \<open>auto simp: poll\<close>)
  qed (use "1.prems" in \<open>auto simp: poll_fill_line.simps [of m d] split: option.splits\<close>)
qed

lemma chunked_poll_scratch:
  "chunked_poll room d = (x, d') \<Longrightarrow> length (cd_scratch d) \<le> max_trailer_bytes \<Longrightarrow>
     length (cd_scratch d') \<le> max_trailer_bytes"
proof (induction room d rule: chunked_poll.induct)
  case (1 room d)
  note IH = "1.IH" and pr = "1.prems"
  have size: "max_size_line_bytes \<le> max_trailer_bytes"
    by (simp add: max_size_line_bytes_def max_trailer_bytes_def)
  show ?case
  proof (cases "cd_state d")
    case NextSize
    obtain y d1 where f: "poll_fill_line max_size_line_bytes d = (y, d1)"
      by (cases "poll_fill_line max_size_line_bytes d")
    then have "length (cd_scratch d1) \<le> max_trailer_bytes"
      using poll_fill_line_scratch pr(2) size by blast
    then show ?thesis
      using pr IH(1) [OF NextSize f [symmetric]] NextSize f
      by (auto simp: chunked_poll.simps [of room d] split: line_poll.splits sum.splits)
  next
    case (Payload n)
    then show ?thesis using pr IH(2) [OF Payload]
      by (auto simp: chunked_poll.simps [of room d] split: if_splits prod.splits poll_result.splits)
  next
    case (AfterPayload seen)
    obtain y r where p: "net_poll 1 (cd_inner d) = (y, r)" by (cases "net_poll 1 (cd_inner d)")
    note poll = chunked_poll.simps [of room d] AfterPayload p [unfolded One_nat_def]
    show ?thesis
    proof (cases y)
      case (RdOk l)
      show ?thesis
      proof (cases l)
        case Nil
        with pr RdOk show ?thesis by (auto simp: poll)
      next
        case (Cons b l')
        show ?thesis
          using pr RdOk Cons IH(3) [OF AfterPayload p [symmetric] RdOk Cons]
          by (auto simp: poll split: if_splits)
      qed
    qed (use pr in \<open>auto simp: poll\<close>)
  next
    case Trailers
    obtain y d1 where f: "poll_fill_line max_trailer_bytes d = (y, d1)"
      by (cases "poll_fill_line max_trailer_bytes d")
    then have "length (cd_scratch d1) \<le> max_trailer_bytes"
      using poll_fill_line_scratch pr(2) by blast
    then show ?thesis
      using pr IH(4) [OF Trailers f [symmetric]] Trailers f
      by (auto simp: chunked_poll.simps [of room d] split: line_poll.splits if_splits)
  qed (use pr in \<open>auto simp: chunked_poll.simps [of room d]\<close>)
qed

text \<open>
  Whatever the peer sends and however it is polled, the decoder's scratch buffer never
  holds more than the trailer limit: a hostile chunk header cannot make it grow.
\<close>

theorem chunked_scratch_bounded:
  "length (cd_scratch (snd (chunked.polls ks (chunked_new es)))) \<le> max_trailer_bytes"
proof -
  have "length (cd_scratch d) \<le> max_trailer_bytes \<Longrightarrow>
      length (cd_scratch (snd (chunked.polls ks d))) \<le> max_trailer_bytes" for d
  proof (induction ks arbitrary: d)
    case (Cons k ks)
    obtain x d1 where p: "chunked_poll k d = (x, d1)" by (cases "chunked_poll k d")
    then show ?case using Cons.IH [of d1] chunked_poll_scratch [OF p] Cons.prems
      by (simp add: case_prod_beta)
  qed simp
  then show ?thesis by (simp add: chunked_new_def)
qed

text \<open>
  An I/O error while a size line is being read is reported but not remembered: the
  decoder is left as if the error had not happened and the next poll goes on decoding, where the
  documentation of the error state says that reads after an error return the end of the stream.
\<close>

theorem chunked_header_error_not_sticky:
  "chunked_poll room (chunked_new (NetErr e # es)) = (RdErr e, chunked_new es) \<and>
   chunked_poll room (chunked_new [NetErr e, NetData (chunk_encode [[65]])]) =
     (RdErr e, chunked_new [NetData (chunk_encode [[65]])])"
  by (simp add: chunked_new_def chunked_poll.simps [of room "\<lparr>cd_inner = NetErr e # _, cd_state = NextSize, cd_scratch = []\<rparr>"]
      poll_fill_line.simps max_size_line_bytes_def)

text \<open>Errors inside a payload are remembered: every later read returns the end of the stream.\<close>

lemma chunked_errored_polls:
  "cd_state d = ChunkErrored \<Longrightarrow> chunked.polls ks d = (out, d') \<Longrightarrow> out = [] \<and> d' = d"
  by (induction ks arbitrary: out) (auto simp: chunked_poll.simps split: prod.splits)

end
