(* ===== verification/Live_Stream.thy ===== *)
theory Live_Stream
  imports Source_Session Listener_Session Chunked_Decoder
begin

text \<open>
  A live broadcast from end to end: the body of a source request is read through the stack of
  readers the handler builds (\<open>source_protocol.rs\<close>), drained and published by the ingest
  (\<open>icecast.rs\<close>) on the bus of the mount, and written to the listeners that subscribed
  (\<open>stream_router.rs\<close>, \<open>http_passthrough.rs\<close>). Here the models of these parts are run one on the
  output of the other.
\<close>

section \<open>Reading a body\<close>

text \<open>
  What the ingest's reader task observes in \<open>n\<close> polls of a body reader, with the reader as it is
  then. A pending poll is repeated; an error or the end of the stream is the last thing observed.
\<close>

primrec observe ::
  "(nat \<Rightarrow> 'r \<Rightarrow> poll_result \<times> 'r) \<Rightarrow> nat \<Rightarrow> nat \<Rightarrow> 'r \<Rightarrow> read_event list \<times> 'r" where
  "observe poll room 0 r = ([], r)"
| "observe poll room (Suc n) r =
     (case poll room r of
        (RdPending, r') \<Rightarrow> observe poll room n r'
      | (RdErr e, r') \<Rightarrow> ([ReadFail e], r')
      | (RdOk bs, r') \<Rightarrow>
          if bs = [] then ([ReadEnd], r')
          else (case observe poll room n r' of (evs, r'') \<Rightarrow> (ReadData bs # evs, r'')))"

text \<open>A reader that still owes some bytes and hands them over without error, then ends.\<close>

locale body_reader =
  fixes poll :: "nat \<Rightarrow> 'r \<Rightarrow> poll_result \<times> 'r" and owed :: "'r \<Rightarrow> byte list \<Rightarrow> bool"
  assumes hands_over: "0 < room \<Longrightarrow> owed r payload \<Longrightarrow>
    \<exists>bs r' payload'. poll room r = (RdOk bs, r') \<and> payload = bs @ payload' \<and> owed r' payload' \<and>
      (bs = [] \<longrightarrow> payload = [])"
begin

lemma observe_whole:
  "0 < room \<Longrightarrow> owed r payload \<Longrightarrow> length payload < n \<Longrightarrow>
     \<exists>cs. fst (observe poll room n r) = map ReadData cs @ [ReadEnd] \<and> concat cs = payload"
proof (induction n arbitrary: r payload)
  case (Suc n)
  from hands_over [OF Suc.prems(1,2)] obtain bs r' payload' where
    p: "poll room r = (RdOk bs, r')" "payload = bs @ payload'" "owed r' payload'" "bs = [] \<longrightarrow> payload = []"
    by blast
  show ?case
  proof (cases "bs = []")
    case True
    with p show ?thesis by (auto intro: exI [of _ "[]"])
  next
    case False
    with p(2) Suc.prems(3) have "length payload' < n" by (cases bs) auto
    from Suc.IH [OF Suc.prems(1) p(3) this] obtain cs where
      "fst (observe poll room n r') = map ReadData cs @ [ReadEnd]" "concat cs = payload'" by blast
    with False p(1,2) show ?thesis
      by (intro exI [of _ "bs # cs"]) (simp add: case_prod_beta)
  qed
qed simp

end

interpretation chunked_source: body_reader chunked_poll "\<lambda>d payload. \<exists>rest. owes d payload rest"
proof unfold_locales
  fix room :: nat and d payload
  assume "0 < room" and "\<exists>rest. owes d payload rest"
  then obtain rest where "delivers (chunked_poll room d) payload rest" using poll_owes by blast
  then show "\<exists>bs d' payload'. chunked_poll room d = (RdOk bs, d') \<and> payload = bs @ payload' \<and>
      (\<exists>rest. owes d' payload' rest) \<and> (bs = [] \<longrightarrow> payload = [])"
    unfolding delivers_def by (metis prod.collapse)
qed

definition plain_owed :: "net_reader chain_reader counting_reader \<Rightarrow> byte list \<Rightarrow> bool" where
  "plain_owed c payload \<longleftrightarrow> plain_net (ch_inner (cr_inner c)) \<and> chained.counting_unread c = payload"

interpretation plain_source: body_reader "counting_poll (chain_poll net_poll)" plain_owed
proof unfold_locales
  fix room :: nat and c payload
  assume room: "0 < room" and owed: "plain_owed c payload"
  let ?c = "cr_inner c"
  show "\<exists>bs c' payload'. counting_poll (chain_poll net_poll) room c = (RdOk bs, c') \<and> payload = bs @ payload' \<and>
      plain_owed c' payload' \<and> (bs = [] \<longrightarrow> payload = [])"
  proof (cases "ch_pos ?c < length (ch_buffer ?c)")
    case True
    then obtain bs c' where p: "counting_poll (chain_poll net_poll) room c = (RdOk bs, c')"
      "plain_net (ch_inner (cr_inner c'))" "bs \<noteq> []"
      using room owed by (fastforce simp: counting_poll_def chain_poll_def Let_def plain_owed_def)
    with chained.counting_poll_ok [OF p(1)] owed show ?thesis by (auto simp: plain_owed_def)
  next
    case False
    have "plain_net (ch_inner ?c)" using owed by (simp add: plain_owed_def)
    from plain_net_poll [OF this room] obtain bs es' where
      e: "net_poll room (ch_inner ?c) = (RdOk bs, es')" "plain_net es'" "bs = [] \<longleftrightarrow> net_bytes (ch_inner ?c) = []"
      by metis
    then obtain c' where p: "counting_poll (chain_poll net_poll) room c = (RdOk bs, c')" "ch_inner (cr_inner c') = es'"
      using False by (auto simp: counting_poll_def chain_poll_def)
    have "bs = [] \<longrightarrow> payload = []"
      using e(3) owed False by (simp add: plain_owed_def chained.counting_unread_def net.chain_unread_def)
    with p e(2) chained.counting_poll_ok [OF p(1)] owed show ?thesis by (auto simp: plain_owed_def)
  qed
qed

text \<open>
  The chunked decoder is modelled over a socket. Under it the code has the replay of the leftover
  bytes; that is a socket on which they are still to come.
\<close>

definition unread_socket :: "net_reader chain_reader \<Rightarrow> net_reader" where
  "unread_socket c =
     (if ch_pos c < length (ch_buffer c) then NetData (drop (ch_pos c) (ch_buffer c)) # ch_inner c else ch_inner c)"

lemma chain_poll_socket:
  "chain_poll net_poll room c = (r, c') \<Longrightarrow> net_poll room (unread_socket c) = (r, unread_socket c')"
  by (auto simp: chain_poll_def unread_socket_def Let_def min_def not_less add.commute split: if_splits prod.splits)

section \<open>The ingest of a live source\<close>

text \<open>
  The reader stack under each framing: what the ingest observes in so many polls, and by how much
  the inbound byte counter of the mount advances. \<open>taken\<close> is the reader of a body with a length,
  an adaptor of the library.
\<close>

definition body_events ::
  "(nat \<Rightarrow> nat \<Rightarrow> nat \<Rightarrow> net_reader chain_reader counting_reader \<Rightarrow> read_event list \<times> 64 word) \<Rightarrow>
     body_framing \<Rightarrow> nat \<Rightarrow> nat \<Rightarrow> byte list \<Rightarrow> net_reader \<Rightarrow> read_event list \<times> 64 word" where
  "body_events taken framing room polls leftover es =
     (let chained = chain_new leftover es; counted = \<lparr>cr_inner = chained, cr_bytes_received = 0\<rparr> in
      case framing of
        BodyChunked \<Rightarrow>
          (case observe chunked_poll room polls (chunked_new (unread_socket chained)) of
             (evs, d) \<Rightarrow>
               (evs, of_nat (length (net_bytes (unread_socket chained)) - length (net_bytes (cd_inner d)))))
      | BodyTake len \<Rightarrow> taken len room polls counted
      | BodyToEnd \<Rightarrow>
          (case observe (counting_poll (chain_poll net_poll)) room polls counted of
             (evs, c) \<Rightarrow> (evs, cr_bytes_received c)))"

text \<open>
  The run of the ingest inside the handler: the reader task on the body, the publisher on what its
  \<open>select!\<close> sees of it. \<open>None\<close> when the handler gets no result (the ingest still waits, diverges,
  or panics).
\<close>

definition live_ingest ::
  "('i, 'p, 'r, 'l, 'v) media_libs \<Rightarrow>
   (nat \<Rightarrow> nat \<Rightarrow> nat \<Rightarrow> net_reader chain_reader counting_reader \<Rightarrow> read_event list \<times> 64 word) \<Rightarrow>
   nat \<Rightarrow> net_reader \<Rightarrow> (reader_task \<Rightarrow> pub_event list) \<Rightarrow>
   source_session \<Rightarrow> body_framing \<Rightarrow> icecast_ingest \<Rightarrow> app_state \<Rightarrow>
     ((ingest_error + source_stats) \<times> app_state) option" where
  "live_ingest libs taken polls es script sn framing ig st =
     (case body_events taken framing (ig_chunk_size ig) polls (sn_leftover sn) es of
        (evs, n) \<Rightarrow>
          (let rt = drain_reader (sn_codec sn) (reader_new evs);
               m = app_mount st (sn_addr sn);
               m1 = m\<lparr>am_stats := (am_stats m)\<lparr>ms_bytes_received := ms_bytes_received (am_stats m) + n\<rparr>\<rparr>
           in case ingest_run libs ig (sn_codec sn) (am_bus m1) (am_header_bytes m1) (script rt) of
                IngestReturns r pu \<Rightarrow> Some (r, put_mount (sn_addr sn) (store_mount pu m1) st)
              | _ \<Rightarrow> None))"

text \<open>A publisher nothing interrupts: each chunk with the readings of the clock, then the end.\<close>

definition undisturbed :: "(nat \<Rightarrow> nat \<times> nat) \<Rightarrow> nat \<Rightarrow> nat \<Rightarrow> reader_task \<Rightarrow> pub_event list" where
  "undisturbed clock pts elapsed rt =
     map timed_chunk (zip (rt_sent rt) (map clock [0..<length (rt_sent rt)])) @ [PubClosed pts elapsed]"

text \<open>A connection that carries a body: a chunked one, or the rest of the stream.\<close>

definition body_carries :: "body_framing \<Rightarrow> byte list \<Rightarrow> net_reader \<Rightarrow> byte list \<Rightarrow> bool" where
  "body_carries framing leftover es payload \<longleftrightarrow>
     plain_net es \<and>
     (case framing of
        BodyChunked \<Rightarrow> (\<exists>rest. chunked_body (leftover @ net_bytes es) payload rest)
      | BodyToEnd \<Rightarrow> payload = leftover @ net_bytes es
      | BodyTake _ \<Rightarrow> False)"

lemma body_events_whole:
  assumes "body_carries framing leftover es payload" and "0 < room" and "length payload < polls"
  shows "\<exists>cs. fst (body_events taken framing room polls leftover es) = map ReadData cs @ [ReadEnd] \<and> concat cs = payload"
proof (cases framing)
  case BodyChunked
  let ?s = "unread_socket (chain_new leftover es)"
  have "net_bytes ?s = leftover @ net_bytes es" and "plain_net ?s"
    using assms(1) by (auto simp: unread_socket_def chain_new_def body_carries_def)
  then have "\<exists>rest. owes (chunked_new ?s) payload rest"
    using assms(1) BodyChunked by (auto simp: owes_def chunked_new_def body_carries_def)
  from chunked_source.observe_whole [OF assms(2) this assms(3)] BodyChunked show ?thesis
    by (simp add: body_events_def case_prod_beta Let_def)
next
  case BodyToEnd
  have "plain_owed \<lparr>cr_inner = chain_new leftover es, cr_bytes_received = 0\<rparr> payload"
    using assms(1) BodyToEnd
    by (simp add: plain_owed_def body_carries_def chained.counting_unread_def net.chain_unread_def chain_new_def)
  from plain_source.observe_whole [OF assms(2) this assms(3)] BodyToEnd show ?thesis
    by (simp add: body_events_def case_prod_beta Let_def)
next
  case (BodyTake len)
  with assms(1) show ?thesis by (simp add: body_carries_def)
qed

text \<open>What the reader task forwards of a body: all of it, or the audio of an MP3 stream.\<close>

lemma drained_body:
  assumes "evs = map ReadData cs @ [ReadEnd]"
  shows "if codec = MP3 then audio_part (concat cs) (concat (rt_sent (drain_reader codec (reader_new evs))))
    else concat (rt_sent (drain_reader codec (reader_new evs))) = concat cs"
  using drain_reader_audio [of "reader_new evs" cs codec] assms by (simp add: reader_new_def split: if_splits)

lemma slice_of_concat: "d \<in> set ds \<Longrightarrow> \<exists>pre post. concat ds = pre @ d @ post"
proof -
  assume "d \<in> set ds"
  then obtain ys zs where "ds = ys @ d # zs" by (auto dest: split_list)
  then have "concat ds = concat ys @ d @ concat zs" by simp
  then show ?thesis by blast
qed

text \<open>No part of a stream announces a rate of zero, which would stop the publisher with a panic.\<close>

definition rates_positive :: "codec_id \<Rightarrow> byte list \<Rightarrow> bool" where
  "rates_positive codec payload \<longleftrightarrow>
     codec = VORBIS \<longrightarrow> (\<forall>pre d post. payload = pre @ d @ post \<longrightarrow> scan_nominal_bitrate_bps d \<noteq> Some 0)"

lemma live_ingest_whole:
  fixes libs :: "('i, 'p, 'r, 'l, 'v) media_libs"
  assumes body: "body_carries framing (sn_leftover sn) es payload" "length payload < polls"
    and ig: "ig_transcode ig = None" "ig_max_rate_bps ig \<noteq> Some 0" "0 < ig_chunk_size ig"
    and rates: "rates_positive (sn_codec sn) payload"
  shows "\<exists>stats st' ps. live_ingest libs taken polls es (undisturbed clock pts elapsed) sn framing ig st = Some (Inr stats, st') \<and>
    bs_sent (am_bus (app_mount st' (sn_addr sn))) = bs_sent (am_bus (app_mount st (sn_addr sn))) @ ps \<and>
    ap_listeners st' = ap_listeners st \<and>
    (if sn_codec sn = MP3 then audio_part payload (concat (audio_of ps)) else concat (audio_of ps) = payload)"
proof -
  obtain evs n where b: "body_events taken framing (ig_chunk_size ig) polls (sn_leftover sn) es = (evs, n)"
    by fastforce
  with body_events_whole [OF body(1) ig(3) body(2), of taken] obtain cs where
    cs: "evs = map ReadData cs @ [ReadEnd]" "concat cs = payload" by auto
  define rt where "rt = drain_reader (sn_codec sn) (reader_new evs)"
  define ds where "ds = zip (rt_sent rt) (map clock [0..<length (rt_sent rt)])"
  have ds: "map fst ds = rt_sent rt" by (simp add: ds_def)
  have audio: "if sn_codec sn = MP3 then audio_part payload (concat (rt_sent rt)) else concat (rt_sent rt) = payload"
    using drained_body [OF cs(1), of "sn_codec sn"] unfolding cs(2) rt_def .
  have "sn_codec sn \<noteq> VORBIS \<or> (\<forall>d\<in>fst ` set ds. scan_nominal_bitrate_bps d \<noteq> Some 0)"
  proof (cases "sn_codec sn = VORBIS")
    case True
    then have "concat (rt_sent rt) = payload" using audio by simp
    with True rates show ?thesis
      using slice_of_concat [of _ "rt_sent rt"] ds unfolding rates_positive_def by (metis list.set_map)
  qed simp
  note run = publish_loop_passthrough [OF ig(1) _ _ this, of _ libs pts elapsed]
  let ?m = "app_mount st (sn_addr sn)"
  obtain pu :: "('i, 'r, 'l, 'v) publisher" where pu: "publisher_start ig (sn_codec sn) (am_bus ?m) (am_header_bytes ?m) = Inr pu"
    using publisher_start_ok by blast
  then have "rate_ok pu" "pu_pipeline pu = None" "pu_bus pu = am_bus ?m"
    using publisher_start_sel [OF pu] ig(1,2) by (simp_all add: rate_ok_def)
  with run [of pu] ds obtain pu' ps where r:
    "publish_loop libs ig (sn_codec sn) (undisturbed clock pts elapsed rt) pu =
       IngestReturns (Inr ((pu_stats pu')\<lparr>ss_duration := elapsed\<rparr>)) pu'"
    "bs_sent (pu_bus pu') = bs_sent (am_bus ?m) @ ps" "audio_of ps = rt_sent rt"
    by (auto simp: undisturbed_def ds_def)
  let ?n = "?m\<lparr>am_stats := (am_stats ?m)\<lparr>ms_bytes_received := ms_bytes_received (am_stats ?m) + n\<rparr>\<rparr>"
  have "live_ingest libs taken polls es (undisturbed clock pts elapsed) sn framing ig st =
      Some (Inr ((pu_stats pu')\<lparr>ss_duration := elapsed\<rparr>), put_mount (sn_addr sn) (store_mount pu' ?n) st)"
    using b pu r(1) by (simp add: live_ingest_def Let_def ingest_run_def rt_def [symmetric])
  moreover have "if sn_codec sn = MP3 then audio_part payload (concat (audio_of ps)) else concat (audio_of ps) = payload"
    using audio r(3) by simp
  ultimately show ?thesis
    using r(2) by (intro exI conjI) (assumption | simp add: store_mount_def)+
qed

section \<open>What the client of a listener hears\<close>

text \<open>The bytes on the wire, and the audio a client takes from them.\<close>

fun wire_of :: "listener_end \<Rightarrow> byte list" where
  "wire_of (PrefixFailed w) = wr_out w"
| "wire_of (OutputEnded (OutFinished r st)) = wr_out (ic_writer st)"
| "wire_of (OutputEnded (OutRunning st)) = wr_out (ic_writer st)"
| "wire_of (OutputEnded OutDiverged) = []"

definition client_audio :: "bool \<Rightarrow> byte list \<Rightarrow> byte list" where
  "client_audio icy wire = (if icy then icy_strip default_icy_metaint default_icy_metaint wire else wire)"

definition texts_fit :: "mount_info \<Rightarrow> icy_snap \<Rightarrow> bool" where
  "texts_fit info snap \<longleftrightarrow>
     (\<forall>i. case snap i of (t, ov) \<Rightarrow> length (icy_text (icy_title info t ov) (icy_url info ov)) \<le> 4080)"

lemma wire_of_outcome: "wire_of (OutputEnded (out_outcome duration r st)) = wr_out (ic_writer st)"
  by (cases r) (simp_all add: out_outcome_def listener_done_def)

lemma listener_task_audio:
  assumes "ln_prefix ln = None" and "ln_icy ln \<Longrightarrow> texts_fit (ln_info ln) snap"
  shows "client_audio (ln_icy ln) (wire_of (listener_task duration snap ln live \<lparr>wr_out = [], wr_room = None\<rparr>)) =
    event_audio (map OutItem (ln_burst ln) @ live)"
proof (cases "ln_icy ln")
  case True
  let ?evs = "map OutItem (ln_burst ln) @ live"
  have t: "listener_task duration snap ln live \<lparr>wr_out = [], wr_room = None\<rparr> =
      OutputEnded (out_outcome duration (event_outcome ?evs)
        (woven (ln_info ln) snap default_icy_metaint (event_audio ?evs) (icy_init \<lparr>wr_out = [], wr_room = None\<rparr>)))"
    using assms(1) True
    by (simp add: listener_task_def http_passthrough_run_def output_loop_icy icy_init_def default_icy_metaint_def)
  have "\<forall>i. frame_fits (snap_frame (ln_info ln) snap i)"
    using assms(2) [OF True] by (simp add: frame_fits_iff case_prod_beta texts_fit_def)
  from icy_strip_weave [OF this, of 0 default_icy_metaint] show ?thesis
    using True unfolding t wire_of_outcome client_audio_def
    by (simp add: icy_init_def default_icy_metaint_def)
next
  case False
  with assms(1) show ?thesis
    by (simp add: listener_task_plain wire_of_outcome client_audio_def event_audio_items)
qed

lemma event_audio_packets:
  assumes "fin \<in> {OutCancelled, OutEnd}"
  shows "event_audio (map OutItem ps @ fin # evs) = concat (audio_of ps)"
  using assms by (induction ps) (auto simp: audio_of_def)

section \<open>From the source to the listener\<close>

lemma registered_listener_kicked:
  assumes "listener_join now path peer hs a st = (ln, st')"
  shows "ln_token ln \<in> lm_cancelled (kick_mount_listeners path (ap_listeners st'))"
proof -
  have "lm_entries (ap_listeners st') (lm_next_id (ap_listeners st)) =
      Some \<lparr>li_id = lm_next_id (ap_listeners st), li_mount_path = path, li_peer_addr = Some peer,
        li_connected_at = now, li_cancel = ln_token ln\<rparr>"
    using listener_join_facts(9) [OF assms] by (simp add: listener_register_def)
  then show ?thesis by (fastforce simp: kick_mount_listeners_def)
qed

lemma run_source_kicks:
  "ap_listeners (snd (run_source True (\<lambda>_ _ _ _. (r, st3)) sn st2)) =
     kick_mount_listeners (sn_path sn) (ap_listeners st3)"
  by (simp add: run_source_def guard_drop_def Let_def)

lemma live_ingest_config:
  assumes "mount_transcode cfg path = None" and "lm_source_max_kbps (cf_limits cfg) \<noteq> Some 0"
  shows "ig_transcode (build_ingest_for_mount cfg path m) = None"
    and "ig_max_rate_bps (build_ingest_for_mount cfg path m) \<noteq> Some 0"
    and "0 < ig_chunk_size (build_ingest_for_mount cfg path m)"
  using assms
  by (auto simp: build_ingest_for_mount_def Let_def with_header_capture_def with_max_rate_def ingest_default_def
      ingest_new_def split: option.splits)

text \<open>
  A mount waiting for its source: registered, not transcoding, without an owner or captured pages,
  and not rate limited to nothing.
\<close>

definition mount_idle :: "app_state \<Rightarrow> string \<Rightarrow> mount_addr \<Rightarrow> bool" where
  "mount_idle st path a \<longleftrightarrow>
     find_app_mount st path = Some a \<and> \<not> non_live_present (app_mount st a) \<and>
     \<not> am_source_connected (app_mount st a) \<and> am_header_bytes (app_mount st a) = None \<and>
     mount_transcode (ap_config st) path = None \<and> lm_source_max_kbps (cf_limits (ap_config st)) \<noteq> Some 0"

text \<open>
  Claim C1. A broadcast, end to end: a listener has joined an idle mount, then a source with the
  right password connects and sends a body, chunked or up to the end of the stream, in whatever
  segments. The source is admitted, its ingest succeeds, and a listener that keeps up hears the
  history it was given on joining and then exactly the payload of the source, without the chunked
  framing, without the ICY frames if it asked for them, and for MP3 without the ID3v2 tag and Xing
  frame in front; when the source has gone, the listener's connection is cancelled.
\<close>

theorem source_reaches_listener:
  fixes libs :: "('i, 'p, 'r, 'l, 'v) media_libs"
  assumes joined: "listener_handler value_ok now seg peer hs st = ((reply, Some ln), st1)"
    and idle: "mount_idle st (''/'' @ seg) a"
    and head: "ph_path head = ''/'' @ seg" "source_password_ok st (''/'' @ seg) (extract_source_password dec (ph_headers head))"
    and body: "body_carries (body_framing_of (ph_headers head)) (ph_leftover head) es payload" "length payload < polls"
    and rates: "rates_positive (detect_codec_from_content_type (ph_headers head)) payload"
    and titles: "texts_fit (ln_info ln) snap"
  shows "\<exists>sn st2 stats st3 audio.
    admit_source dec others now' head st1 = (Inr sn, st2) \<and>
    live_ingest libs taken polls es (undisturbed clock pts elapsed) sn (body_framing_of (sn_headers sn))
      (build_ingest_for_mount (ap_config st2) (sn_path sn) (app_mount st2 (sn_addr sn))) st2 = Some (Inr stats, st3) \<and>
    (if sn_codec sn = MP3 then audio_part payload audio else audio = payload) \<and>
    (\<forall>fin\<in>{OutCancelled, OutEnd}.
      client_audio (ln_icy ln) (wire_of (listener_task duration snap ln
        (map OutItem (drop (length (bs_sent (am_bus (app_mount st1 a)))) (bs_sent (am_bus (app_mount st3 a)))) @ [fin])
        \<lparr>wr_out = [], wr_room = None\<rparr>)) = concat (audio_of (ln_burst ln)) @ audio) \<and>
    ln_token ln \<in> lm_cancelled (ap_listeners (snd (run_source True (\<lambda>_ _ _ _. (Inr stats, st3)) sn st2)))"
proof -
  let ?p = "''/'' @ seg" and ?codec = "detect_codec_from_content_type (ph_headers head)"
  note i = idle [unfolded mount_idle_def]
  have j: "listener_join now ?p peer hs a st = (ln, st1)"
    using joined i by (auto simp: listener_handler_def listener_check_def Let_def split: sum.splits prod.splits if_splits option.splits)
  note f = listener_join_facts [OF j]
  have auth: "ap_auth st1 = ap_auth st"
    using j by (auto simp: listener_join_def Let_def fresh_token_def listener_register_def split: prod.splits if_splits)
  have m1: "find_app_mount st1 ?p = Some a" "\<not> non_live_present (app_mount st1 a)" "\<not> am_source_connected (app_mount st1 a)"
    "source_password_ok st1 ?p w = source_password_ok st ?p w" "\<not> codec_rejected st1 ?p ?codec" for w
    using i f(7,8,10) auth
    by (simp_all add: find_app_mount_def non_live_present_def source_password_ok_def codec_rejected_def)
  define sn where "sn = \<lparr>sn_addr = a, sn_path = ?p, sn_dynamic = False, sn_codec = ?codec, sn_headers = ph_headers head,
      sn_leftover = ph_leftover head, sn_token = ap_next_token st1\<rparr>"
  define st2 where "st2 = put_mount a (claimed_mount (ap_next_token st1) now' ?codec (parse_source_overlay (ph_headers head))
      (app_mount st1 a)) (st1\<lparr>ap_next_token := Suc (ap_next_token st1)\<rparr>)"
  have adm: "admit_source dec others now' head st1 = (Inr sn, st2)"
    using admit_known [of st1 head a dec others now'] m1 head by (simp add: Let_def sn_def st2_def)
  have s: "sn_addr sn = a" "sn_path sn = ?p" "sn_codec sn = ?codec" "sn_headers sn = ph_headers head" "sn_leftover sn = ph_leftover head"
    "ap_config st2 = ap_config st" "ap_listeners st2 = ap_listeners st1" "am_bus (app_mount st2 a) = am_bus (app_mount st1 a)"
    using f(7) by (simp_all add: sn_def st2_def claimed_mount_def)
  let ?ig = "build_ingest_for_mount (ap_config st2) (sn_path sn) (app_mount st2 (sn_addr sn))"
  have "ig_transcode ?ig = None" "ig_max_rate_bps ?ig \<noteq> Some 0" "0 < ig_chunk_size ?ig"
    using live_ingest_config i s by simp_all
  from live_ingest_whole [OF _ body(2) this, of _ sn es libs taken clock pts elapsed st2] body(1) rates s
  obtain stats st3 ps where run:
    "live_ingest libs taken polls es (undisturbed clock pts elapsed) sn (body_framing_of (sn_headers sn)) ?ig st2 = Some (Inr stats, st3)"
    "bs_sent (am_bus (app_mount st3 a)) = bs_sent (am_bus (app_mount st1 a)) @ ps"
    "ap_listeners st3 = ap_listeners st1"
    "if sn_codec sn = MP3 then audio_part payload (concat (audio_of ps)) else concat (audio_of ps) = payload"
    by fastforce
  have "client_audio (ln_icy ln) (wire_of (listener_task duration snap ln (map OutItem ps @ [fin]) \<lparr>wr_out = [], wr_room = None\<rparr>)) =
      concat (audio_of (ln_burst ln)) @ concat (audio_of ps)" if "fin \<in> {OutCancelled, OutEnd}" for fin
    using listener_task_audio [of ln snap duration "map OutItem ps @ [fin]"] titles f(4) i
      event_audio_packets [OF that, of "ln_burst ln @ ps" "[]"] by (simp add: audio_of_append)
  then have heard: "\<forall>fin\<in>{OutCancelled, OutEnd}. client_audio (ln_icy ln) (wire_of (listener_task duration snap ln
      (map OutItem (drop (length (bs_sent (am_bus (app_mount st1 a)))) (bs_sent (am_bus (app_mount st3 a)))) @ [fin])
      \<lparr>wr_out = [], wr_room = None\<rparr>)) = concat (audio_of (ln_burst ln)) @ concat (audio_of ps)"
    using run(2) by simp
  have "ln_token ln \<in> lm_cancelled (ap_listeners (snd (run_source True (\<lambda>_ _ _ _. (Inr stats, st3)) sn st2)))"
    using registered_listener_kicked [OF j] run(3) s(2) by (simp add: run_source_kicks)
  with adm run(1,4) heard show ?thesis by blast
qed

text \<open>A chunked AAC source whose body starts in the segment of its head, and an ICY listener.\<close>

definition chunked_wire :: "byte list" where
  "chunked_wire = chunk_encode [[1, 2, 3], [4, 5]]"

definition chunked_head :: parsed_head where
  "chunked_head =
     (let h = sample_head ''/dj'' ''hackme'' ''audio/aac'' in
      h\<lparr>ph_headers := (ph_headers h)(''transfer-encoding'' \<mapsto> HvText ''Chunked''),
        ph_leftover := take 2 chunked_wire\<rparr>)"

lemma chunked_head_sel:
  "ph_path chunked_head = ''/dj''" "ph_leftover chunked_head = take 2 chunked_wire"
  "extract_source_password plain_decode (ph_headers chunked_head) = ''hackme''"
  "detect_codec_from_content_type (ph_headers chunked_head) = AAC"
  "body_framing_of (ph_headers chunked_head) = BodyChunked"
proof -
  let ?h = "sample_head ''/dj'' ''hackme'' ''audio/aac''"
  have "extract_source_password plain_decode (ph_headers chunked_head) = extract_source_password plain_decode (ph_headers ?h)"
    by (simp add: extract_source_password_def header_str_def chunked_head_def Let_def)
  also have "\<dots> = ''hackme''" by (rule sample_head_password) simp
  finally show "extract_source_password plain_decode (ph_headers chunked_head) = ''hackme''" .
  show "ph_path chunked_head = ''/dj''" "ph_leftover chunked_head = take 2 chunked_wire"
    by (simp_all add: chunked_head_def Let_def)
  show "detect_codec_from_content_type (ph_headers chunked_head) = AAC"
    by (simp add: detect_codec_from_content_type_def header_str_def chunked_head_def sample_head_def Let_def starts_with_def)
  have low: "to_ascii_lowercase ''Chunked'' = ''chunked''" by code_simp
  show "body_framing_of (ph_headers chunked_head) = BodyChunked"
    using low by (simp add: body_framing_of_def is_chunked_def header_str_def chunked_head_def sample_head_def Let_def
        starts_with_def)
qed

theorem source_reaches_listener_witness:
  "\<exists>ln sn st1 st2 stats st3.
     ln_icy ln \<and> admit_source plain_decode [] 9 chunked_head st1 = (Inr sn, st2) \<and>
     live_ingest mute_libs (\<lambda>_ _ _ _. ([], 0)) 9 [NetData (drop 2 chunked_wire)] (undisturbed (\<lambda>i. (i, i)) 8 8) sn
       (body_framing_of (sn_headers sn)) (build_ingest_for_mount (ap_config st2) (sn_path sn) (app_mount st2 (sn_addr sn)))
       st2 = Some (Inr stats, st3) \<and>
     client_audio True (wire_of (listener_task 7 (\<lambda>_. (Some ''A'', None)) ln
        (map OutItem (drop (length (bs_sent (am_bus (app_mount st1 0)))) (bs_sent (am_bus (app_mount st3 0)))) @ [OutCancelled])
        \<lparr>wr_out = [], wr_room = None\<rparr>)) = [1, 2, 3, 4, 5]"
proof -
  let ?hs = "[''icy-metadata'' \<mapsto> HvText ''1'']"
  obtain ln st1 where j: "listener_join 3 (''/'' @ ''dj'') ''peer'' ?hs 0 (sample_app None) = (ln, st1)" by fastforce
  then have h: "listener_handler (\<lambda>_. True) 3 ''dj'' ''peer'' ?hs (sample_app None) =
      ((listener_response (\<lambda>_. True) (''/'' @ ''dj'') ln st1, Some ln), st1)"
    by (simp add: listener_handler_def Let_def sample_check)
  have m: "am_info (app_mount (sample_app None) 0) = \<lparr>mi_path = ''/dj'', mi_codec = MP3, mi_source_password = [],
      mi_max_listeners = None, mi_metadata = default_metadata\<rparr>"
    "mount_transcode (ap_config (sample_app None)) ''/dj'' = None" "am_header_bytes (app_mount (sample_app None) 0) = None"
    "am_bus (app_mount (sample_app None) 0) = bus_new 16 100" "lm_source_max_kbps (cf_limits (ap_config (sample_app None))) = None"
    by (simp_all add: sample_app_def sample_cfg_def app_mount_def active_mount_new_def mount_transcode_def)
  note f = listener_join_facts [OF j]
  have one: "trim ''1'' = ''1''" by code_simp
  have icy: "ln_icy ln" "ln_burst ln = []"
    using f(5,6) m one
    by (simp_all add: icy_wanted_def resolve_output_codec_def header_str_def subscribe_def bus_new_def)
  have idle: "mount_idle (sample_app None) (''/'' @ ''dj'') 0"
    using m by (simp add: mount_idle_def sample_find sample_mount non_live_present_def)
  have wire: "chunked_body (take 2 chunked_wire @ net_bytes [NetData (drop 2 chunked_wire)]) [1, 2, 3, 4, 5] []"
    using chunk_encode_body [of "[[1, 2, 3], [4, 5]]" "[]"] by (simp add: chunked_wire_def)
  have "2 < length chunked_wire" by (simp add: chunked_wire_def chunk_encode_def chunk_frame_def)
  then have "drop 2 chunked_wire \<noteq> []" by simp
  then have body: "body_carries (body_framing_of (ph_headers chunked_head)) (ph_leftover chunked_head)
      [NetData (drop 2 chunked_wire)] [1, 2, 3, 4, 5]"
    using wire unfolding body_carries_def chunked_head_sel by auto
  have rates: "rates_positive (detect_codec_from_content_type (ph_headers chunked_head)) [1, 2, 3, 4, 5]"
    by (simp add: rates_positive_def chunked_head_sel)
  have titles: "texts_fit (ln_info ln) (\<lambda>_. (Some ''A'', None))"
    using f(3) m(1) by (simp add: texts_fit_def icy_text_def icy_title_def icy_url_def default_metadata_def)
  have pw: "source_password_ok (sample_app None) (''/'' @ ''dj'') (extract_source_password plain_decode (ph_headers chunked_head))"
    by (simp add: sample_auth chunked_head_sel)
  have path: "ph_path chunked_head = ''/'' @ ''dj''" by (simp add: chunked_head_sel)
  obtain sn st2 stats st3 audio where
    r: "admit_source plain_decode [] 9 chunked_head st1 = (Inr sn, st2)"
    "live_ingest mute_libs (\<lambda>_ _ _ _. ([], 0)) 9 [NetData (drop 2 chunked_wire)] (undisturbed (\<lambda>i. (i, i)) 8 8) sn
       (body_framing_of (sn_headers sn)) (build_ingest_for_mount (ap_config st2) (sn_path sn) (app_mount st2 (sn_addr sn)))
       st2 = Some (Inr stats, st3)"
    "if sn_codec sn = MP3 then audio_part [1, 2, 3, 4, 5] audio else audio = [1, 2, 3, 4, 5]"
    "\<forall>fin\<in>{OutCancelled, OutEnd}. client_audio (ln_icy ln) (wire_of (listener_task 7 (\<lambda>_. (Some ''A'', None)) ln
        (map OutItem (drop (length (bs_sent (am_bus (app_mount st1 0)))) (bs_sent (am_bus (app_mount st3 0)))) @ [fin])
        \<lparr>wr_out = [], wr_room = None\<rparr>)) = concat (audio_of (ln_burst ln)) @ audio"
    using source_reaches_listener [OF h idle path pw body _ rates titles, of 9 "[]" 9 mute_libs "\<lambda>_ _ _ _. ([], 0)" "\<lambda>i. (i, i)" 8 8 7]
    by auto
  have "audio = [1, 2, 3, 4, 5]" using r(3) by (simp add: audio_part_def split: if_splits)
  with r(1,2,4) icy show ?thesis by (fastforce simp: audio_of_def)
qed

end
