(* ===== verification/Admin_Views.thy ===== *)
theory Admin_Views
  imports Admin_Api "HOL-Library.Multiset" "HOL-Library.Char_ord" "HOL-Library.List_Lexorder" "HOL-Library.Product_Lexorder"
begin

text \<open>
  The read-only views of the admin API: the mount and listener lists (\<open>api/mounts.rs\<close>), the
  statistics (\<open>api/stats.rs\<close>) and the directory browser (\<open>api/fs.rs\<close>). The registry enumerates
  its mounts in an order of its hash map, so the enumeration is an argument; so are the answers of
  the operating system and the Unicode lower-case table.
\<close>

section \<open>api/mounts.rs\<close>

record mount_status =
  st_path :: string
  st_codec :: string
  st_name :: "string option"
  st_description :: "string option"
  st_genre :: "string option"
  st_url :: "string option"
  st_public :: "bool option"
  st_audio_info :: "string option"
  st_bitrate_kbps :: "nat option"
  st_title :: "string option"
  st_source_connected :: bool
  st_source_kind :: string
  st_listener_count :: nat
  st_source_uptime_secs :: "nat option"

definition admin_mount_transcode :: "config \<Rightarrow> string \<Rightarrow> transcode_config option" where
  "admin_mount_transcode cfg mount_path =
     (case find_key mc_path mount_path (cf_mounts cfg) of
        Some mc \<Rightarrow> effective_transcode cfg mc
      | None \<Rightarrow> cf_transcode cfg)"

definition admin_output_codec :: "codec_id \<Rightarrow> transcode_config option \<Rightarrow> codec_id" where
  "admin_output_codec source_codec transcode =
     (case map_option tc_format transcode of
        Some FmtMp3 \<Rightarrow> MP3
      | Some FmtVorbis \<Rightarrow> VORBIS
      | None \<Rightarrow> source_codec)"

text \<open>Durations are in nanoseconds; \<open>as_secs\<close> truncates.\<close>

definition as_secs :: "nat \<Rightarrow> nat" where
  "as_secs d = d div 1000000000"

definition source_kind_str :: "active_mount \<Rightarrow> string" where
  "source_kind_str m =
     (if \<not> am_source_connected m then ''none''
      else (case load_source_kind m of
              KindAutoDj \<Rightarrow> ''autodj''
            | KindRelay \<Rightarrow> ''relay''
            | KindNone \<Rightarrow> ''live''
            | KindLive \<Rightarrow> ''live''))"

definition mount_status_of :: "config \<Rightarrow> nat \<Rightarrow> active_mount \<Rightarrow> mount_status" where
  "mount_status_of cfg now m =
     (let info = am_info m;
          transcode = admin_mount_transcode cfg (mi_path info);
          identity = effective_identity_of m transcode;
          output_codec = admin_output_codec (mi_codec info) transcode
      in \<lparr>st_path = mi_path info, st_codec = codec_as_str output_codec,
          st_name = ei_name identity, st_description = ei_description identity,
          st_genre = ei_genre identity, st_url = ei_url identity, st_public = ei_public identity,
          st_audio_info = ei_audio_info identity, st_bitrate_kbps = ei_bitrate_kbps identity,
          st_title = am_current_title m, st_source_connected = am_source_connected m,
          st_source_kind = source_kind_str m, st_listener_count = listener_count m,
          st_source_uptime_secs = map_option as_secs (source_uptime now m)\<rparr>)"

definition list_mounts :: "mount_addr list \<Rightarrow> nat \<Rightarrow> admin_state \<Rightarrow> mount_status list" where
  "list_mounts mounts now st = map (\<lambda>a. mount_status_of (as_config st) now (as_store st a)) mounts"

record listener_list =
  ll_mount_path :: string
  ll_listeners :: "(nat \<times> string option) set"

definition list_listeners :: "string \<Rightarrow> admin_state \<Rightarrow> nat + listener_list" where
  "list_listeners mount_path st =
     (let path = ''/'' @ mount_path in
      if registry_get (as_mounts st) path = None then Inl 404
      else Inr \<lparr>ll_mount_path = path, ll_listeners = details_for_mount path (as_listeners st)\<rparr>)"

lemma admin_mount_transcode_agrees: "admin_mount_transcode = mount_transcode"
  by (intro ext) (simp add: admin_mount_transcode_def mount_transcode_def)

lemma admin_output_codec_agrees: "admin_output_codec = resolve_output_codec"
  by (intro ext) (simp add: admin_output_codec_def resolve_output_codec_def)

section \<open>api/stats.rs\<close>

record global_stats =
  gs_uptime_secs :: nat
  gs_total_mounts :: nat
  gs_total_listeners :: nat
  gs_total_bytes_in :: "64 word"
  gs_total_bytes_out :: "64 word"
  gs_version :: string
  gs_stream_port :: nat

definition saturating_add :: "64 word \<Rightarrow> 64 word \<Rightarrow> 64 word" where
  "saturating_add a b = (if unat a + unat b < 2 ^ 64 then a + b else - 1)"

fun sum_stats :: "active_mount list \<Rightarrow> 64 word \<Rightarrow> 64 word \<Rightarrow> 64 word \<times> 64 word" where
  "sum_stats [] total_in total_out = (total_in, total_out)"
| "sum_stats (m # ms) total_in total_out =
     sum_stats ms (saturating_add total_in (ms_bytes_received (am_stats m)))
       (saturating_add total_out (ms_bytes_sent (am_stats m)))"

definition global_stats_of :: "mount_addr list \<Rightarrow> nat \<Rightarrow> admin_state \<Rightarrow> global_stats" where
  "global_stats_of mounts now st =
     (case sum_stats (map (as_store st) mounts) 0 0 of
        (total_bytes_in, total_bytes_out) \<Rightarrow>
          \<lparr>gs_uptime_secs = as_secs (now - as_start_time st), gs_total_mounts = length mounts,
           gs_total_listeners = total_count (as_listeners st), gs_total_bytes_in = total_bytes_in,
           gs_total_bytes_out = total_bytes_out, gs_version = as_version st,
           gs_stream_port = as_stream_port st\<rparr>)"

lemma unat_saturating_add: "unat (saturating_add a b) = min (2 ^ 64 - 1) (unat a + unat b)"
proof (cases "unat a + unat b < 2 ^ 64")
  case True
  then have "unat (a + b) = unat a + unat b" by (subst unat_add_lem [THEN iffD1]) simp_all
  with True show ?thesis by (simp add: saturating_add_def min_def)
next
  case False
  have "unat (- 1 :: 64 word) = 2 ^ 64 - 1" by (simp add: unsigned_minus_1_eq_mask mask_eq_exp_minus_1)
  with False show ?thesis by (simp add: saturating_add_def min_def)
qed

lemma unat_sum_stats:
  "unat (fst (sum_stats ms i o')) = min (2 ^ 64 - 1) (unat i + (\<Sum>m\<leftarrow>ms. unat (ms_bytes_received (am_stats m)))) \<and>
   unat (snd (sum_stats ms i o')) = min (2 ^ 64 - 1) (unat o' + (\<Sum>m\<leftarrow>ms. unat (ms_bytes_sent (am_stats m))))"
proof (induction ms arbitrary: i o')
  case Nil
  have m: "min (2 ^ 64 - 1) (unat x) = unat x" for x :: "64 word"
  proof -
    have "unat x < 2 ^ LENGTH(64)" by (rule unsigned_less)
    then show ?thesis by simp
  qed
  show ?case by (simp add: m [simplified])
next
  case (Cons m ms)
  have c: "min M (min M (a + b) + c) = min M (a + (b + c))" for M a b c :: nat by (simp add: min_def)
  show ?case by (simp only: sum_stats.simps Cons.IH unat_saturating_add c list.map sum_list.Cons simp_thms)
qed

text \<open>The totals are the exact sums as long as those fit 64 bits, in whatever order mounts are listed.\<close>

lemma global_stats_total:
  "unat (gs_total_bytes_in (global_stats_of mounts now st)) =
     min (2 ^ 64 - 1) (\<Sum>a\<leftarrow>mounts. unat (ms_bytes_received (am_stats (as_store st a))))"
  using unat_sum_stats [of "map (as_store st) mounts" 0 0, THEN conjunct1]
  by (cases "sum_stats (map (as_store st) mounts) 0 0") (simp add: global_stats_of_def comp_def)

section \<open>api/fs.rs\<close>

record dir_entry =
  de_name :: string
  de_is_dir :: bool

record list_dir_response =
  ld_path :: string
  ld_parent :: "string option"
  ld_entries :: "dir_entry list"

datatype list_dir_reply = DirListed list_dir_response | DirError nat string string

text \<open>\<open>Path::parent\<close> of a canonical (absolute, normalised) path.\<close>

definition path_parent :: "string \<Rightarrow> string option" where
  "path_parent p =
     (if p = ''/'' then None
      else (let above = rev (drop 1 (dropWhile (\<lambda>c. c \<noteq> CHR ''/'') (rev p)))
            in Some (if above = [] then ''/'' else above)))"

text \<open>
  An item of \<open>read_dir\<close>: \<open>None\<close> when reading it failed, else its (lossily decoded) name and
  whether its type could be read and is a directory.
\<close>

definition visible_entry :: "(string \<times> bool option) option \<Rightarrow> dir_entry option" where
  "visible_entry item =
     (case item of
        None \<Rightarrow> None
      | Some (name, file_type_is_dir) \<Rightarrow>
          if starts_with name ''.'' then None
          else Some \<lparr>de_name = name, de_is_dir = (file_type_is_dir = Some True)\<rparr>)"

text \<open>The comparison of \<open>sort_by\<close> as a key: directories first, then the lower-cased names.\<close>

definition entry_key :: "(string \<Rightarrow> string) \<Rightarrow> dir_entry \<Rightarrow> bool \<times> string" where
  "entry_key to_lowercase e = (\<not> de_is_dir e, to_lowercase (de_name e))"

definition list_dir ::
  "string option \<Rightarrow> (string \<Rightarrow> string + string) \<Rightarrow> (string \<Rightarrow> bool) \<Rightarrow>
   (string \<Rightarrow> string + (string \<times> bool option) option list) \<Rightarrow> (string \<Rightarrow> string) \<Rightarrow> string option \<Rightarrow> list_dir_reply"
where
  "list_dir home_dir canonicalize is_dir read_dir to_lowercase q =
     (let requested = trim (unwrap_or q []);
          path = (if requested = [] then unwrap_or home_dir ''/'' else requested) in
      case canonicalize path of
        Inl e \<Rightarrow> DirError 404 (''cannot open: '' @ e) path
      | Inr canonical \<Rightarrow>
          if \<not> is_dir canonical then DirError 400 ''not a directory'' canonical
          else (case read_dir canonical of
                  Inl e \<Rightarrow> DirError 403 (''read_dir: '' @ e) canonical
                | Inr items \<Rightarrow>
                    DirListed \<lparr>ld_path = canonical, ld_parent = path_parent canonical,
                      ld_entries = sort_key (entry_key to_lowercase) (List.map_filter visible_entry items)\<rparr>))"

text \<open>
  A listing shows each readable entry whose name has no leading dot exactly once, all directories
  before all files, each group ordered by lower-cased name.
\<close>

lemma list_dir_listed:
  assumes "list_dir home_dir canonicalize is_dir read_dir to_lowercase q = DirListed r"
  shows "\<exists>items. read_dir (ld_path r) = Inr items \<and> is_dir (ld_path r) \<and>
      mset (ld_entries r) = mset (List.map_filter visible_entry items) \<and>
      (\<exists>ds fs. ld_entries r = ds @ fs \<and> (\<forall>e\<in>set ds. de_is_dir e) \<and> (\<forall>e\<in>set fs. \<not> de_is_dir e) \<and>
         sorted (map (\<lambda>e. to_lowercase (de_name e)) ds) \<and> sorted (map (\<lambda>e. to_lowercase (de_name e)) fs))"
proof -
  obtain items where r: "read_dir (ld_path r) = Inr items" "is_dir (ld_path r)"
    and e: "ld_entries r = sort_key (entry_key to_lowercase) (List.map_filter visible_entry items)"
    using assms by (auto simp: list_dir_def Let_def split: sum.splits if_splits)
  let ?es = "ld_entries r"
  have s: "sorted (map (entry_key to_lowercase) ?es)" by (simp add: e)
  have "\<exists>ds fs. es = ds @ fs \<and> (\<forall>e\<in>set ds. de_is_dir e) \<and> (\<forall>e\<in>set fs. \<not> de_is_dir e) \<and>
         sorted (map (\<lambda>e. to_lowercase (de_name e)) ds) \<and> sorted (map (\<lambda>e. to_lowercase (de_name e)) fs)"
    if "sorted (map (entry_key to_lowercase) es)" for es
    using that
  proof (induction es)
    case Nil
    then show ?case by auto
  next
    case (Cons x es)
    then obtain ds fs where es: "es = ds @ fs" and d: "\<forall>e\<in>set ds. de_is_dir e" and f: "\<forall>e\<in>set fs. \<not> de_is_dir e"
      and sd: "sorted (map (\<lambda>e. to_lowercase (de_name e)) ds)" and sf: "sorted (map (\<lambda>e. to_lowercase (de_name e)) fs)"
      by auto
    have le: "\<forall>e\<in>set es. entry_key to_lowercase x \<le> entry_key to_lowercase e" using Cons.prems by auto
    show ?case
    proof (cases "de_is_dir x")
      case True
      have "\<forall>e\<in>set ds. to_lowercase (de_name x) \<le> to_lowercase (de_name e)"
        using le d True es by (auto simp: entry_key_def)
      with es d f sd sf True show ?thesis by (intro exI [of _ "x # ds"] exI [of _ fs]) auto
    next
      case False
      have "ds = []" using le d False es by (cases ds) (auto simp: entry_key_def)
      moreover have "\<forall>e\<in>set fs. to_lowercase (de_name x) \<le> to_lowercase (de_name e)"
        using le f False es by (auto simp: entry_key_def)
      ultimately show ?thesis using es f sf False by (intro exI [of _ "[]"] exI [of _ "x # fs"]) auto
    qed
  qed
  moreover have "mset ?es = mset (List.map_filter visible_entry items)" by (simp add: e)
  ultimately show ?thesis using s r by blast
qed

end
