(* ===== verification/Config_Reload.thy ===== *)
theory Config_Reload
  imports App_State
begin

text \<open>
  Start-up (\<open>main.rs\<close>) and hot reload (\<open>config_reload.rs\<close>): the registries of AutoDJ and relay
  tasks, \<open>apply_config\<close> stage by stage, and what both establish for a configuration. A task is its
  configuration, its shutdown token and the mount it was given; awaiting a cancelled task is its
  release of the slot, if it has it. That such a task ends at all is the subject of \<open>Relay_Task\<close> and
  \<open>Autodj_Facts\<close>, with the states in which it does not.
\<close>

section \<open>The server\<close>

record autodj_entry =
  aj_cfg :: autodj_config
  aj_cancel :: token
  aj_mount :: mount_addr

record relay_entry =
  rl_cfg :: relay_config
  rl_cancel :: token
  rl_mount :: mount_addr

record server =
  rs_app :: app_state
  rs_autodjs :: "string \<rightharpoonup> autodj_entry"
  rs_relays :: "string \<rightharpoonup> relay_entry"

definition on_app :: "(app_state \<Rightarrow> app_state) \<Rightarrow> server \<Rightarrow> server" where
  "on_app f sv = sv\<lparr>rs_app := f (rs_app sv)\<rparr>"

section \<open>Task registries\<close>

definition autodj_insert :: "autodj_config \<Rightarrow> token \<Rightarrow> mount_addr \<Rightarrow> server \<Rightarrow> server" where
  "autodj_insert cfg cancel a sv =
     sv\<lparr>rs_autodjs := (rs_autodjs sv)(ad_mount cfg \<mapsto> \<lparr>aj_cfg = cfg, aj_cancel = cancel, aj_mount = a\<rparr>)\<rparr>"

definition relay_insert :: "relay_config \<Rightarrow> token \<Rightarrow> mount_addr \<Rightarrow> server \<Rightarrow> server" where
  "relay_insert cfg cancel a sv =
     sv\<lparr>rs_relays := (rs_relays sv)(rc_mount cfg \<mapsto> \<lparr>rl_cfg = cfg, rl_cancel = cancel, rl_mount = a\<rparr>)\<rparr>"

definition autodj_ends :: "mount_addr \<Rightarrow> app_state \<Rightarrow> app_state" where
  "autodj_ends a st =
     (let m = app_mount st a in
      if am_source_connected m \<and> load_source_kind m = KindAutoDj then put_mount a (autodj_release_slot m) st else st)"

definition relay_ends :: "mount_addr \<Rightarrow> app_state \<Rightarrow> app_state" where
  "relay_ends a st =
     (let m = app_mount st a in
      if am_source_connected m \<and> load_source_kind m = KindRelay then put_mount a (relay_release_slot m) st else st)"

definition autodj_cancel :: "string \<Rightarrow> server \<Rightarrow> server" where
  "autodj_cancel path sv =
     (case rs_autodjs sv path of
        None \<Rightarrow> sv
      | Some e \<Rightarrow>
          on_app (\<lambda>st. autodj_ends (aj_mount e) (cancel_token (aj_cancel e) st))
            (sv\<lparr>rs_autodjs := (rs_autodjs sv)(path := None)\<rparr>))"

definition relay_cancel :: "string \<Rightarrow> server \<Rightarrow> server" where
  "relay_cancel path sv =
     (case rs_relays sv path of
        None \<Rightarrow> sv
      | Some e \<Rightarrow>
          on_app (\<lambda>st. relay_ends (rl_mount e) (cancel_token (rl_cancel e) st))
            (sv\<lparr>rs_relays := (rs_relays sv)(path := None)\<rparr>))"

definition autodj_spawn :: "autodj_config \<Rightarrow> mount_addr \<Rightarrow> server \<Rightarrow> server" where
  "autodj_spawn cfg a sv =
     (case fresh_token (rs_app sv) of (t, st) \<Rightarrow> autodj_insert cfg t a (sv\<lparr>rs_app := st\<rparr>))"

definition relay_spawn :: "relay_config \<Rightarrow> mount_addr \<Rightarrow> server \<Rightarrow> server" where
  "relay_spawn cfg a sv =
     (case fresh_token (rs_app sv) of (t, st) \<Rightarrow> relay_insert cfg t a (sv\<lparr>rs_app := st\<rparr>))"

section \<open>Mounts of the configuration\<close>

definition mount_meta :: "mount_config \<Rightarrow> mount_metadata" where
  "mount_meta mc = \<lparr>mm_name = mc_name mc, mm_description = mc_description mc, mm_genre = mc_genre mc, mm_url = mc_url mc\<rparr>"

definition autodj_meta :: "autodj_config \<Rightarrow> mount_metadata" where
  "autodj_meta ac = \<lparr>mm_name = ad_name ac, mm_description = ad_description ac, mm_genre = ad_genre ac, mm_url = ad_url ac\<rparr>"

definition relay_meta :: "relay_config \<Rightarrow> mount_metadata" where
  "relay_meta rc = \<lparr>mm_name = rc_name rc, mm_description = rc_description rc, mm_genre = rc_genre rc, mm_url = rc_url rc\<rparr>"

definition codec_seed :: "autodj_config \<Rightarrow> codec_id" where
  "codec_seed ac = (case tc_format (ad_transcode ac) of FmtMp3 \<Rightarrow> MP3 | FmtVorbis \<Rightarrow> VORBIS)"

definition mount_info_of :: "mount_config \<Rightarrow> mount_info" where
  "mount_info_of mc = \<lparr>mi_path = mc_path mc, mi_codec = MP3, mi_source_password = mc_source_password mc,
     mi_max_listeners = mc_max_listeners mc, mi_metadata = mount_meta mc\<rparr>"

definition autodj_info_of :: "autodj_config \<Rightarrow> mount_info" where
  "autodj_info_of ac = \<lparr>mi_path = ad_mount ac, mi_codec = codec_seed ac, mi_source_password = [],
     mi_max_listeners = ad_max_listeners ac, mi_metadata = autodj_meta ac\<rparr>"

definition relay_info_of :: "relay_config \<Rightarrow> mount_info" where
  "relay_info_of rc = \<lparr>mi_path = rc_mount rc, mi_codec = MP3, mi_source_password = [],
     mi_max_listeners = rc_max_listeners rc, mi_metadata = relay_meta rc\<rparr>"

definition bus_for :: "config \<Rightarrow> nat option \<Rightarrow> bus" where
  "bus_for cfg burst = bus_new (lm_ring_size (cf_limits cfg)) (unwrap_or burst (lm_burst_size (cf_limits cfg)))"

section \<open>main.rs: start-up\<close>

definition boot_mount :: "config \<Rightarrow> server \<Rightarrow> mount_config \<Rightarrow> server" where
  "boot_mount cfg sv mc =
     on_app (\<lambda>st. snd (add_mount (mount_info_of mc)
       (bus_new (lm_ring_size (cf_limits cfg)) (effective_burst_size cfg mc)) st)) sv"

definition boot_autodj :: "config \<Rightarrow> server \<Rightarrow> autodj_config \<Rightarrow> server" where
  "boot_autodj cfg sv ac =
     (case add_mount (autodj_info_of ac) (bus_for cfg (ad_burst_size ac)) (rs_app sv) of
        (a, st) \<Rightarrow> if ad_enabled ac then autodj_spawn ac a (sv\<lparr>rs_app := st\<rparr>) else sv\<lparr>rs_app := st\<rparr>)"

definition boot_relay :: "config \<Rightarrow> server \<Rightarrow> relay_config \<Rightarrow> server" where
  "boot_relay cfg sv rc =
     (case add_mount (relay_info_of rc) (bus_for cfg (rc_burst_size rc)) (rs_app sv) of
        (a, st) \<Rightarrow> if rc_enabled rc then relay_spawn rc a (sv\<lparr>rs_app := st\<rparr>) else sv\<lparr>rs_app := st\<rparr>)"

definition empty_app :: "config \<Rightarrow> app_state" where
  "empty_app cfg =
     \<lparr>ap_store = (\<lambda>_. active_mount_new \<lparr>mi_path = [], mi_codec = MP3, mi_source_password = [],
         mi_max_listeners = None, mi_metadata = default_metadata\<rparr> (bus_new 0 0)),
      ap_next_addr = 0, ap_mounts = registry_new, ap_auth = auth_new cfg, ap_listeners = listener_map_new,
      ap_config = cfg, ap_cancelled = {}, ap_next_token = 0\<rparr>"

definition boot_server :: "config \<Rightarrow> server" where
  "boot_server cfg =
     foldl (boot_relay cfg)
       (foldl (boot_autodj cfg)
         (foldl (boot_mount cfg)
           \<lparr>rs_app = empty_app cfg, rs_autodjs = Map.empty, rs_relays = Map.empty\<rparr> (cf_mounts cfg))
         (cf_autodjs cfg))
       (cf_relays cfg)"

section \<open>config_reload.rs: apply_config\<close>

definition restart_notice :: "string \<Rightarrow> string" where
  "restart_notice field =
     field @ '' changed '' @ [CHR 0xE2, CHR 0x80, CHR 0x94] @ '' restart required for this to take effect''"

definition reload_warnings :: "config \<Rightarrow> config \<Rightarrow> string list" where
  "reload_warnings old new =
     (if sv_stream_bind (cf_server old) \<noteq> sv_stream_bind (cf_server new) then [restart_notice ''stream_bind''] else []) @
     (if sv_admin_bind (cf_server old) \<noteq> sv_admin_bind (cf_server new) then [restart_notice ''admin_bind''] else []) @
     (if lm_ring_size (cf_limits old) \<noteq> lm_ring_size (cf_limits new) then [restart_notice ''ring_size''] else [])"

text \<open>The live swap of \<open>MountInfo\<close>: path and codec stay.\<close>

definition swap_info :: "string \<Rightarrow> nat option \<Rightarrow> mount_metadata \<Rightarrow> mount_addr \<Rightarrow> app_state \<Rightarrow> app_state" where
  "swap_info password max_listeners meta a st =
     (let m = app_mount st a; old_info = am_info m in
      put_mount a (m\<lparr>am_info := \<lparr>mi_path = mi_path old_info, mi_codec = mi_codec old_info, mi_source_password = password,
        mi_max_listeners = max_listeners, mi_metadata = meta\<rparr>\<rparr>) st)"

definition reload_mount :: "config \<Rightarrow> app_state \<Rightarrow> mount_config \<Rightarrow> app_state" where
  "reload_mount new_cfg st mc =
     (case find_app_mount st (mc_path mc) of
        Some a \<Rightarrow> swap_info (mc_source_password mc) (mc_max_listeners mc) (mount_meta mc) a st
      | None \<Rightarrow> snd (add_mount (mount_info_of mc) (bus_for new_cfg (mc_burst_size mc)) st))"

definition drop_mount :: "config \<Rightarrow> app_state \<Rightarrow> mount_config \<Rightarrow> app_state" where
  "drop_mount new_cfg st old =
     (if mc_path old \<notin> mc_path ` set (cf_mounts new_cfg) then remove_mount (mc_path old) st else st)"

definition drop_autodj :: "config \<Rightarrow> server \<Rightarrow> autodj_config \<Rightarrow> server" where
  "drop_autodj new_cfg sv old =
     (if ad_mount old \<notin> ad_mount ` set (cf_autodjs new_cfg) then
        on_app (remove_mount (ad_mount old)) (autodj_cancel (ad_mount old) sv)
      else sv)"

definition autodj_needs_respawn :: "autodj_config option \<Rightarrow> autodj_config \<Rightarrow> bool" where
  "autodj_needs_respawn old new =
     (case old of
        None \<Rightarrow> ad_enabled new
      | Some o' \<Rightarrow>
          ad_enabled o' \<noteq> ad_enabled new \<or> ad_folder o' \<noteq> ad_folder new \<or>
          ad_loop_playlist o' \<noteq> ad_loop_playlist new \<or> ad_order o' \<noteq> ad_order new \<or>
          ad_transcode o' \<noteq> ad_transcode new \<or> ad_burst_size o' \<noteq> ad_burst_size new)"

definition ensure_mount :: "mount_info \<Rightarrow> bus \<Rightarrow> app_state \<Rightarrow> app_state" where
  "ensure_mount info b st =
     (case find_app_mount st (mi_path info) of Some _ \<Rightarrow> st | None \<Rightarrow> snd (add_mount info b st))"

definition reload_autodj :: "config \<Rightarrow> config \<Rightarrow> server \<Rightarrow> autodj_config \<Rightarrow> server" where
  "reload_autodj old_cfg new_cfg sv new =
     (if autodj_needs_respawn (find_key ad_mount (ad_mount new) (cf_autodjs old_cfg)) new then
        (let sv1 = autodj_cancel (ad_mount new) sv;
             sv2 = on_app (ensure_mount (autodj_info_of new) (bus_for new_cfg (ad_burst_size new))) sv1
         in if ad_enabled new then
              (case find_app_mount (rs_app sv2) (ad_mount new) of
                 Some a \<Rightarrow> autodj_spawn new a sv2 | None \<Rightarrow> sv2)
            else sv2)
      else
        (case find_app_mount (rs_app sv) (ad_mount new) of
           None \<Rightarrow> sv
         | Some a \<Rightarrow>
             on_app (\<lambda>st. swap_info (mi_source_password (am_info (app_mount st a))) (ad_max_listeners new)
               (autodj_meta new) a st) sv))"

definition drop_relay :: "config \<Rightarrow> server \<Rightarrow> relay_config \<Rightarrow> server" where
  "drop_relay new_cfg sv old =
     (if rc_mount old \<notin> rc_mount ` set (cf_relays new_cfg) then
        on_app (remove_mount (rc_mount old)) (relay_cancel (rc_mount old) sv)
      else sv)"

definition relay_needs_respawn :: "relay_config option \<Rightarrow> relay_config \<Rightarrow> bool" where
  "relay_needs_respawn old new =
     (case old of
        None \<Rightarrow> rc_enabled new
      | Some o' \<Rightarrow>
          rc_enabled o' \<noteq> rc_enabled new \<or> rc_upstream o' \<noteq> rc_upstream new \<or>
          rc_username o' \<noteq> rc_username new \<or> rc_password o' \<noteq> rc_password new \<or>
          rc_transcode o' \<noteq> rc_transcode new \<or> rc_burst_size o' \<noteq> rc_burst_size new)"

definition reload_relay :: "config \<Rightarrow> config \<Rightarrow> server \<Rightarrow> relay_config \<Rightarrow> server" where
  "reload_relay old_cfg new_cfg sv new =
     (if relay_needs_respawn (find_key rc_mount (rc_mount new) (cf_relays old_cfg)) new then
        (let sv1 = relay_cancel (rc_mount new) sv;
             sv2 = on_app (ensure_mount (relay_info_of new) (bus_for new_cfg (rc_burst_size new))) sv1
         in if rc_enabled new then
              (case find_app_mount (rs_app sv2) (rc_mount new) of
                 Some a \<Rightarrow> relay_spawn new a sv2 | None \<Rightarrow> sv2)
            else sv2)
      else
        (case find_app_mount (rs_app sv) (rc_mount new) of
           None \<Rightarrow> sv
         | Some a \<Rightarrow>
             on_app (\<lambda>st. swap_info (mi_source_password (am_info (app_mount st a))) (rc_max_listeners new)
               (relay_meta new) a st) sv))"

definition apply_config :: "config \<Rightarrow> server \<Rightarrow> (string + string list) \<times> server" where
  "apply_config new_cfg sv =
     (let old = ap_config (rs_app sv) in
      case auth_reload (ap_auth (rs_app sv)) new_cfg of
        (Inl e, auth) \<Rightarrow> (Inl (case e of AuthIo s \<Rightarrow> ''backend I/O error: '' @ s | ReloadFailed s \<Rightarrow> ''reload failed: '' @ s),
         on_app (\<lambda>st. st\<lparr>ap_auth := auth\<rparr>) sv)
      | (Inr _, auth) \<Rightarrow>
          (let sv1 = on_app (\<lambda>st. st\<lparr>ap_auth := auth\<rparr>) sv;
               sv2 = on_app (\<lambda>st. foldl (drop_mount new_cfg) (foldl (reload_mount new_cfg) st (cf_mounts new_cfg)) (cf_mounts old)) sv1;
               sv3 = foldl (drop_autodj new_cfg) sv2 (cf_autodjs old);
               sv4 = foldl (reload_autodj old new_cfg) sv3 (cf_autodjs new_cfg);
               sv5 = foldl (drop_relay new_cfg) sv4 (cf_relays old);
               sv6 = foldl (reload_relay old new_cfg) sv5 (cf_relays new_cfg)
           in (Inr (reload_warnings old new_cfg), on_app (\<lambda>st. st\<lparr>ap_config := new_cfg\<rparr>) sv6)))"

text \<open>\<open>do_reload_from_disk\<close>: a file that does not load leaves everything as it is.\<close>

definition do_reload_from_disk ::
  "(string \<Rightarrow> string + string) \<Rightarrow> (string \<Rightarrow> string + config) \<Rightarrow> string \<Rightarrow> server \<Rightarrow> server" where
  "do_reload_from_disk read_to_string toml_from_str path sv =
     (case config_load read_to_string toml_from_str path of
        Inl _ \<Rightarrow> sv
      | Inr new_cfg \<Rightarrow> snd (apply_config new_cfg sv))"

end
