(* ===== verification/Reload_Facts.thy ===== *)
theory Reload_Facts
  imports Config_Reload
begin

text \<open>
  What start-up and reload establish. A server is abstracted to what it holds for each path: the
  password, listener limit and station data of the registered mount, and the configurations of the
  AutoDJ and of the relay running for it. Every stage of \<open>apply_config\<close> acts on this path by path,
  so a reload has a closed form, which is compared with what the configuration asks for.
\<close>

section \<open>The abstraction\<close>

type_synonym mount_key = "string \<times> nat option \<times> mount_metadata"

definition info_key :: "mount_info \<Rightarrow> mount_key" where
  "info_key i = (mi_source_password i, mi_max_listeners i, mi_metadata i)"

definition mount_view :: "app_state \<Rightarrow> string \<Rightarrow> mount_key option" where
  "mount_view st p = map_option (\<lambda>a. info_key (am_info (app_mount st a))) (find_app_mount st p)"

record path_view =
  pv_mount :: "mount_key option"
  pv_autodj :: "autodj_config option"
  pv_relay :: "relay_config option"

definition server_view :: "server \<Rightarrow> string \<Rightarrow> path_view" where
  "server_view sv p =
     \<lparr>pv_mount = mount_view (rs_app sv) p, pv_autodj = map_option aj_cfg (rs_autodjs sv p),
      pv_relay = map_option rl_cfg (rs_relays sv p)\<rparr>"

definition server_ok :: "server \<Rightarrow> bool" where
  "server_ok sv \<longleftrightarrow> app_inv (rs_app sv)"

lemma find_app_bound: "app_inv st \<Longrightarrow> find_app_mount st p = Some a \<Longrightarrow> a < ap_next_addr st"
  by (auto simp: app_inv_def find_app_mount_def registry_get_def)

lemma mount_view_add:
  assumes "app_inv st"
  shows "mount_view (snd (add_mount info b st)) = (mount_view st)(mi_path info \<mapsto> info_key info)"
proof
  fix p
  have "a \<noteq> ap_next_addr st" if "find_app_mount st p = Some a" for a
    using find_app_bound [OF assms that] by simp
  then show "mount_view (snd (add_mount info b st)) p = ((mount_view st)(mi_path info \<mapsto> info_key info)) p"
    by (cases "find_app_mount st p") (auto simp: mount_view_def active_mount_new_def)
qed

lemma mount_view_remove: "mount_view (remove_mount q st) = (mount_view st)(q := None)"
  by (intro ext) (simp add: mount_view_def)

lemma mount_view_put_same:
  "am_info m = am_info (app_mount st a) \<Longrightarrow> mount_view (put_mount a m st) = mount_view st"
  by (intro ext) (simp add: mount_view_def, rule option.map_cong, auto)

lemma mount_view_swap:
  assumes "app_inv st" and "find_app_mount st q = Some a"
  shows "mount_view (swap_info pw mx meta a st) = (mount_view st)(q \<mapsto> (pw, mx, meta))"
proof
  fix p
  have "p = q" if "find_app_mount st p = Some a" using app_inv_distinct [OF assms(1) that assms(2)] .
  then show "mount_view (swap_info pw mx meta a st) p = ((mount_view st)(q \<mapsto> (pw, mx, meta))) p"
    using assms(2) by (cases "find_app_mount st p") (auto simp: mount_view_def swap_info_def Let_def info_key_def)
qed

lemma app_inv_swap: "app_inv st \<Longrightarrow> app_inv (swap_info pw mx meta a st)"
  unfolding swap_info_def Let_def by (rule app_inv_put) simp_all

lemma app_inv_irrelevant [simp]:
  "app_inv (st\<lparr>ap_auth := x\<rparr>) = app_inv st" "app_inv (st\<lparr>ap_config := c\<rparr>) = app_inv st"
  "app_inv (cancel_token t st) = app_inv st" "app_inv (snd (fresh_token st)) = app_inv st"
  by (simp_all add: app_inv_def cancel_token_def fresh_token_def)

lemma mount_view_irrelevant [simp]:
  "mount_view (st\<lparr>ap_auth := x\<rparr>) = mount_view st" "mount_view (st\<lparr>ap_config := c\<rparr>) = mount_view st"
  "mount_view (cancel_token t st) = mount_view st" "mount_view (snd (fresh_token st)) = mount_view st"
  by (intro ext; simp add: mount_view_def cancel_token_def fresh_token_def app_mount_def find_app_mount_def)+

lemma release_keeps_info [simp]:
  "am_info (autodj_release_slot m) = am_info m" "am_info (relay_release_slot m) = am_info m"
  by (simp_all add: autodj_release_slot_def relay_release_slot_def slot_writes_defs slot_write_simps)

lemma task_ends_view [simp]:
  "mount_view (autodj_ends a st) = mount_view st" "mount_view (relay_ends a st) = mount_view st"
  by (simp_all add: autodj_ends_def relay_ends_def Let_def mount_view_put_same)

lemma task_ends_inv [simp]:
  "app_inv st \<Longrightarrow> app_inv (autodj_ends a st)" "app_inv st \<Longrightarrow> app_inv (relay_ends a st)"
  by (simp_all add: autodj_ends_def relay_ends_def Let_def app_inv_put)

section \<open>Stages, path by path\<close>

definition view_reload_mount :: "mount_config \<Rightarrow> path_view \<Rightarrow> path_view" where
  "view_reload_mount mc v = v\<lparr>pv_mount := Some (info_key (mount_info_of mc))\<rparr>"

definition view_autodj :: "autodj_config option \<Rightarrow> autodj_config \<Rightarrow> path_view \<Rightarrow> path_view" where
  "view_autodj old new v =
     (if autodj_needs_respawn old new then
        v\<lparr>pv_mount := Some (unwrap_or (pv_mount v) (info_key (autodj_info_of new))),
          pv_autodj := (if ad_enabled new then Some new else None)\<rparr>
      else v\<lparr>pv_mount := map_option (\<lambda>(pw, _, _). (pw, ad_max_listeners new, autodj_meta new)) (pv_mount v)\<rparr>)"

definition view_relay :: "relay_config option \<Rightarrow> relay_config \<Rightarrow> path_view \<Rightarrow> path_view" where
  "view_relay old new v =
     (if relay_needs_respawn old new then
        v\<lparr>pv_mount := Some (unwrap_or (pv_mount v) (info_key (relay_info_of new))),
          pv_relay := (if rc_enabled new then Some new else None)\<rparr>
      else v\<lparr>pv_mount := map_option (\<lambda>(pw, _, _). (pw, rc_max_listeners new, relay_meta new)) (pv_mount v)\<rparr>)"

lemma server_view_on_app:
  "server_view (on_app f sv) p = (server_view sv p)\<lparr>pv_mount := mount_view (f (rs_app sv)) p\<rparr>"
  by (simp add: server_view_def on_app_def)

lemma autodj_cancel_view:
  "server_view (autodj_cancel q sv) = (server_view sv)(q := (server_view sv q)\<lparr>pv_autodj := None\<rparr>)"
  by (cases "rs_autodjs sv q") (auto simp: autodj_cancel_def server_view_def on_app_def)

lemma relay_cancel_view:
  "server_view (relay_cancel q sv) = (server_view sv)(q := (server_view sv q)\<lparr>pv_relay := None\<rparr>)"
  by (cases "rs_relays sv q") (auto simp: relay_cancel_def server_view_def on_app_def)

lemma cancel_mount_view [simp]:
  "mount_view (rs_app (autodj_cancel q sv)) = mount_view (rs_app sv)"
  "mount_view (rs_app (relay_cancel q sv)) = mount_view (rs_app sv)"
  by (auto simp: autodj_cancel_def relay_cancel_def on_app_def split: option.split)

lemma cancel_ok: "server_ok sv \<Longrightarrow> server_ok (autodj_cancel q sv)" "server_ok sv \<Longrightarrow> server_ok (relay_cancel q sv)"
  by (auto simp: server_ok_def autodj_cancel_def relay_cancel_def on_app_def split: option.split)

lemma autodj_spawn_view:
  "server_view (autodj_spawn ac a sv) = (server_view sv)(ad_mount ac := (server_view sv (ad_mount ac))\<lparr>pv_autodj := Some ac\<rparr>)"
  by (intro ext) (simp add: autodj_spawn_def autodj_insert_def fresh_token_def server_view_def mount_view_def
      app_mount_def find_app_mount_def)

lemma relay_spawn_view:
  "server_view (relay_spawn rc a sv) = (server_view sv)(rc_mount rc := (server_view sv (rc_mount rc))\<lparr>pv_relay := Some rc\<rparr>)"
  by (intro ext) (simp add: relay_spawn_def relay_insert_def fresh_token_def server_view_def mount_view_def
      app_mount_def find_app_mount_def)

lemma spawn_ok: "server_ok (autodj_spawn ac a sv) = server_ok sv" "server_ok (relay_spawn rc a sv) = server_ok sv"
  by (simp_all add: server_ok_def autodj_spawn_def autodj_insert_def relay_spawn_def relay_insert_def fresh_token_def app_inv_def)

lemma ensure_view:
  assumes "app_inv st"
  shows "mount_view (ensure_mount info b st) =
      (mount_view st)(mi_path info := Some (unwrap_or (mount_view st (mi_path info)) (info_key info)))"
    and "app_inv (ensure_mount info b st)" and "find_app_mount (ensure_mount info b st) (mi_path info) \<noteq> None"
  using assms
  by (cases "find_app_mount st (mi_path info)";
      auto simp: ensure_mount_def mount_view_add app_inv_add fun_upd_idem_iff mount_view_def)+

section \<open>Loops that act key by key\<close>

text \<open>
  Every loop of start-up and reload runs over entries with distinct keys, and the step for an entry
  only changes what is held under its key.
\<close>

locale keyed_stage =
  fixes ok :: "'s \<Rightarrow> bool"
    and view :: "'s \<Rightarrow> 'k \<Rightarrow> 'v"
    and f :: "'s \<Rightarrow> 'x \<Rightarrow> 's"
    and key :: "'x \<Rightarrow> 'k"
    and g :: "'x \<Rightarrow> 'v \<Rightarrow> 'v"
  assumes step_ok: "ok s \<Longrightarrow> ok (f s x)"
    and step_view: "ok s \<Longrightarrow> view (f s x) = (view s)(key x := g x (view s (key x)))"
begin

lemma stage_ok: "ok s \<Longrightarrow> ok (foldl f s xs)"
  by (induction xs arbitrary: s) (auto simp: step_ok)

lemma stage_view:
  "ok s \<Longrightarrow> distinct (map key xs) \<Longrightarrow>
     view (foldl f s xs) p = (case find_key key p xs of Some x \<Rightarrow> g x (view s p) | None \<Rightarrow> view s p)"
proof (induction xs arbitrary: s)
  case (Cons x xs)
  have "find_key key p xs = None" if "key x = p"
    using Cons.prems that by (auto simp: find_key_None_iff)
  then show ?case
    using Cons.prems Cons.IH [OF step_ok, of s x] by (auto simp: step_view split: option.split)
qed simp

end

interpretation reload_mounts: keyed_stage app_inv mount_view "reload_mount new" mc_path
  "\<lambda>mc _. Some (info_key (mount_info_of mc))" for new
proof
  fix st mc
  assume i: "app_inv st"
  then show "app_inv (reload_mount new st mc)"
    by (auto simp: reload_mount_def app_inv_swap app_inv_add split: option.split)
  show "mount_view (reload_mount new st mc) =
      (mount_view st)(mc_path mc := Some (info_key (mount_info_of mc)))"
    using i by (cases "find_app_mount st (mc_path mc)")
      (simp_all add: reload_mount_def mount_view_add mount_view_swap mount_info_of_def info_key_def)
qed

interpretation drop_mounts: keyed_stage app_inv mount_view "drop_mount new" mc_path
  "\<lambda>mc v. if mc_path mc \<notin> mc_path ` set (cf_mounts new) then None else v" for new
  by unfold_locales (auto simp: drop_mount_def app_inv_remove mount_view_remove)

interpretation drop_autodjs: keyed_stage server_ok server_view "drop_autodj new" ad_mount
  "\<lambda>ac v. if ad_mount ac \<notin> ad_mount ` set (cf_autodjs new) then v\<lparr>pv_mount := None, pv_autodj := None\<rparr> else v" for new
proof
  fix sv ac
  assume i: "server_ok sv"
  then show "server_ok (drop_autodj new sv ac)"
    using cancel_ok(1) [OF i, of "ad_mount ac"]
    by (auto simp: drop_autodj_def server_ok_def on_app_def app_inv_remove)
  show "server_view (drop_autodj new sv ac) = (server_view sv)(ad_mount ac :=
      if ad_mount ac \<notin> ad_mount ` set (cf_autodjs new) then (server_view sv (ad_mount ac))\<lparr>pv_mount := None, pv_autodj := None\<rparr>
      else server_view sv (ad_mount ac))"
  proof
    fix p
    have "mount_view (rs_app (autodj_cancel (ad_mount ac) sv)) p = pv_mount (server_view (autodj_cancel (ad_mount ac) sv) p)"
      by (simp add: server_view_def)
    then show "server_view (drop_autodj new sv ac) p = ((server_view sv)(ad_mount ac :=
        if ad_mount ac \<notin> ad_mount ` set (cf_autodjs new) then (server_view sv (ad_mount ac))\<lparr>pv_mount := None, pv_autodj := None\<rparr>
        else server_view sv (ad_mount ac))) p"
      by (simp add: drop_autodj_def server_view_on_app mount_view_remove autodj_cancel_view)
  qed
qed

interpretation drop_relays: keyed_stage server_ok server_view "drop_relay new" rc_mount
  "\<lambda>rc v. if rc_mount rc \<notin> rc_mount ` set (cf_relays new) then v\<lparr>pv_mount := None, pv_relay := None\<rparr> else v" for new
proof
  fix sv rc
  assume i: "server_ok sv"
  then show "server_ok (drop_relay new sv rc)"
    using cancel_ok(2) [OF i, of "rc_mount rc"]
    by (auto simp: drop_relay_def server_ok_def on_app_def app_inv_remove)
  show "server_view (drop_relay new sv rc) = (server_view sv)(rc_mount rc :=
      if rc_mount rc \<notin> rc_mount ` set (cf_relays new) then (server_view sv (rc_mount rc))\<lparr>pv_mount := None, pv_relay := None\<rparr>
      else server_view sv (rc_mount rc))"
  proof
    fix p
    have "mount_view (rs_app (relay_cancel (rc_mount rc) sv)) p = pv_mount (server_view (relay_cancel (rc_mount rc) sv) p)"
      by (simp add: server_view_def)
    then show "server_view (drop_relay new sv rc) p = ((server_view sv)(rc_mount rc :=
        if rc_mount rc \<notin> rc_mount ` set (cf_relays new) then (server_view sv (rc_mount rc))\<lparr>pv_mount := None, pv_relay := None\<rparr>
        else server_view sv (rc_mount rc))) p"
      by (simp add: drop_relay_def server_view_on_app mount_view_remove relay_cancel_view)
  qed
qed

lemma autodj_respawn:
  assumes "server_ok sv" and "autodj_needs_respawn (find_key ad_mount (ad_mount new) (cf_autodjs old)) new"
  shows "server_ok (reload_autodj old cfg sv new) \<and>
    server_view (reload_autodj old cfg sv new) = (server_view sv)(ad_mount new :=
      view_autodj (find_key ad_mount (ad_mount new) (cf_autodjs old)) new (server_view sv (ad_mount new)))"
proof -
  define sv1 where "sv1 = autodj_cancel (ad_mount new) sv"
  define sv2 where "sv2 = on_app (ensure_mount (autodj_info_of new) (bus_for cfg (ad_burst_size new))) sv1"
  have p: "mi_path (autodj_info_of new) = ad_mount new" by (simp add: autodj_info_of_def)
  have ok1: "server_ok sv1" unfolding sv1_def by (rule cancel_ok(1) [OF assms(1)])
  note e = ensure_view [OF ok1 [unfolded server_ok_def], of "autodj_info_of new" "bus_for cfg (ad_burst_size new)", unfolded p]
  have ok2: "server_ok sv2" using e(2) by (simp add: server_ok_def sv2_def on_app_def)
  have m1: "mount_view (rs_app sv1) q = pv_mount (server_view sv q)" for q
    by (simp add: sv1_def server_view_def)
  have v2: "server_view sv2 = (server_view sv)(ad_mount new := (server_view sv (ad_mount new))
      \<lparr>pv_mount := Some (unwrap_or (pv_mount (server_view sv (ad_mount new))) (info_key (autodj_info_of new))), pv_autodj := None\<rparr>)"
    by (intro ext) (simp add: sv2_def server_view_on_app e(1) m1, simp add: sv1_def autodj_cancel_view m1 [symmetric] server_view_def)
  obtain a where a: "find_app_mount (rs_app sv2) (ad_mount new) = Some a"
    using e(3) by (auto simp: sv2_def on_app_def)
  have r: "reload_autodj old cfg sv new = (if ad_enabled new then autodj_spawn new a sv2 else sv2)"
    using assms(2) a by (simp add: reload_autodj_def Let_def sv1_def [symmetric] sv2_def [symmetric])
  show ?thesis
    unfolding r using ok2 assms(2) by (auto simp: spawn_ok autodj_spawn_view v2 view_autodj_def fun_eq_iff)
qed

lemma autodj_swap:
  assumes "server_ok sv" and "\<not> autodj_needs_respawn (find_key ad_mount (ad_mount new) (cf_autodjs old)) new"
  shows "server_ok (reload_autodj old cfg sv new) \<and>
    server_view (reload_autodj old cfg sv new) = (server_view sv)(ad_mount new :=
      view_autodj (find_key ad_mount (ad_mount new) (cf_autodjs old)) new (server_view sv (ad_mount new)))"
proof (cases "find_app_mount (rs_app sv) (ad_mount new)")
  case None
  then have "pv_mount (server_view sv (ad_mount new)) = None" by (simp add: server_view_def mount_view_def)
  then show ?thesis
    using assms None by (simp add: reload_autodj_def view_autodj_def fun_eq_iff)
next
  case (Some a)
  let ?pw = "mi_source_password (am_info (app_mount (rs_app sv) a))"
  have v: "mount_view (swap_info ?pw (ad_max_listeners new) (autodj_meta new) a (rs_app sv)) =
      (mount_view (rs_app sv))(ad_mount new \<mapsto> (?pw, ad_max_listeners new, autodj_meta new))"
    by (rule mount_view_swap) (use assms(1) Some in \<open>simp_all add: server_ok_def\<close>)
  have pv: "pv_mount (server_view sv (ad_mount new)) = Some (info_key (am_info (app_mount (rs_app sv) a)))"
    using Some by (simp add: server_view_def mount_view_def)
  have r: "reload_autodj old cfg sv new =
      on_app (\<lambda>st. swap_info (mi_source_password (am_info (app_mount st a))) (ad_max_listeners new) (autodj_meta new) a st) sv"
    using assms(2) Some by (simp add: reload_autodj_def)
  have "server_ok (reload_autodj old cfg sv new)"
    unfolding r using assms(1) by (simp add: server_ok_def on_app_def app_inv_swap)
  moreover have "server_view (reload_autodj old cfg sv new) q = ((server_view sv)(ad_mount new :=
      view_autodj (find_key ad_mount (ad_mount new) (cf_autodjs old)) new (server_view sv (ad_mount new)))) q" for q
    unfolding r using assms(2) pv
    by (simp add: server_view_on_app v view_autodj_def info_key_def) (simp add: server_view_def)
  ultimately show ?thesis by blast
qed

interpretation reload_autodjs: keyed_stage server_ok server_view "reload_autodj old cfg" ad_mount
  "\<lambda>x v. view_autodj (find_key ad_mount (ad_mount x) (cf_autodjs old)) x v" for old cfg
proof
  fix sv x
  assume "server_ok sv"
  then show "server_ok (reload_autodj old cfg sv x)"
    and "server_view (reload_autodj old cfg sv x) = (server_view sv)(ad_mount x :=
      view_autodj (find_key ad_mount (ad_mount x) (cf_autodjs old)) x (server_view sv (ad_mount x)))"
    using autodj_respawn autodj_swap by blast+
qed

lemma relay_respawn:
  assumes "server_ok sv" and "relay_needs_respawn (find_key rc_mount (rc_mount new) (cf_relays old)) new"
  shows "server_ok (reload_relay old cfg sv new) \<and>
    server_view (reload_relay old cfg sv new) = (server_view sv)(rc_mount new :=
      view_relay (find_key rc_mount (rc_mount new) (cf_relays old)) new (server_view sv (rc_mount new)))"
proof -
  define sv1 where "sv1 = relay_cancel (rc_mount new) sv"
  define sv2 where "sv2 = on_app (ensure_mount (relay_info_of new) (bus_for cfg (rc_burst_size new))) sv1"
  have p: "mi_path (relay_info_of new) = rc_mount new" by (simp add: relay_info_of_def)
  have ok1: "server_ok sv1" unfolding sv1_def by (rule cancel_ok(2) [OF assms(1)])
  note e = ensure_view [OF ok1 [unfolded server_ok_def], of "relay_info_of new" "bus_for cfg (rc_burst_size new)", unfolded p]
  have ok2: "server_ok sv2" using e(2) by (simp add: server_ok_def sv2_def on_app_def)
  have m1: "mount_view (rs_app sv1) q = pv_mount (server_view sv q)" for q
    by (simp add: sv1_def server_view_def)
  have v2: "server_view sv2 = (server_view sv)(rc_mount new := (server_view sv (rc_mount new))
      \<lparr>pv_mount := Some (unwrap_or (pv_mount (server_view sv (rc_mount new))) (info_key (relay_info_of new))), pv_relay := None\<rparr>)"
    by (intro ext) (simp add: sv2_def server_view_on_app e(1) m1, simp add: sv1_def relay_cancel_view m1 [symmetric] server_view_def)
  obtain a where a: "find_app_mount (rs_app sv2) (rc_mount new) = Some a"
    using e(3) by (auto simp: sv2_def on_app_def)
  have r: "reload_relay old cfg sv new = (if rc_enabled new then relay_spawn new a sv2 else sv2)"
    using assms(2) a by (simp add: reload_relay_def Let_def sv1_def [symmetric] sv2_def [symmetric])
  show ?thesis
    unfolding r using ok2 assms(2) by (auto simp: spawn_ok relay_spawn_view v2 view_relay_def fun_eq_iff)
qed

lemma relay_swap:
  assumes "server_ok sv" and "\<not> relay_needs_respawn (find_key rc_mount (rc_mount new) (cf_relays old)) new"
  shows "server_ok (reload_relay old cfg sv new) \<and>
    server_view (reload_relay old cfg sv new) = (server_view sv)(rc_mount new :=
      view_relay (find_key rc_mount (rc_mount new) (cf_relays old)) new (server_view sv (rc_mount new)))"
proof (cases "find_app_mount (rs_app sv) (rc_mount new)")
  case None
  then have "pv_mount (server_view sv (rc_mount new)) = None" by (simp add: server_view_def mount_view_def)
  then show ?thesis
    using assms None by (simp add: reload_relay_def view_relay_def fun_eq_iff)
next
  case (Some a)
  let ?pw = "mi_source_password (am_info (app_mount (rs_app sv) a))"
  have v: "mount_view (swap_info ?pw (rc_max_listeners new) (relay_meta new) a (rs_app sv)) =
      (mount_view (rs_app sv))(rc_mount new \<mapsto> (?pw, rc_max_listeners new, relay_meta new))"
    by (rule mount_view_swap) (use assms(1) Some in \<open>simp_all add: server_ok_def\<close>)
  have pv: "pv_mount (server_view sv (rc_mount new)) = Some (info_key (am_info (app_mount (rs_app sv) a)))"
    using Some by (simp add: server_view_def mount_view_def)
  have r: "reload_relay old cfg sv new =
      on_app (\<lambda>st. swap_info (mi_source_password (am_info (app_mount st a))) (rc_max_listeners new) (relay_meta new) a st) sv"
    using assms(2) Some by (simp add: reload_relay_def)
  have "server_ok (reload_relay old cfg sv new)"
    unfolding r using assms(1) by (simp add: server_ok_def on_app_def app_inv_swap)
  moreover have "server_view (reload_relay old cfg sv new) q = ((server_view sv)(rc_mount new :=
      view_relay (find_key rc_mount (rc_mount new) (cf_relays old)) new (server_view sv (rc_mount new)))) q" for q
    unfolding r using assms(2) pv
    by (simp add: server_view_on_app v view_relay_def info_key_def) (simp add: server_view_def)
  ultimately show ?thesis by blast
qed

interpretation reload_relays: keyed_stage server_ok server_view "reload_relay old cfg" rc_mount
  "\<lambda>x v. view_relay (find_key rc_mount (rc_mount x) (cf_relays old)) x v" for old cfg
proof
  fix sv x
  assume "server_ok sv"
  then show "server_ok (reload_relay old cfg sv x)"
    and "server_view (reload_relay old cfg sv x) = (server_view sv)(rc_mount x :=
      view_relay (find_key rc_mount (rc_mount x) (cf_relays old)) x (server_view sv (rc_mount x)))"
    using relay_respawn relay_swap by blast+
qed

section \<open>What a configuration asks for\<close>

interpretation boot_mounts: keyed_stage server_ok server_view "boot_mount cfg" mc_path
  "\<lambda>x v. v\<lparr>pv_mount := Some (info_key (mount_info_of x))\<rparr>" for cfg
proof
  fix sv x
  assume ok: "server_ok sv"
  then show "server_ok (boot_mount cfg sv x)"
    by (simp add: boot_mount_def server_ok_def on_app_def app_inv_add)
  show "server_view (boot_mount cfg sv x) =
      (server_view sv)(mc_path x := (server_view sv (mc_path x))\<lparr>pv_mount := Some (info_key (mount_info_of x))\<rparr>)"
    using ok by (intro ext)
      (simp add: boot_mount_def server_view_on_app mount_view_add server_ok_def, simp add: mount_info_of_def server_view_def)
qed

interpretation boot_autodjs: keyed_stage server_ok server_view "boot_autodj cfg" ad_mount
  "\<lambda>x v. v\<lparr>pv_mount := Some (info_key (autodj_info_of x)), pv_autodj := (if ad_enabled x then Some x else pv_autodj v)\<rparr>" for cfg
proof
  fix sv :: server and x :: autodj_config
  assume ok: "server_ok sv"
  let ?b = "bus_for cfg (ad_burst_size x)"
  obtain a st where a: "add_mount (autodj_info_of x) ?b (rs_app sv) = (a, st)" by fastforce
  have st: "st = snd (add_mount (autodj_info_of x) ?b (rs_app sv))" using a by simp
  have p: "mi_path (autodj_info_of x) = ad_mount x" by (simp add: autodj_info_of_def)
  have v: "server_view (sv\<lparr>rs_app := st\<rparr>) =
      (server_view sv)(ad_mount x := (server_view sv (ad_mount x))\<lparr>pv_mount := Some (info_key (autodj_info_of x))\<rparr>)"
    using ok by (intro ext) (simp add: server_view_def st mount_view_add server_ok_def p)
  have i: "server_ok (sv\<lparr>rs_app := st\<rparr>)" using ok by (simp add: server_ok_def st app_inv_add)
  show "server_ok (boot_autodj cfg sv x)"
    using i by (simp add: boot_autodj_def a spawn_ok)
  show "server_view (boot_autodj cfg sv x) = (server_view sv)(ad_mount x := (server_view sv (ad_mount x))
      \<lparr>pv_mount := Some (info_key (autodj_info_of x)), pv_autodj := (if ad_enabled x then Some x else pv_autodj (server_view sv (ad_mount x)))\<rparr>)"
    by (auto simp: boot_autodj_def a autodj_spawn_view v fun_eq_iff)
qed

interpretation boot_relays: keyed_stage server_ok server_view "boot_relay cfg" rc_mount
  "\<lambda>x v. v\<lparr>pv_mount := Some (info_key (relay_info_of x)), pv_relay := (if rc_enabled x then Some x else pv_relay v)\<rparr>" for cfg
proof
  fix sv :: server and x :: relay_config
  assume ok: "server_ok sv"
  let ?b = "bus_for cfg (rc_burst_size x)"
  obtain a st where a: "add_mount (relay_info_of x) ?b (rs_app sv) = (a, st)" by fastforce
  have st: "st = snd (add_mount (relay_info_of x) ?b (rs_app sv))" using a by simp
  have p: "mi_path (relay_info_of x) = rc_mount x" by (simp add: relay_info_of_def)
  have v: "server_view (sv\<lparr>rs_app := st\<rparr>) =
      (server_view sv)(rc_mount x := (server_view sv (rc_mount x))\<lparr>pv_mount := Some (info_key (relay_info_of x))\<rparr>)"
    using ok by (intro ext) (simp add: server_view_def st mount_view_add server_ok_def p)
  have i: "server_ok (sv\<lparr>rs_app := st\<rparr>)" using ok by (simp add: server_ok_def st app_inv_add)
  show "server_ok (boot_relay cfg sv x)"
    using i by (simp add: boot_relay_def a spawn_ok)
  show "server_view (boot_relay cfg sv x) = (server_view sv)(rc_mount x := (server_view sv (rc_mount x))
      \<lparr>pv_mount := Some (info_key (relay_info_of x)), pv_relay := (if rc_enabled x then Some x else pv_relay (server_view sv (rc_mount x)))\<rparr>)"
    by (auto simp: boot_relay_def a relay_spawn_view v fun_eq_iff)
qed

definition nothing_there :: path_view where
  "nothing_there = \<lparr>pv_mount = None, pv_autodj = None, pv_relay = None\<rparr>"

definition wanted :: "config \<Rightarrow> string \<Rightarrow> path_view" where
  "wanted cfg p =
     (case find_key mc_path p (cf_mounts cfg) of
        Some mc \<Rightarrow> nothing_there\<lparr>pv_mount := Some (info_key (mount_info_of mc))\<rparr>
      | None \<Rightarrow>
          (case find_key ad_mount p (cf_autodjs cfg) of
             Some ac \<Rightarrow> nothing_there\<lparr>pv_mount := Some (info_key (autodj_info_of ac)),
                          pv_autodj := (if ad_enabled ac then Some ac else None)\<rparr>
           | None \<Rightarrow>
               (case find_key rc_mount p (cf_relays cfg) of
                  Some rc \<Rightarrow> nothing_there\<lparr>pv_mount := Some (info_key (relay_info_of rc)),
                               pv_relay := (if rc_enabled rc then Some rc else None)\<rparr>
                | None \<Rightarrow> nothing_there)))"

lemma owned_distinctD:
  assumes "config_paths_ok cfg"
  shows "distinct (map mc_path (cf_mounts cfg))" "distinct (map ad_mount (cf_autodjs cfg))"
    "distinct (map rc_mount (cf_relays cfg))"
  using assms by (auto simp: config_paths_ok_def owned_paths_def)

text \<open>A path has at most one owner.\<close>

lemma owned_once:
  assumes "config_paths_ok cfg"
  shows "find_key mc_path p (cf_mounts cfg) = Some mc \<Longrightarrow> find_key ad_mount p (cf_autodjs cfg) = None"
    and "find_key mc_path p (cf_mounts cfg) = Some mc \<Longrightarrow> find_key rc_mount p (cf_relays cfg) = None"
    and "find_key ad_mount p (cf_autodjs cfg) = Some ac \<Longrightarrow> find_key rc_mount p (cf_relays cfg) = None"
  using assms by (auto simp: config_paths_ok_def owned_paths_def find_key_None_iff dest!: find_key_SomeD)

lemma boot_ok: "server_ok (boot_server cfg)"
proof -
  have "server_ok \<lparr>rs_app = empty_app cfg, rs_autodjs = Map.empty, rs_relays = Map.empty\<rparr>"
    by (simp add: server_ok_def app_inv_def empty_app_def registry_new_def registry_consistent_def)
  then show ?thesis
    unfolding boot_server_def by (intro boot_relays.stage_ok boot_autodjs.stage_ok boot_mounts.stage_ok)
qed

lemma boot_wanted:
  assumes "config_paths_ok cfg"
  shows "server_view (boot_server cfg) p = wanted cfg p"
proof -
  let ?s0 = "\<lparr>rs_app = empty_app cfg, rs_autodjs = Map.empty, rs_relays = Map.empty\<rparr>"
  have ok0: "server_ok ?s0"
    by (simp add: server_ok_def app_inv_def empty_app_def registry_new_def registry_consistent_def)
  have v0: "server_view ?s0 p = nothing_there"
    by (simp add: server_view_def mount_view_def nothing_there_def empty_app_def find_app_mount_def registry_get_def registry_new_def)
  note d = owned_distinctD [OF assms]
  note ok1 = boot_mounts.stage_ok [OF ok0, of cfg "cf_mounts cfg"]
  note ok2 = boot_autodjs.stage_ok [OF ok1, of cfg "cf_autodjs cfg"]
  show ?thesis
    unfolding boot_server_def boot_relays.stage_view [OF ok2 d(3)] boot_autodjs.stage_view [OF ok1 d(2)]
      boot_mounts.stage_view [OF ok0 d(1)] v0
    using owned_once [OF assms, of p]
    by (auto simp: wanted_def nothing_there_def split: option.split)
qed

section \<open>The closed form of a reload\<close>

definition view_apply :: "config \<Rightarrow> config \<Rightarrow> string \<Rightarrow> path_view \<Rightarrow> path_view" where
  "view_apply old new p v0 =
     (let v1 = (case find_key mc_path p (cf_mounts new) of
                  Some mc \<Rightarrow> v0\<lparr>pv_mount := Some (info_key (mount_info_of mc))\<rparr>
                | None \<Rightarrow> if find_key mc_path p (cf_mounts old) = None then v0 else v0\<lparr>pv_mount := None\<rparr>);
          v2 = (if find_key ad_mount p (cf_autodjs old) \<noteq> None \<and> find_key ad_mount p (cf_autodjs new) = None
                then v1\<lparr>pv_mount := None, pv_autodj := None\<rparr> else v1);
          v3 = (case find_key ad_mount p (cf_autodjs new) of
                  Some ac \<Rightarrow> view_autodj (find_key ad_mount p (cf_autodjs old)) ac v2 | None \<Rightarrow> v2);
          v4 = (if find_key rc_mount p (cf_relays old) \<noteq> None \<and> find_key rc_mount p (cf_relays new) = None
                then v3\<lparr>pv_mount := None, pv_relay := None\<rparr> else v3)
      in case find_key rc_mount p (cf_relays new) of
           Some rc \<Rightarrow> view_relay (find_key rc_mount p (cf_relays old)) rc v4 | None \<Rightarrow> v4)"

lemma find_key_image_iff: "k \<in> f ` set xs \<longleftrightarrow> find_key f k xs \<noteq> None"
  by (simp add: find_key_None_iff)

lemma apply_config_facts:
  assumes "server_ok sv" and "config_paths_ok (ap_config (rs_app sv))" and "config_paths_ok new"
  shows "server_ok (snd (apply_config new sv)) \<and> ap_config (rs_app (snd (apply_config new sv))) = new \<and>
    fst (apply_config new sv) = Inr (reload_warnings (ap_config (rs_app sv)) new) \<and>
    server_view (snd (apply_config new sv)) p = view_apply (ap_config (rs_app sv)) new p (server_view sv p)"
proof -
  define old where "old = ap_config (rs_app sv)"
  define auth where "auth = snd (auth_reload (ap_auth (rs_app sv)) new)"
  have au: "auth_reload (ap_auth (rs_app sv)) new = (Inr (), auth)"
    by (simp add: auth_def auth_reload_def)
  define sv1 where "sv1 = on_app (\<lambda>st. st\<lparr>ap_auth := auth\<rparr>) sv"
  define st2 where "st2 = foldl (reload_mount new) (rs_app sv1) (cf_mounts new)"
  define sv2 where "sv2 = on_app (\<lambda>st. foldl (drop_mount new) (foldl (reload_mount new) st (cf_mounts new)) (cf_mounts old)) sv1"
  define sv3 where "sv3 = foldl (drop_autodj new) sv2 (cf_autodjs old)"
  define sv4 where "sv4 = foldl (reload_autodj old new) sv3 (cf_autodjs new)"
  define sv5 where "sv5 = foldl (drop_relay new) sv4 (cf_relays old)"
  define sv6 where "sv6 = foldl (reload_relay old new) sv5 (cf_relays new)"
  have ac: "apply_config new sv = (Inr (reload_warnings old new), on_app (\<lambda>st. st\<lparr>ap_config := new\<rparr>) sv6)"
    by (simp add: apply_config_def Let_def au old_def [symmetric] sv1_def [symmetric] sv2_def [symmetric]
        sv3_def [symmetric] sv4_def [symmetric] sv5_def [symmetric] sv6_def [symmetric])
  note do = owned_distinctD [OF assms(2), folded old_def] and dn = owned_distinctD [OF assms(3)]
  have ok1: "app_inv (rs_app sv1)" using assms(1) by (simp add: sv1_def on_app_def server_ok_def)
  have okst2: "app_inv st2" unfolding st2_def by (rule reload_mounts.stage_ok [OF ok1])
  have ok2: "server_ok sv2"
    using drop_mounts.stage_ok [OF okst2, of new "cf_mounts old"] by (simp add: sv2_def on_app_def server_ok_def st2_def)
  have ok3: "server_ok sv3" unfolding sv3_def by (rule drop_autodjs.stage_ok [OF ok2])
  have ok4: "server_ok sv4" unfolding sv4_def by (rule reload_autodjs.stage_ok [OF ok3])
  have ok5: "server_ok sv5" unfolding sv5_def by (rule drop_relays.stage_ok [OF ok4])
  have ok6: "server_ok sv6" unfolding sv6_def by (rule reload_relays.stage_ok [OF ok5])
  have v1: "mount_view (rs_app sv1) p = pv_mount (server_view sv p)"
    by (simp add: sv1_def on_app_def server_view_def)
  have v2: "server_view sv2 p =
      (case find_key mc_path p (cf_mounts new) of
         Some mc \<Rightarrow> (server_view sv p)\<lparr>pv_mount := Some (info_key (mount_info_of mc))\<rparr>
       | None \<Rightarrow> if find_key mc_path p (cf_mounts old) = None then server_view sv p else (server_view sv p)\<lparr>pv_mount := None\<rparr>)"
    unfolding sv2_def server_view_on_app drop_mounts.stage_view [OF okst2 [unfolded st2_def] do(1)]
      reload_mounts.stage_view [OF ok1 dn(1)] v1
    by (auto simp: find_key_None_iff sv1_def server_view_def on_app_def dest!: find_key_SomeD split: option.split)
  have v3: "server_view sv3 p =
      (if find_key ad_mount p (cf_autodjs old) \<noteq> None \<and> find_key ad_mount p (cf_autodjs new) = None
       then (server_view sv2 p)\<lparr>pv_mount := None, pv_autodj := None\<rparr> else server_view sv2 p)"
    unfolding sv3_def drop_autodjs.stage_view [OF ok2 do(2)] find_key_image_iff
    by (auto dest: find_key_SomeD split: option.split)
  have v4: "server_view sv4 p =
      (case find_key ad_mount p (cf_autodjs new) of
         Some ac \<Rightarrow> view_autodj (find_key ad_mount p (cf_autodjs old)) ac (server_view sv3 p) | None \<Rightarrow> server_view sv3 p)"
    unfolding sv4_def reload_autodjs.stage_view [OF ok3 dn(2)]
    by (auto dest: find_key_SomeD split: option.split)
  have v5: "server_view sv5 p =
      (if find_key rc_mount p (cf_relays old) \<noteq> None \<and> find_key rc_mount p (cf_relays new) = None
       then (server_view sv4 p)\<lparr>pv_mount := None, pv_relay := None\<rparr> else server_view sv4 p)"
    unfolding sv5_def drop_relays.stage_view [OF ok4 do(3)] find_key_image_iff
    by (auto dest: find_key_SomeD split: option.split)
  have v6: "server_view sv6 p =
      (case find_key rc_mount p (cf_relays new) of
         Some rc \<Rightarrow> view_relay (find_key rc_mount p (cf_relays old)) rc (server_view sv5 p) | None \<Rightarrow> server_view sv5 p)"
    unfolding sv6_def reload_relays.stage_view [OF ok5 dn(3)]
    by (auto dest: find_key_SomeD split: option.split)
  have v: "server_view sv6 p = view_apply old new p (server_view sv p)"
    unfolding view_apply_def Let_def v6 v5 v4 v3 v2 by (rule refl)
  have w: "server_view (on_app (\<lambda>st. st\<lparr>ap_config := new\<rparr>) sv6) p = server_view sv6 p"
    by (simp add: server_view_def on_app_def)
  show ?thesis
    unfolding ac old_def [symmetric] snd_conv w v using ok6 by (simp add: on_app_def server_ok_def)
qed

section \<open>Following a configuration\<close>

text \<open>A running task need not be the configured one to the letter: it is not respawned for a new name.\<close>

definition same_autodj :: "autodj_config option \<Rightarrow> autodj_config option \<Rightarrow> bool" where
  "same_autodj running asked \<longleftrightarrow>
     (case asked of None \<Rightarrow> running = None
      | Some a \<Rightarrow> (\<exists>r. running = Some r \<and> \<not> autodj_needs_respawn (Some r) a))"

definition same_relay :: "relay_config option \<Rightarrow> relay_config option \<Rightarrow> bool" where
  "same_relay running asked \<longleftrightarrow>
     (case asked of None \<Rightarrow> running = None
      | Some a \<Rightarrow> (\<exists>r. running = Some r \<and> \<not> relay_needs_respawn (Some r) a))"

definition follows :: "path_view \<Rightarrow> path_view \<Rightarrow> bool" where
  "follows v w \<longleftrightarrow> pv_mount v = pv_mount w \<and> same_autodj (pv_autodj v) (pv_autodj w) \<and> same_relay (pv_relay v) (pv_relay w)"

text \<open>What a reload copes with: see the claims below for what happens otherwise.\<close>

definition sections_stable :: "config \<Rightarrow> config \<Rightarrow> bool" where
  "sections_stable old new \<longleftrightarrow>
     (\<forall>mc\<in>set (cf_mounts new). mc_path mc \<notin> ad_mount ` set (cf_autodjs old) \<union> rc_mount ` set (cf_relays old)) \<and>
     (\<forall>ac\<in>set (cf_autodjs new). ad_mount ac \<notin> mc_path ` set (cf_mounts old) \<union> rc_mount ` set (cf_relays old)) \<and>
     (\<forall>rc\<in>set (cf_relays new). rc_mount rc \<notin> mc_path ` set (cf_mounts old) \<union> ad_mount ` set (cf_autodjs old))"

definition additions_enabled :: "config \<Rightarrow> config \<Rightarrow> bool" where
  "additions_enabled old new \<longleftrightarrow>
     (\<forall>ac\<in>set (cf_autodjs new). ad_mount ac \<notin> ad_mount ` set (cf_autodjs old) \<longrightarrow> ad_enabled ac) \<and>
     (\<forall>rc\<in>set (cf_relays new). rc_mount rc \<notin> rc_mount ` set (cf_relays old) \<longrightarrow> rc_enabled rc)"

definition respawn_keeps_identity :: "config \<Rightarrow> config \<Rightarrow> bool" where
  "respawn_keeps_identity old new \<longleftrightarrow>
     (\<forall>ac\<in>set (cf_autodjs new). \<forall>o'\<in>set (cf_autodjs old). ad_mount o' = ad_mount ac \<and> autodj_needs_respawn (Some o') ac \<longrightarrow>
        ad_max_listeners o' = ad_max_listeners ac \<and> autodj_meta o' = autodj_meta ac) \<and>
     (\<forall>rc\<in>set (cf_relays new). \<forall>o'\<in>set (cf_relays old). rc_mount o' = rc_mount rc \<and> relay_needs_respawn (Some o') rc \<longrightarrow>
        rc_max_listeners o' = rc_max_listeners rc \<and> relay_meta o' = relay_meta rc)"

lemma same_autodj_simps [simp]: "same_autodj r None \<longleftrightarrow> r = None" "same_autodj (Some a) (Some a)" "same_autodj None (Some a) \<longleftrightarrow> False"
  by (simp_all add: same_autodj_def autodj_needs_respawn_def)

lemma same_relay_simps [simp]: "same_relay r None \<longleftrightarrow> r = None" "same_relay (Some a) (Some a)" "same_relay None (Some a) \<longleftrightarrow> False"
  by (simp_all add: same_relay_def relay_needs_respawn_def)

lemma same_autodj_trans:
  "same_autodj r (Some o') \<Longrightarrow> \<not> autodj_needs_respawn (Some o') a \<Longrightarrow> same_autodj r (Some a)"
  by (auto simp: same_autodj_def autodj_needs_respawn_def)

lemma same_relay_trans:
  "same_relay r (Some o') \<Longrightarrow> \<not> relay_needs_respawn (Some o') a \<Longrightarrow> same_relay r (Some a)"
  by (auto simp: same_relay_def relay_needs_respawn_def)

lemma nothing_there_sel [simp]:
  "pv_mount nothing_there = None" "pv_autodj nothing_there = None" "pv_relay nothing_there = None"
  by (simp_all add: nothing_there_def)

lemma view_autodj_follows:
  assumes "autodj_needs_respawn (Some o') ac \<longrightarrow> ad_max_listeners o' = ad_max_listeners ac \<and> autodj_meta o' = autodj_meta ac"
    and "pv_mount v = Some (info_key (autodj_info_of o'))" and "pv_relay v = None"
    and "same_autodj (pv_autodj v) (if ad_enabled o' then Some o' else None)"
  shows "follows (view_autodj (Some o') ac v)
    (nothing_there\<lparr>pv_mount := Some (info_key (autodj_info_of ac)), pv_autodj := (if ad_enabled ac then Some ac else None)\<rparr>)"
proof (cases "autodj_needs_respawn (Some o') ac")
  case True
  with assms show ?thesis by (simp add: follows_def view_autodj_def info_key_def autodj_info_of_def)
next
  case False
  then have "ad_enabled o' = ad_enabled ac" by (simp add: autodj_needs_respawn_def)
  with False assms show ?thesis
    by (auto simp: follows_def view_autodj_def info_key_def autodj_info_of_def intro: same_autodj_trans)
qed

lemma view_relay_follows:
  assumes "relay_needs_respawn (Some o') rc \<longrightarrow> rc_max_listeners o' = rc_max_listeners rc \<and> relay_meta o' = relay_meta rc"
    and "pv_mount v = Some (info_key (relay_info_of o'))" and "pv_autodj v = None"
    and "same_relay (pv_relay v) (if rc_enabled o' then Some o' else None)"
  shows "follows (view_relay (Some o') rc v)
    (nothing_there\<lparr>pv_mount := Some (info_key (relay_info_of rc)), pv_relay := (if rc_enabled rc then Some rc else None)\<rparr>)"
proof (cases "relay_needs_respawn (Some o') rc")
  case True
  with assms show ?thesis by (simp add: follows_def view_relay_def info_key_def relay_info_of_def)
next
  case False
  then have "rc_enabled o' = rc_enabled rc" by (simp add: relay_needs_respawn_def)
  with False assms show ?thesis
    by (auto simp: follows_def view_relay_def info_key_def relay_info_of_def intro: same_relay_trans)
qed

lemma follows_nothing: "follows v nothing_there \<longleftrightarrow> v = nothing_there"
  by (cases v) (auto simp: follows_def nothing_there_def)

lemma view_apply_follows:
  assumes "config_paths_ok old" and "config_paths_ok new"
    and st: "sections_stable old new" and ad: "additions_enabled old new" and ri: "respawn_keeps_identity old new"
    and v0: "follows v0 (wanted old p)"
  shows "follows (view_apply old new p v0) (wanted new p)"
proof -
  note oo = owned_once [OF assms(1), of p] and on = owned_once [OF assms(2), of p]
  have none: "find_key f p xs = None" if "p \<notin> f ` set xs" for f :: "'x \<Rightarrow> string" and xs
    using that by (simp add: find_key_None_iff)
  consider (m) mc where "find_key mc_path p (cf_mounts new) = Some mc"
    | (a) ac where "find_key ad_mount p (cf_autodjs new) = Some ac"
    | (r) rc where "find_key rc_mount p (cf_relays new) = Some rc"
    | (n) "find_key mc_path p (cf_mounts new) = None" "find_key ad_mount p (cf_autodjs new) = None"
        "find_key rc_mount p (cf_relays new) = None"
    by fastforce
  then show ?thesis
  proof cases
    case m
    then have "find_key ad_mount p (cf_autodjs old) = None" "find_key rc_mount p (cf_relays old) = None"
      using st by (auto simp: sections_stable_def find_key_None_iff dest!: find_key_SomeD)
    with m on v0 show ?thesis
      by (auto simp: view_apply_def wanted_def follows_def split: option.splits)
  next
    case a
    have nm: "find_key mc_path p (cf_mounts new) = None" using on(1) a by (cases "find_key mc_path p (cf_mounts new)") auto
    have n: "find_key mc_path p (cf_mounts old) = None" "find_key rc_mount p (cf_relays old) = None"
      using st a by (auto simp: sections_stable_def find_key_None_iff dest!: find_key_SomeD)
    show ?thesis
    proof (cases "find_key ad_mount p (cf_autodjs old)")
      case None
      then have "ad_enabled ac" using ad a by (auto simp: additions_enabled_def find_key_None_iff dest!: find_key_SomeD)
      moreover have "v0 = nothing_there" using v0 None n by (simp add: wanted_def follows_nothing)
      ultimately show ?thesis
        using a nm n None on(3) [OF a]
        by (simp add: view_apply_def wanted_def follows_def view_autodj_def autodj_needs_respawn_def)
    next
      case (Some o')
      have id: "autodj_needs_respawn (Some o') ac \<longrightarrow> ad_max_listeners o' = ad_max_listeners ac \<and> autodj_meta o' = autodj_meta ac"
        using ri a Some by (auto simp: respawn_keeps_identity_def dest!: find_key_SomeD)
      have "follows (view_autodj (Some o') ac v0) (nothing_there\<lparr>pv_mount := Some (info_key (autodj_info_of ac)),
          pv_autodj := (if ad_enabled ac then Some ac else None)\<rparr>)"
        by (rule view_autodj_follows [OF id]) (use v0 Some n in \<open>simp_all add: follows_def wanted_def\<close>)
      then show ?thesis
        using a nm n Some on(3) [OF a] by (simp add: view_apply_def wanted_def)
    qed
  next
    case r
    have nm: "find_key mc_path p (cf_mounts new) = None" "find_key ad_mount p (cf_autodjs new) = None"
      using on r by (cases "find_key mc_path p (cf_mounts new)"; cases "find_key ad_mount p (cf_autodjs new)"; auto)+
    have n: "find_key mc_path p (cf_mounts old) = None" "find_key ad_mount p (cf_autodjs old) = None"
      using st r by (auto simp: sections_stable_def find_key_None_iff dest!: find_key_SomeD)
    show ?thesis
    proof (cases "find_key rc_mount p (cf_relays old)")
      case None
      then have "rc_enabled rc" using ad r by (auto simp: additions_enabled_def find_key_None_iff dest!: find_key_SomeD)
      moreover have "v0 = nothing_there" using v0 None n by (simp add: wanted_def follows_nothing)
      ultimately show ?thesis
        using r nm n None by (simp add: view_apply_def wanted_def follows_def view_relay_def relay_needs_respawn_def)
    next
      case (Some o')
      have id: "relay_needs_respawn (Some o') rc \<longrightarrow> rc_max_listeners o' = rc_max_listeners rc \<and> relay_meta o' = relay_meta rc"
        using ri r Some by (auto simp: respawn_keeps_identity_def dest!: find_key_SomeD)
      have "follows (view_relay (Some o') rc v0) (nothing_there\<lparr>pv_mount := Some (info_key (relay_info_of rc)),
          pv_relay := (if rc_enabled rc then Some rc else None)\<rparr>)"
        by (rule view_relay_follows [OF id]) (use v0 Some n in \<open>simp_all add: follows_def wanted_def\<close>)
      then show ?thesis
        using r nm n Some by (simp add: view_apply_def wanted_def)
    qed
  next
    case n
    then show ?thesis
      using v0 oo by (auto simp: view_apply_def wanted_def follows_def split: option.splits)
  qed
qed

lemma apply_follows:
  assumes "server_ok sv" and "config_paths_ok (ap_config (rs_app sv))" and "config_paths_ok new"
    and "sections_stable (ap_config (rs_app sv)) new" and "additions_enabled (ap_config (rs_app sv)) new"
    and "respawn_keeps_identity (ap_config (rs_app sv)) new"
    and "follows (server_view sv p) (wanted (ap_config (rs_app sv)) p)"
  shows "follows (server_view (snd (apply_config new sv)) p) (wanted new p)"
  using apply_config_facts [OF assms(1-3), of p] view_apply_follows [OF assms(2-7)] by simp

lemma view_apply_unowned:
  assumes "p \<notin> set (owned_paths old) \<union> set (owned_paths new)"
  shows "view_apply old new p v = v"
proof -
  have "find_key mc_path p (cf_mounts c) = None \<and> find_key ad_mount p (cf_autodjs c) = None \<and>
      find_key rc_mount p (cf_relays c) = None" if "p \<notin> set (owned_paths c)" for c
    using that by (auto simp: find_key_None_iff owned_paths_def)
  from this [of old] this [of new] assms show ?thesis by (simp add: view_apply_def)
qed


section \<open>Reload against restart\<close>

fun reload_chain :: "config \<Rightarrow> config list \<Rightarrow> bool" where
  "reload_chain c [] = config_paths_ok c"
| "reload_chain c (d # ds) \<longleftrightarrow>
     config_paths_ok c \<and> sections_stable c d \<and> additions_enabled c d \<and> respawn_keeps_identity c d \<and> reload_chain d ds"

lemma reload_chain_ok: "reload_chain c ds \<Longrightarrow> config_paths_ok c"
  by (cases ds) auto

lemma boot_config: "ap_config (rs_app (boot_server cfg)) = cfg"
proof -
  have a: "ap_config (rs_app (foldl (boot_mount c) s xs)) = ap_config (rs_app s)" for c s xs
    by (induction xs arbitrary: s) (auto simp: boot_mount_def on_app_def)
  have b: "ap_config (rs_app (foldl (boot_autodj c) s xs)) = ap_config (rs_app s)" for c s xs
    by (induction xs arbitrary: s)
      (auto simp: boot_autodj_def add_mount_def Let_def autodj_spawn_def autodj_insert_def fresh_token_def)
  have r: "ap_config (rs_app (foldl (boot_relay c) s xs)) = ap_config (rs_app s)" for c s xs
    by (induction xs arbitrary: s)
      (auto simp: boot_relay_def add_mount_def Let_def relay_spawn_def relay_insert_def fresh_token_def)
  show ?thesis by (simp add: boot_server_def a b r empty_app_def)
qed

lemma reloads_follow:
  assumes "server_ok sv" and "reload_chain (ap_config (rs_app sv)) cs"
    and "\<forall>p. follows (server_view sv p) (wanted (ap_config (rs_app sv)) p)"
  shows "follows (server_view (foldl (\<lambda>s c. snd (apply_config c s)) sv cs) p)
    (wanted (last (ap_config (rs_app sv) # cs)) p)"
  using assms
proof (induction cs arbitrary: sv)
  case (Cons c cs)
  let ?sv' = "snd (apply_config c sv)"
  have ok: "config_paths_ok (ap_config (rs_app sv))" "config_paths_ok c"
    using Cons.prems(2) reload_chain_ok by auto
  note f = apply_config_facts [OF Cons.prems(1) ok]
  have c: "ap_config (rs_app ?sv') = c" using f by simp
  have "follows (server_view (foldl (\<lambda>s c. snd (apply_config c s)) ?sv' cs) p) (wanted (last (ap_config (rs_app ?sv') # cs)) p)"
  proof (rule Cons.IH)
    show "\<forall>q. follows (server_view ?sv' q) (wanted (ap_config (rs_app ?sv')) q)"
      unfolding c using apply_follows [OF Cons.prems(1) ok] Cons.prems(2,3) by simp
  qed (use f Cons.prems(2) in \<open>simp_all add: c\<close>)
  then show ?case by (simp add: c)
qed simp


text \<open>
  Claim C37. Where reload and restart differ. A path that moves from the AutoDJ section to the plain
  mounts is unregistered although the new configuration lists it; a new AutoDJ that is disabled gets
  no mount; and an AutoDJ that is respawned, say for a new bitrate, keeps its old listener limit and
  station data.
\<close>

theorem reload_gaps:
  assumes "server_ok sv" and "config_paths_ok (ap_config (rs_app sv))" and "config_paths_ok new"
  shows "(p \<in> ad_mount ` set (cf_autodjs (ap_config (rs_app sv))) \<and> p \<in> mc_path ` set (cf_mounts new) \<longrightarrow>
      find_app_mount (rs_app (snd (apply_config new sv))) p = None \<and> find_app_mount (rs_app (boot_server new)) p \<noteq> None) \<and>
    (\<forall>ac\<in>set (cf_autodjs new). \<not> ad_enabled ac \<and> ad_mount ac \<notin> set (owned_paths (ap_config (rs_app sv))) \<and>
        find_app_mount (rs_app sv) (ad_mount ac) = None \<longrightarrow>
      find_app_mount (rs_app (snd (apply_config new sv))) (ad_mount ac) = None \<and>
      find_app_mount (rs_app (boot_server new)) (ad_mount ac) \<noteq> None) \<and>
    (\<forall>ac\<in>set (cf_autodjs new). \<forall>o'\<in>set (cf_autodjs (ap_config (rs_app sv))).
        ad_mount o' = ad_mount ac \<and> autodj_needs_respawn (Some o') ac \<and>
        mount_view (rs_app sv) (ad_mount ac) = Some (info_key (autodj_info_of o')) \<longrightarrow>
      mount_view (rs_app (snd (apply_config new sv))) (ad_mount ac) = Some (info_key (autodj_info_of o')))"
proof -
  let ?old = "ap_config (rs_app sv)"
  note f = apply_config_facts [OF assms]
  have mv: "mount_view (rs_app (snd (apply_config new sv))) q = pv_mount (view_apply ?old new q (server_view sv q))" for q
  proof -
    have "mount_view (rs_app (snd (apply_config new sv))) q = pv_mount (server_view (snd (apply_config new sv)) q)"
      by (simp add: server_view_def)
    then show ?thesis using f [of q] by simp
  qed
  have none: "find_app_mount st q = None \<longleftrightarrow> mount_view st q = None" for st q
    by (simp add: mount_view_def)
  have bw: "mount_view (rs_app (boot_server new)) q = pv_mount (wanted new q)" for q
    using arg_cong [OF boot_wanted [OF assms(3), of q], of pv_mount] by (simp add: server_view_def)
  note oo = owned_once [OF assms(2)] and on = owned_once [OF assms(3)] and d = owned_distinctD
  have fk: "find_key ad_mount (ad_mount a) (cf_autodjs c) = Some a" if "config_paths_ok c" "a \<in> set (cf_autodjs c)" for a c
    using find_key_distinct [OF d(2) [OF that(1)] that(2)] by simp
  have g1: "find_app_mount (rs_app (snd (apply_config new sv))) p = None \<and> find_app_mount (rs_app (boot_server new)) p \<noteq> None"
    if a: "p \<in> ad_mount ` set (cf_autodjs ?old)" and m: "p \<in> mc_path ` set (cf_mounts new)"
  proof -
    obtain a where a: "find_key ad_mount p (cf_autodjs ?old) = Some a"
      using a by (auto simp: find_key_image_iff simp del: image_iff)
    obtain m where m: "find_key mc_path p (cf_mounts new) = Some m"
      using m by (auto simp: find_key_image_iff simp del: image_iff)
    show ?thesis
      unfolding none mv bw using a m oo(3) [OF a] on(1,2) [OF m] by (simp add: view_apply_def wanted_def)
  qed
  have g2: "find_app_mount (rs_app (snd (apply_config new sv))) (ad_mount ac) = None \<and>
      find_app_mount (rs_app (boot_server new)) (ad_mount ac) \<noteq> None"
    if a: "ac \<in> set (cf_autodjs new)" and e: "\<not> ad_enabled ac" and u: "ad_mount ac \<notin> set (owned_paths ?old)"
      and r: "find_app_mount (rs_app sv) (ad_mount ac) = None" for ac
  proof -
    note k = fk [OF assms(3) a]
    have n: "find_key mc_path (ad_mount ac) (cf_mounts new) = None"
      using on(1) k by (cases "find_key mc_path (ad_mount ac) (cf_mounts new)") auto
    have "find_key mc_path (ad_mount ac) (cf_mounts ?old) = None" "find_key ad_mount (ad_mount ac) (cf_autodjs ?old) = None"
        "find_key rc_mount (ad_mount ac) (cf_relays ?old) = None"
      using u by (auto simp: find_key_None_iff owned_paths_def)
    then show ?thesis
      unfolding none mv bw using k n e r on(3) [OF k]
      by (simp add: view_apply_def wanted_def view_autodj_def autodj_needs_respawn_def) (simp add: server_view_def mount_view_def)
  qed
  have g3: "mount_view (rs_app (snd (apply_config new sv))) (ad_mount ac) = Some (info_key (autodj_info_of o'))"
    if a: "ac \<in> set (cf_autodjs new)" and o': "o' \<in> set (cf_autodjs ?old)" and e: "ad_mount o' = ad_mount ac"
      and r: "autodj_needs_respawn (Some o') ac" and v: "mount_view (rs_app sv) (ad_mount ac) = Some (info_key (autodj_info_of o'))"
    for ac o'
  proof -
    note k = fk [OF assms(3) a] and ko = fk [OF assms(2) o', unfolded e]
    have n: "find_key mc_path (ad_mount ac) (cf_mounts new) = None"
      using on(1) k by (cases "find_key mc_path (ad_mount ac) (cf_mounts new)") auto
    have no: "find_key mc_path (ad_mount ac) (cf_mounts ?old) = None"
      using oo(1) ko by (cases "find_key mc_path (ad_mount ac) (cf_mounts ?old)") auto
    show ?thesis
      unfolding mv using k ko n no r v on(3) [OF k] oo(3) [OF ko]
      by (simp add: view_apply_def view_autodj_def) (simp add: server_view_def)
  qed
  show ?thesis
    by (intro conjI ballI impI; elim conjE; (rule g1 [THEN conjunct1] g1 [THEN conjunct2] g2 [THEN conjunct1]
          g2 [THEN conjunct2] g3; assumption))
qed

section \<open>Concrete instances\<close>

definition plain_mount_config :: "string \<Rightarrow> mount_config" where
  "plain_mount_config p = \<lparr>mc_path = p, mc_source_password = ''pw'', mc_max_listeners = None, mc_name = None,
     mc_description = None, mc_genre = None, mc_url = None, mc_transcode = None, mc_burst_size = None\<rparr>"

definition plain_autodj_config :: "string \<Rightarrow> autodj_config" where
  "plain_autodj_config p = \<lparr>ad_mount = p, ad_folder = ''/music'', ad_name = None, ad_description = None,
     ad_genre = None, ad_url = None, ad_enabled = True, ad_loop_playlist = True, ad_order = Shuffle,
     ad_max_listeners = None, ad_burst_size = None,
     ad_transcode = \<lparr>tc_format = FmtMp3, tc_sample_rate = 44100, tc_bitrate_kbps = 128\<rparr>\<rparr>"

definition cfg_with :: "string list \<Rightarrow> string list \<Rightarrow> config" where
  "cfg_with ms as = (sample_cfg None)\<lparr>cf_mounts := map plain_mount_config ms, cf_autodjs := map plain_autodj_config as\<rparr>"

lemma cfg_with_sel [simp]:
  "cf_mounts (cfg_with ms as) = map plain_mount_config ms" "cf_autodjs (cfg_with ms as) = map plain_autodj_config as"
  "cf_relays (cfg_with ms as) = []"
  by (simp_all add: cfg_with_def sample_cfg_def)

lemma plain_paths [simp]: "mc_path (plain_mount_config p) = p" "ad_mount (plain_autodj_config p) = p"
    "ad_enabled (plain_autodj_config p)"
  by (simp_all add: plain_mount_config_def plain_autodj_config_def)

lemma cfg_with_ok: "config_paths_ok (cfg_with ms as) \<longleftrightarrow> distinct (ms @ as)"
  by (auto simp: config_paths_ok_def owned_paths_def comp_def)

lemma cfg_with_grows:
  "distinct (ms' @ as') \<Longrightarrow> set ms' \<inter> set as = {} \<Longrightarrow> set as' \<inter> set ms = {} \<Longrightarrow>
     sections_stable (cfg_with ms as) (cfg_with ms' as') \<and> additions_enabled (cfg_with ms as) (cfg_with ms' as') \<and>
     respawn_keeps_identity (cfg_with ms as) (cfg_with ms' as')"
  by (auto simp: sections_stable_def additions_enabled_def respawn_keeps_identity_def)



theorem reload_gaps_witness:
  "find_app_mount (rs_app (snd (apply_config (cfg_with [''/dj''] []) (boot_server (cfg_with [] [''/dj'']))))) ''/dj'' = None"
  using reload_gaps [of "boot_server (cfg_with [] [''/dj''])" "cfg_with [''/dj''] []" "''/dj''"]
  by (simp add: boot_ok boot_config cfg_with_ok)

end
