(* ===== verification/System_Steps.thy ===== *)
theory System_Steps
  imports Live_Stream Reload_Facts
begin

text \<open>
  The server as a whole: every operation that changes the shared state, from whichever task it
  comes, is a step; a run is any sequence of steps from the empty server on, the start-up and the
  reloads stage by stage. The steps of a task may come in any order and at any time, which allows more
  runs than the code has. The invariants of the
  components hold in every reachable state, and so does one that belongs to none of them: each
  listener, source, relay and AutoDJ is cancelled through a token that nobody else holds.
\<close>

section \<open>Steps\<close>

text \<open>An action of the admin API on the state it shares with the stream side.\<close>

definition admin_action ::
  "(socket_addr \<Rightarrow> nat) \<Rightarrow> nat \<Rightarrow> (admin_state \<Rightarrow> 'r \<times> admin_state) \<Rightarrow> app_state \<Rightarrow> 'r \<times> app_state" where
  "admin_action port_of now f st =
     (case f (app_admin_state port_of now st) of
        (r, s) \<Rightarrow> (r, st\<lparr>ap_store := as_store s, ap_listeners := as_listeners s, ap_cancelled := as_cancelled s\<rparr>))"

text \<open>
  The steps on the mounts, listeners and tokens: a packet published with whatever the header
  capture and the counters then hold, the end of a source, a listener that joins or leaves, the
  first half of a pre-emption, a relay or AutoDJ that claims or releases, an action of an administrator.
\<close>

inductive app_move :: "app_state \<Rightarrow> app_state \<Rightarrow> bool" where
  move_publish: "app_move st (put_mount a ((app_mount st a)\<lparr>am_bus := publish (am_bus (app_mount st a)) p\<rparr>) st)"
| move_note: "app_move st (put_mount a ((app_mount st a)\<lparr>am_header_bytes := h, am_stats := s\<rparr>) st)"
| move_source_gone: "app_move st (guard_drop sn st)"
| move_joins: "listener_handler value_ok now seg peer hs st = (x, st') \<Longrightarrow> app_move st st'"
| move_leaves: "app_move st (listener_leave ln k st)"
| move_preempts: "app_move st (preempt_begin a st)"
| move_relay_claims: "fresh_token st = (t, st1) \<Longrightarrow> relay_claim_slot t now (app_mount st1 a) = (ok, m) \<Longrightarrow>
    app_move st (put_mount a m st1)"
| move_relay_ends: "app_move st (relay_ends a st)"
| move_autodj_claims: "fresh_token st = (t, st1) \<Longrightarrow> autodj_claim_slot t now (app_mount st1 a) = (ok, m) \<Longrightarrow>
    app_move st (put_mount a m st1)"
| move_autodj_ends: "app_move st (autodj_ends a st)"
| move_kick_source: "admin_action port_of now (kick_source path) st = (r, st') \<Longrightarrow> app_move st st'"
| move_kick_listener: "admin_action port_of now (kick_listener i) st = (r, st') \<Longrightarrow> app_move st st'"
| move_set_title: "admin_action port_of now (set_title path title) st = (r, st') \<Longrightarrow> app_move st st'"
| move_clear_title: "admin_action port_of now (clear_title path) st = (r, st') \<Longrightarrow> app_move st st'"

text \<open>What other tasks do while a source waits for an owner to let go: any number of moves.\<close>

definition moves :: "(app_state \<Rightarrow> app_state) \<Rightarrow> bool" where
  "moves f \<longleftrightarrow> (\<forall>st. app_move\<^sup>*\<^sup>* st (f st))"

text \<open>
  The parts of a start-up or a reload that change something. Between two of them the reload may be
  waiting for a task to end, and the other tasks go on.
\<close>

inductive reload_step :: "server \<Rightarrow> server \<Rightarrow> bool" where
  reload_auth: "reload_step sv (on_app (\<lambda>st. st\<lparr>ap_auth := auth\<rparr>) sv)"
| reload_config: "reload_step sv (on_app (\<lambda>st. st\<lparr>ap_config := cfg\<rparr>) sv)"
| reload_adds: "reload_step sv (on_app (\<lambda>st. snd (add_mount info (bus_new ring cap) st)) sv)"
| reload_removes: "reload_step sv (on_app (remove_mount p) sv)"
| reload_swaps: "reload_step sv (on_app (swap_info pw mx meta a) sv)"
| reload_cancels_autodj: "reload_step sv (autodj_cancel p sv)"
| reload_spawns_autodj: "reload_step sv (autodj_spawn ac a sv)"
| reload_cancels_relay: "reload_step sv (relay_cancel p sv)"
| reload_spawns_relay: "reload_step sv (relay_spawn rc a sv)"

inductive server_step :: "server \<Rightarrow> server \<Rightarrow> bool" where
  step_move: "app_move (rs_app sv) st \<Longrightarrow> server_step sv (sv\<lparr>rs_app := st\<rparr>)"
| step_admit: "list_all moves others \<Longrightarrow> admit_source dec others now head (rs_app sv) = (r, st) \<Longrightarrow>
    server_step sv (sv\<lparr>rs_app := st\<rparr>)"
| step_reload: "reload_step sv sv' \<Longrightarrow> server_step sv sv'"

text \<open>The server before the start-up has added anything.\<close>

definition empty_server :: "config \<Rightarrow> server" where
  "empty_server cfg = \<lparr>rs_app = empty_app cfg, rs_autodjs = Map.empty, rs_relays = Map.empty\<rparr>"

inductive server_reach :: "server \<Rightarrow> bool" where
  reach_empty: "server_reach (empty_server cfg)"
| reach_step: "server_reach sv \<Longrightarrow> server_step sv sv' \<Longrightarrow> server_reach sv'"

section \<open>Who holds which token\<close>

datatype holder = Listener nat | Source mount_addr | AutoDj string | Relay string

fun held :: "server \<Rightarrow> holder \<Rightarrow> token option" where
  "held sv (Listener i) = map_option li_cancel (lm_entries (ap_listeners (rs_app sv)) i)"
| "held sv (Source a) = am_source_cancel (app_mount (rs_app sv) a)"
| "held sv (AutoDj p) = map_option aj_cancel (rs_autodjs sv p)"
| "held sv (Relay p) = map_option rl_cancel (rs_relays sv p)"

definition tokens_ok :: "server \<Rightarrow> bool" where
  "tokens_ok sv \<longleftrightarrow>
     (\<forall>h t. held sv h = Some t \<longrightarrow> t < ap_next_token (rs_app sv)) \<and>
     (\<forall>h h' t. held sv h = Some t \<longrightarrow> held sv h' = Some t \<longrightarrow> h = h')"

definition server_inv :: "server \<Rightarrow> bool" where
  "server_inv sv \<longleftrightarrow>
     app_inv (rs_app sv) \<and> listeners_inv (ap_listeners (rs_app sv)) \<and>
     (\<forall>a. bus_inv (am_bus (app_mount (rs_app sv) a))) \<and> tokens_ok sv"

text \<open>Nobody new holds a token, or one does, and it is fresh.\<close>

lemma tokens_ok_fewer:
  "tokens_ok sv \<Longrightarrow> (\<And>h t. held sv' h = Some t \<Longrightarrow> held sv h = Some t) \<Longrightarrow>
   ap_next_token (rs_app sv) \<le> ap_next_token (rs_app sv') \<Longrightarrow> tokens_ok sv'"
  unfolding tokens_ok_def by (meson order_less_le_trans)

lemma tokens_ok_fresh:
  assumes "tokens_ok sv" and "ap_next_token (rs_app sv) < ap_next_token (rs_app sv')"
    and "\<And>h t. held sv' h = Some t \<Longrightarrow> held sv h = Some t \<or> h = k \<and> t = ap_next_token (rs_app sv)"
  shows "tokens_ok sv'"
  unfolding tokens_ok_def
proof (intro conjI allI impI)
  show "t < ap_next_token (rs_app sv')" if "held sv' h = Some t" for h t
    using assms(3) [OF that] assms(1,2) unfolding tokens_ok_def by fastforce
  show "h = h'" if "held sv' h = Some t" "held sv' h' = Some t" for h h' t
    using assms(3) [OF that(1)] assms(3) [OF that(2)] assms(1) unfolding tokens_ok_def
    by (metis less_irrefl)
qed

text \<open>A change of the shared state that takes no new token, or hands one fresh one out.\<close>

definition no_new_tokens :: "app_state \<Rightarrow> app_state \<Rightarrow> bool" where
  "no_new_tokens st st' \<longleftrightarrow>
     (\<forall>i e. lm_entries (ap_listeners st') i = Some e \<longrightarrow> lm_entries (ap_listeners st) i = Some e) \<and>
     (\<forall>a t. am_source_cancel (app_mount st' a) = Some t \<longrightarrow> am_source_cancel (app_mount st a) = Some t) \<and>
     ap_next_token st \<le> ap_next_token st'"

lemma no_new_tokens_ok:
  assumes "no_new_tokens (rs_app sv) st'" and "tokens_ok sv"
  shows "tokens_ok (sv\<lparr>rs_app := st'\<rparr>)"
proof (rule tokens_ok_fewer [OF assms(2)])
  show "held (sv\<lparr>rs_app := st'\<rparr>) h = Some t \<Longrightarrow> held sv h = Some t" for h t
    using assms(1) by (cases h) (auto simp: no_new_tokens_def)
qed (use assms(1) in \<open>simp add: no_new_tokens_def\<close>)

definition one_fresh_token :: "app_state \<Rightarrow> app_state \<Rightarrow> bool" where
  "one_fresh_token st st' \<longleftrightarrow>
     (\<exists>h. ap_next_token st < ap_next_token st' \<and>
        (\<forall>i e. lm_entries (ap_listeners st') i = Some e \<longrightarrow>
           lm_entries (ap_listeners st) i = Some e \<or> h = Listener i \<and> li_cancel e = ap_next_token st) \<and>
        (\<forall>a t. am_source_cancel (app_mount st' a) = Some t \<longrightarrow>
           am_source_cancel (app_mount st a) = Some t \<or> h = Source a \<and> t = ap_next_token st))"

lemma one_fresh_token_ok:
  assumes "one_fresh_token (rs_app sv) st'" and "tokens_ok sv"
  shows "tokens_ok (sv\<lparr>rs_app := st'\<rparr>)"
proof -
  from assms(1) obtain k where k: "ap_next_token (rs_app sv) < ap_next_token st'"
    "\<forall>i e. lm_entries (ap_listeners st') i = Some e \<longrightarrow>
       lm_entries (ap_listeners (rs_app sv)) i = Some e \<or> k = Listener i \<and> li_cancel e = ap_next_token (rs_app sv)"
    "\<forall>a t. am_source_cancel (app_mount st' a) = Some t \<longrightarrow>
       am_source_cancel (app_mount (rs_app sv) a) = Some t \<or> k = Source a \<and> t = ap_next_token (rs_app sv)"
    unfolding one_fresh_token_def by blast
  show ?thesis
  proof (rule tokens_ok_fresh [OF assms(2), where k = k])
    show "held sv h = Some t \<or> h = k \<and> t = ap_next_token (rs_app sv)" if "held (sv\<lparr>rs_app := st'\<rparr>) h = Some t" for h t
      using that k(2,3) by (cases h) fastforce+
  qed (use k(1) in simp)
qed

section \<open>The components' invariants\<close>

definition app_part :: "app_state \<Rightarrow> bool" where
  "app_part st \<longleftrightarrow> app_inv st \<and> listeners_inv (ap_listeners st) \<and> (\<forall>a. bus_inv (am_bus (app_mount st a)))"

lemma server_inv_parts: "server_inv sv \<longleftrightarrow> app_part (rs_app sv) \<and> tokens_ok sv"
  by (simp add: server_inv_def app_part_def)

text \<open>
  What every operation on the shared state does: it keeps the invariants, and takes no new token
  (quiet) or exactly one fresh one (orderly).
\<close>

definition quiet :: "app_state \<Rightarrow> app_state \<Rightarrow> bool" where
  "quiet st st' \<longleftrightarrow> (app_part st \<longrightarrow> app_part st') \<and> no_new_tokens st st'"

definition orderly :: "app_state \<Rightarrow> app_state \<Rightarrow> bool" where
  "orderly st st' \<longleftrightarrow> (app_part st \<longrightarrow> app_part st') \<and> (no_new_tokens st st' \<or> one_fresh_token st st')"

lemma orderly_inv:
  "orderly (rs_app sv) st' \<Longrightarrow> server_inv sv \<Longrightarrow> server_inv (sv\<lparr>rs_app := st'\<rparr>)"
  by (auto simp: orderly_def server_inv_parts no_new_tokens_ok one_fresh_token_ok)

lemma quiet_orderly: "quiet st st' \<Longrightarrow> orderly st st'"
  by (simp add: quiet_def orderly_def)

lemma quiet_refl [simp]: "quiet st st"
  by (simp add: quiet_def no_new_tokens_def)

lemma quiet_trans: "quiet st st1 \<Longrightarrow> quiet st1 st2 \<Longrightarrow> quiet st st2"
  unfolding quiet_def no_new_tokens_def by (meson order_trans)

lemma orderly_quiet: "orderly st st1 \<Longrightarrow> quiet st1 st2 \<Longrightarrow> orderly st st2"
  unfolding orderly_def quiet_def no_new_tokens_def one_fresh_token_def
  by (meson order_less_le_trans order_trans)

lemma quiet_fold: "(\<And>st x. quiet st (f st x)) \<Longrightarrow> quiet st (foldl f st xs)"
  by (induction xs arbitrary: st) (auto intro: quiet_trans)

lemma app_part_put:
  "app_part st \<Longrightarrow> mi_path (am_info m) = mi_path (am_info (app_mount st a)) \<Longrightarrow> bus_inv (am_bus m) \<Longrightarrow>
     app_part (put_mount a m st)"
  by (simp add: app_part_def app_inv_put)

lemma quiet_put:
  assumes "mi_path (am_info m) = mi_path (am_info (app_mount st a))"
    and "bus_inv (am_bus (app_mount st a)) \<longrightarrow> bus_inv (am_bus m)"
    and "am_source_cancel m \<in> {None, am_source_cancel (app_mount st a)}"
  shows "quiet st (put_mount a m st)"
  using assms by (auto simp: quiet_def app_part_def app_inv_put no_new_tokens_def)

lemma quiet_remove: "quiet st (remove_mount p st)"
  by (simp add: quiet_def app_part_def app_inv_remove no_new_tokens_def) (simp add: remove_mount_def)

lemma quiet_add: "quiet st (snd (add_mount info (bus_new ring cap) st))"
  by (simp add: quiet_def app_part_def app_inv_add no_new_tokens_def active_mount_new_def bus_inv_new)
    (simp add: add_mount_def Let_def)

lemma quiet_same_store:
  assumes "ap_store st' = ap_store st" "ap_mounts st' = ap_mounts st" "ap_next_addr st' = ap_next_addr st"
    "lm_entries (ap_listeners st') = lm_entries (ap_listeners st)" "lm_next_id (ap_listeners st') = lm_next_id (ap_listeners st)"
    "ap_next_token st' = ap_next_token st"
  shows "quiet st st'"
  using assms by (simp add: quiet_def app_part_def app_inv_def listeners_inv_def app_mount_def no_new_tokens_def)

lemma app_mount_frame [simp]:
  "app_mount (st\<lparr>ap_next_token := t, ap_listeners := lm\<rparr>) = app_mount st"
  "app_mount (st\<lparr>ap_listeners := lm\<rparr>) = app_mount st" "app_mount (st\<lparr>ap_next_token := t\<rparr>) = app_mount st"
  "app_mount (st\<lparr>ap_auth := au\<rparr>) = app_mount st" "app_mount (st\<lparr>ap_config := cfg\<rparr>) = app_mount st"
  "app_mount (cancel_token t st) = app_mount st"
  by (simp_all add: app_mount_def fun_eq_iff cancel_token_def)

text \<open>A mount claimed with a fresh token.\<close>

lemma orderly_claim:
  assumes "mi_path (am_info m) = mi_path (am_info (app_mount st a))" and "am_bus m = am_bus (app_mount st a)"
    and "am_source_cancel m \<in> {am_source_cancel (app_mount st a), Some (ap_next_token st)}"
  shows "orderly st (put_mount a m (st\<lparr>ap_next_token := Suc (ap_next_token st)\<rparr>))"
proof -
  let ?st = "st\<lparr>ap_next_token := Suc (ap_next_token st)\<rparr>"
  have same: "app_mount ?st = app_mount st" "app_part ?st = app_part st"
    by (auto simp: app_mount_def app_part_def app_inv_def fun_eq_iff)
  have "app_part (put_mount a m ?st)" if "app_part st"
    using that assms(1,2) by (intro app_part_put) (simp_all add: same, simp add: app_part_def)
  moreover have "one_fresh_token st (put_mount a m ?st)"
    using assms(3) by (auto simp: one_fresh_token_def same intro: exI [of _ "Source a"])
  ultimately show ?thesis by (simp add: orderly_def)
qed

lemma apply_writes_frame [simp]:
  "am_bus (apply_writes ws m) = am_bus m" "mi_path (am_info (apply_writes ws m)) = mi_path (am_info m)"
proof -
  have "am_bus (apply_write w m) = am_bus m \<and> mi_path (am_info (apply_write w m)) = mi_path (am_info m)" for w m
    by (cases w) (simp_all add: slot_write_simps)
  then have "am_bus (apply_writes ws m) = am_bus m \<and> mi_path (am_info (apply_writes ws m)) = mi_path (am_info m)"
    by (induction ws arbitrary: m) (simp_all add: apply_writes_def)
  then show "am_bus (apply_writes ws m) = am_bus m" "mi_path (am_info (apply_writes ws m)) = mi_path (am_info m)" by auto
qed

lemma release_cancel [simp]:
  "am_source_cancel (apply_writes guard_release_writes m) = None"
  "am_source_cancel (autodj_release_slot m) = None" "am_source_cancel (relay_release_slot m) = None"
  by (simp_all add: autodj_release_slot_def relay_release_slot_def slot_writes_defs slot_write_simps)

section \<open>Each move is orderly\<close>

lemma orderly_join:
  assumes "listener_join now path peer hs a st = (ln, st')"
  shows "orderly st st'"
proof -
  let ?m = "app_mount st a" and ?t = "ap_next_token st"
  let ?lm = "snd (listener_register now path (Some peer) ?t (ap_listeners st))"
  let ?st = "st\<lparr>ap_next_token := Suc ?t, ap_listeners := ?lm\<rparr>"
  have st': "st' = put_mount a (?m\<lparr>am_bus := add_receiver (am_bus ?m)\<rparr>) ?st"
    using assms
    by (auto simp: listener_join_def Let_def fresh_token_def listener_register_def subscribe_def subscribe_live_def
        split: prod.splits if_splits)
  have same: "app_mount ?st = app_mount st" by (auto simp: app_mount_def)
  have "app_part st'" if "app_part st"
  proof -
    have "app_part ?st" using that listeners_inv_register by (simp add: app_part_def same app_inv_def)
    then show ?thesis unfolding st'
      using that by (intro app_part_put) (simp_all add: same app_part_def bus_inv_add_receiver)
  qed
  moreover have "one_fresh_token st st'"
    unfolding one_fresh_token_def
    by (rule exI [of _ "Listener (lm_next_id (ap_listeners st))"])
      (auto simp: st' same listener_register_def split: if_splits)
  ultimately show ?thesis by (simp add: orderly_def)
qed

lemma orderly_handler: "listener_handler value_ok now seg peer hs st = (x, st') \<Longrightarrow> orderly st st'"
  by (auto simp: listener_handler_def Let_def quiet_orderly split: sum.splits prod.splits dest: orderly_join)

lemma quiet_guard_drop: "quiet st (guard_drop sn st)"
proof -
  let ?st1 = "st\<lparr>ap_listeners := kick_mount_listeners (sn_path sn) (ap_listeners st)\<rparr>"
  let ?st2 = "put_mount (sn_addr sn) (apply_writes guard_release_writes (app_mount ?st1 (sn_addr sn))) ?st1"
  have "quiet st ?st1" by (rule quiet_same_store) (simp_all add: kick_mount_listeners_def)
  moreover have "quiet ?st1 ?st2" by (rule quiet_put) simp_all
  ultimately have "quiet st ?st2" by (rule quiet_trans)
  then show ?thesis by (auto simp: guard_drop_def Let_def intro: quiet_trans quiet_remove)
qed

lemma quiet_leave: "quiet st (listener_leave ln k st)"
proof -
  let ?m = "app_mount st (ln_addr ln)"
  let ?st = "put_mount (ln_addr ln) (?m\<lparr>am_bus := drop_receiver (am_bus ?m) k\<rparr>) st"
  have "quiet st ?st" by (rule quiet_put) (simp_all add: bus_inv_drop_receiver)
  moreover have "quiet ?st (?st\<lparr>ap_listeners := listener_deregister (ln_id ln) (ap_listeners ?st)\<rparr>)"
    using listeners_inv_deregister
    by (simp add: quiet_def app_part_def app_inv_def app_mount_def no_new_tokens_def)
      (simp add: listener_deregister_def)
  ultimately show ?thesis by (simp add: listener_leave_def Let_def quiet_trans)
qed

lemma quiet_preempt: "quiet st (preempt_begin a st)"
proof -
  let ?st = "put_mount a ((app_mount st a)\<lparr>am_preempt_pending := True\<rparr>) st"
  have "quiet st ?st" by (rule quiet_put) simp_all
  moreover have "quiet ?st (cancel_token t ?st)" for t by (rule quiet_same_store) (simp_all add: cancel_token_def)
  ultimately show ?thesis by (auto simp: preempt_begin_def Let_def intro: quiet_trans split: option.split)
qed

lemma orderly_relay_claim:
  assumes "fresh_token st = (t, st1)" and "relay_claim_slot t now (app_mount st1 a) = (ok, m)"
  shows "orderly st (put_mount a m st1)"
proof -
  have st1: "t = ap_next_token st" "st1 = st\<lparr>ap_next_token := Suc (ap_next_token st)\<rparr>" "app_mount st1 a = app_mount st a"
    using assms(1) by (auto simp: fresh_token_def app_mount_def)
  show ?thesis unfolding st1(2)
    using assms(2) st1
    by (intro orderly_claim) (auto simp: relay_claim_slot_def cas_connect_def slot_writes_defs slot_write_simps split: if_splits)
qed

lemma orderly_autodj_claim:
  assumes "fresh_token st = (t, st1)" and "autodj_claim_slot t now (app_mount st1 a) = (ok, m)"
  shows "orderly st (put_mount a m st1)"
proof -
  have st1: "t = ap_next_token st" "st1 = st\<lparr>ap_next_token := Suc (ap_next_token st)\<rparr>" "app_mount st1 a = app_mount st a"
    using assms(1) by (auto simp: fresh_token_def app_mount_def)
  show ?thesis unfolding st1(2)
    using assms(2) st1
    by (intro orderly_claim) (auto simp: autodj_claim_slot_def cas_connect_def slot_writes_defs slot_write_simps split: if_splits)
qed

lemma quiet_ends: "quiet st (autodj_ends a st)" "quiet st (relay_ends a st)"
  by (auto simp: autodj_ends_def relay_ends_def Let_def autodj_release_slot_def [symmetric] intro!: quiet_put)
    (simp_all add: autodj_release_slot_def relay_release_slot_def)

lemma admin_find_mount:
  "find_mount (app_admin_state port_of now st) p = Some (a, m) \<Longrightarrow> m = app_mount st a"
  by (auto simp: find_mount_def app_admin_state_def app_mount_def split: option.splits)

lemma quiet_put_title:
  "quiet st (st\<lparr>ap_store := as_store (put_title a t (app_admin_state port_of now st)),
     ap_listeners := as_listeners (put_title a t (app_admin_state port_of now st)),
     ap_cancelled := as_cancelled (put_title a t (app_admin_state port_of now st))\<rparr>)"
proof -
  have "quiet st (put_mount a ((app_mount st a)\<lparr>am_current_title := t\<rparr>) st)" by (rule quiet_put) simp_all
  then show ?thesis by (simp add: put_title_def app_admin_state_def put_mount_def app_mount_def)
qed

lemma quiet_no_action:
  "quiet st (st\<lparr>ap_store := as_store (app_admin_state port_of now st),
     ap_listeners := as_listeners (app_admin_state port_of now st),
     ap_cancelled := as_cancelled (app_admin_state port_of now st)\<rparr>)"
  by (simp add: app_admin_state_def)

lemma quiet_titles:
  "admin_action port_of now (set_title path title) st = (r, st') \<Longrightarrow> quiet st st'"
  "admin_action port_of now (clear_title path) st = (r, st') \<Longrightarrow> quiet st st'"
  by (auto simp: admin_action_def set_title_def clear_title_def Let_def quiet_put_title quiet_no_action
      split: option.splits prod.splits if_splits)

lemma quiet_kick_source:
  assumes "admin_action port_of now (kick_source path) st = (r, st')"
  shows "quiet st st'"
proof -
  have "quiet st (st\<lparr>ap_cancelled := insert t (ap_cancelled st)\<rparr>)" for t by (rule quiet_same_store) simp_all
  then show ?thesis
    using assms
    by (auto simp: admin_action_def kick_source_def app_admin_state_def split: option.splits prod.splits if_splits)
qed

lemma quiet_kick_listener:
  assumes "admin_action port_of now (kick_listener i) st = (r, st')"
  shows "quiet st st'"
proof -
  have "quiet st (st\<lparr>ap_listeners := snd (listener_kick i (ap_listeners st))\<rparr>)"
    by (rule quiet_same_store) (simp_all add: listener_kick_def split: option.split)
  moreover have "st' = st\<lparr>ap_listeners := snd (listener_kick i (ap_listeners st))\<rparr>"
    using assms by (auto simp: admin_action_def kick_listener_def app_admin_state_def listener_kick_def
        split: prod.splits bool.splits option.splits)
  ultimately show ?thesis by simp
qed

lemma move_orderly:
  assumes "app_move st st'"
  shows "orderly st st'"
  using assms
proof (cases rule: app_move.cases)
  case move_publish
  then show ?thesis by (auto intro!: quiet_orderly quiet_put simp: publish_facts)
next
  case move_note
  then show ?thesis by (auto intro!: quiet_orderly quiet_put)
qed (auto intro: quiet_orderly quiet_guard_drop quiet_leave quiet_preempt quiet_ends quiet_titles quiet_kick_source quiet_kick_listener
      orderly_handler orderly_relay_claim orderly_autodj_claim)

lemma moves_orderly_inv:
  assumes "app_move\<^sup>*\<^sup>* (rs_app sv) st" and "server_inv sv"
  shows "server_inv (sv\<lparr>rs_app := st\<rparr>)"
  using assms
proof (induction rule: rtranclp_induct)
  case (step st1 st2)
  then show ?case using orderly_inv [of "sv\<lparr>rs_app := st1\<rparr>" st2] move_orderly by simp
qed simp

section \<open>Admission\<close>

text \<open>
  A source is admitted in several steps, between which the other tasks move: each part of the
  handler is a run of moves, an added mount or a claim.
\<close>

lemma preempt_wait_moves:
  "list_all moves others \<Longrightarrow> app_move\<^sup>*\<^sup>* st (snd (preempt_wait others a st))"
  by (induction others a st rule: preempt_wait.induct) (auto simp: moves_def intro: rtranclp_trans)

lemma preempt_moves:
  assumes "list_all moves others"
  shows "app_move\<^sup>*\<^sup>* st (snd (preempt_non_live_if_present others a st))"
  using preempt_wait_moves [OF assms, of "preempt_begin a st" a] move_preempts [of st a]
  by (auto simp: preempt_non_live_if_present_def intro: converse_rtranclp_into_rtranclp)

lemma resolve_inv:
  assumes "list_all moves others" and "server_inv sv"
  shows "server_inv (sv\<lparr>rs_app := snd (resolve_or_create_mount others p w c (rs_app sv))\<rparr>)"
proof (cases "find_app_mount (rs_app sv) p")
  case None
  have "quiet (rs_app sv) (snd (create_dynamic_mount p c (rs_app sv)))"
    by (simp add: create_dynamic_mount_def Let_def quiet_add)
  with None have "orderly (rs_app sv) (snd (resolve_or_create_mount others p w c (rs_app sv)))"
    by (auto simp: resolve_or_create_mount_def quiet_orderly split: prod.split sum.split bool.split)
  then show ?thesis using orderly_inv assms(2) by blast
next
  case (Some a)
  then have "snd (resolve_or_create_mount others p w c (rs_app sv)) = snd (preempt_non_live_if_present others a (rs_app sv))"
    by (auto simp: resolve_or_create_mount_def split: prod.split sum.split bool.split)
  then show ?thesis using moves_orderly_inv [OF preempt_moves [OF assms(1)] assms(2)] by simp
qed

lemma orderly_admission:
  assumes "cas_connect (app_mount st a) = Some m"
  shows "orderly st (put_mount a (apply_writes (live_claim_writes (ap_next_token st) now codec overlay) m)
    (st\<lparr>ap_next_token := Suc (ap_next_token st)\<rparr>))"
  using assms
  by (intro orderly_claim) (auto simp: cas_connect_def slot_writes_defs slot_write_simps split: if_splits)

lemma admit_inv:
  assumes "list_all moves others" and "server_inv sv" and "admit_source dec others now head (rs_app sv) = (r, st)"
  shows "server_inv (sv\<lparr>rs_app := st\<rparr>)"
proof -
  obtain x st1 where r: "resolve_or_create_mount others (ph_path head) (extract_source_password dec (ph_headers head))
    (detect_codec_from_content_type (ph_headers head)) (rs_app sv) = (x, st1)" by fastforce
  with resolve_inv [OF assms(1,2)] have inv: "server_inv (sv\<lparr>rs_app := st1\<rparr>)" by (metis snd_conv)
  have "orderly st1 st"
    using assms(3) r
    by (auto simp: admit_source_def Let_def fresh_token_def quiet_orderly orderly_admission
        split: sum.splits option.splits auth_outcome.splits if_splits)
  then show ?thesis using orderly_inv [OF _ inv] by simp
qed

section \<open>Start-up and reload are runs\<close>

lemma foldl_run: "(\<And>s x. R\<^sup>*\<^sup>* s (f s x)) \<Longrightarrow> R\<^sup>*\<^sup>* s (foldl f s xs)"
  by (induction xs arbitrary: s) (auto intro: rtranclp_trans)

lemma on_app_foldls:
  "on_app (\<lambda>st. foldl f st (x # xs)) sv = on_app (\<lambda>st. foldl f st xs) (on_app (\<lambda>st. f st x) sv)"
  "on_app (\<lambda>st. foldl f (foldl g st xs) ys) sv = on_app (\<lambda>st. foldl f st ys) (on_app (\<lambda>st. foldl g st xs) sv)"
  by (simp_all add: on_app_def)

lemma on_app_same [simp]: "on_app (\<lambda>st. st) sv = sv"
  by (simp add: on_app_def)

lemma on_app_fold_run:
  "(\<And>sv x. R\<^sup>*\<^sup>* sv (on_app (\<lambda>st. f st x) sv)) \<Longrightarrow> R\<^sup>*\<^sup>* sv (on_app (\<lambda>st. foldl f st xs) sv)"
proof (induction xs arbitrary: sv)
  case (Cons x xs)
  then show ?case unfolding on_app_foldls(1) by (blast intro: rtranclp_trans)
qed simp

lemmas one_step = r_into_rtranclp [of reload_step]

lemma on_app_cases:
  assumes "f (rs_app sv) = g (rs_app sv)" and "reload_step\<^sup>*\<^sup>* sv (on_app g sv)"
  shows "reload_step\<^sup>*\<^sup>* sv (on_app f sv)"
  using assms by (simp add: on_app_def)

lemma ensure_run: "reload_step\<^sup>*\<^sup>* sv (on_app (ensure_mount info (bus_for cfg burst)) sv)"
proof (cases "find_app_mount (rs_app sv) (mi_path info)")
  case None
  then show ?thesis
    by (intro on_app_cases [OF _ one_step [OF reload_adds]]) (simp add: ensure_mount_def bus_for_def)
next
  case (Some a)
  then show ?thesis by (simp add: on_app_def ensure_mount_def)
qed

lemma mount_stage_run:
  "reload_step\<^sup>*\<^sup>* sv (on_app (\<lambda>st. reload_mount cfg st mc) sv)"
  "reload_step\<^sup>*\<^sup>* sv (on_app (\<lambda>st. drop_mount cfg st mc) sv)"
proof -
  show "reload_step\<^sup>*\<^sup>* sv (on_app (\<lambda>st. reload_mount cfg st mc) sv)"
  proof (cases "find_app_mount (rs_app sv) (mc_path mc)")
    case None
    then show ?thesis
      by (intro on_app_cases [OF _ one_step [OF reload_adds]]) (simp add: reload_mount_def bus_for_def)
  next
    case (Some a)
    then show ?thesis
      by (intro on_app_cases [OF _ one_step [OF reload_swaps]]) (simp add: reload_mount_def)
  qed
  show "reload_step\<^sup>*\<^sup>* sv (on_app (\<lambda>st. drop_mount cfg st mc) sv)"
    by (cases "mc_path mc \<notin> mc_path ` set (cf_mounts cfg)") (simp_all add: drop_mount_def one_step reload_removes)
qed

lemma swap_run:
  "reload_step\<^sup>*\<^sup>* sv (on_app (\<lambda>st. swap_info (pw st) mx meta a st) sv)"
  by (rule on_app_cases [OF _ one_step [OF reload_swaps]]) simp

lemma drop_run: "reload_step\<^sup>*\<^sup>* sv (drop_autodj cfg sv ac)" "reload_step\<^sup>*\<^sup>* sv (drop_relay cfg sv rc)"
  by (auto simp: drop_autodj_def drop_relay_def
      intro: rtranclp_trans [OF one_step [OF reload_cancels_autodj]] rtranclp_trans [OF one_step [OF reload_cancels_relay]]
        one_step reload_removes)

lemma autodj_respawn_run: "reload_step\<^sup>*\<^sup>* sv (reload_autodj old cfg sv ac)"
proof -
  let ?sv = "on_app (ensure_mount (autodj_info_of ac) (bus_for cfg (ad_burst_size ac))) (autodj_cancel (ad_mount ac) sv)"
  have "reload_step\<^sup>*\<^sup>* sv ?sv"
    using rtranclp_trans [OF one_step [OF reload_cancels_autodj] ensure_run] .
  then show ?thesis
    by (auto simp: reload_autodj_def Let_def swap_run intro: rtranclp.rtrancl_into_rtrancl reload_spawns_autodj split: option.split)
qed

lemma relay_respawn_run: "reload_step\<^sup>*\<^sup>* sv (reload_relay old cfg sv rc)"
proof -
  let ?sv = "on_app (ensure_mount (relay_info_of rc) (bus_for cfg (rc_burst_size rc))) (relay_cancel (rc_mount rc) sv)"
  have "reload_step\<^sup>*\<^sup>* sv ?sv"
    using rtranclp_trans [OF one_step [OF reload_cancels_relay] ensure_run] .
  then show ?thesis
    by (auto simp: reload_relay_def Let_def swap_run intro: rtranclp.rtrancl_into_rtrancl reload_spawns_relay split: option.split)
qed

lemma apply_config_run: "reload_step\<^sup>*\<^sup>* sv (snd (apply_config cfg sv))"
proof -
  obtain v auth where a: "auth_reload (ap_auth (rs_app sv)) cfg = (v, auth)" by fastforce
  have auth: "reload_step\<^sup>*\<^sup>* sv (on_app (\<lambda>st. st\<lparr>ap_auth := auth\<rparr>) sv)" using one_step [OF reload_auth] .
  show ?thesis
  proof (cases v)
    case (Inl e)
    with a auth show ?thesis by (simp add: apply_config_def)
  next
    case (Inr u)
    show ?thesis
      unfolding apply_config_def Let_def a prod.case Inr sum.case snd_conv on_app_foldls(2)
      by (intro rtranclp_trans [OF _ one_step [OF reload_config]] rtranclp_trans [OF _ foldl_run]
          rtranclp_trans [OF _ on_app_fold_run] auth mount_stage_run drop_run autodj_respawn_run relay_respawn_run)
  qed
qed

lemma added_run:
  assumes "add_mount info (bus_new ring cap) (rs_app sv) = (a, st)"
  shows "reload_step\<^sup>*\<^sup>* sv (sv\<lparr>rs_app := st\<rparr>)"
  using one_step [OF reload_adds [of sv info ring cap]] assms by (simp add: on_app_def)

lemma boot_stage_run:
  "reload_step\<^sup>*\<^sup>* sv (boot_mount cfg sv mc)" "reload_step\<^sup>*\<^sup>* sv (boot_autodj cfg sv ac)"
  "reload_step\<^sup>*\<^sup>* sv (boot_relay cfg sv rc)"
  by (auto simp: boot_mount_def boot_autodj_def boot_relay_def bus_for_def one_step reload_adds
      intro: added_run rtranclp.rtrancl_into_rtrancl [OF added_run] reload_spawns_autodj reload_spawns_relay
      split: prod.split)

lemma boot_run: "reload_step\<^sup>*\<^sup>* (empty_server cfg) (boot_server cfg)"
  unfolding boot_server_def empty_server_def [symmetric]
  by (intro rtranclp_trans [OF _ foldl_run] rtranclp.rtrancl_refl boot_stage_run)

lemma reload_run_reach: "reload_step\<^sup>*\<^sup>* sv sv' \<Longrightarrow> server_reach sv \<Longrightarrow> server_reach sv'"
  by (induction rule: rtranclp_induct) (auto intro: reach_step step_reload)

section \<open>The invariant\<close>

lemma on_app_inv: "orderly (rs_app sv) (f (rs_app sv)) \<Longrightarrow> server_inv sv \<Longrightarrow> server_inv (on_app f sv)"
  by (simp add: on_app_def orderly_inv)

lemma quiet_swap: "quiet st (swap_info pw mx meta a st)"
  by (auto simp: swap_info_def Let_def intro: quiet_put)

lemma quiet_cancel_ends: "quiet st (autodj_ends a (cancel_token t st))" "quiet st (relay_ends a (cancel_token t st))"
proof -
  have "quiet st (cancel_token t st)" by (rule quiet_same_store) (simp_all add: cancel_token_def)
  then show "quiet st (autodj_ends a (cancel_token t st))" "quiet st (relay_ends a (cancel_token t st))"
    using quiet_ends quiet_trans by blast+
qed

lemma forget_task_inv:
  "server_inv sv \<Longrightarrow> server_inv (sv\<lparr>rs_autodjs := (rs_autodjs sv)(p := None)\<rparr>)"
  "server_inv sv \<Longrightarrow> server_inv (sv\<lparr>rs_relays := (rs_relays sv)(p := None)\<rparr>)"
proof -
  have "held (sv\<lparr>rs_autodjs := (rs_autodjs sv)(p := None)\<rparr>) h = Some t \<Longrightarrow> held sv h = Some t"
    "held (sv\<lparr>rs_relays := (rs_relays sv)(p := None)\<rparr>) h = Some t \<Longrightarrow> held sv h = Some t" for h t
    by (cases h; auto split: if_splits)+
  then show "server_inv sv \<Longrightarrow> server_inv (sv\<lparr>rs_autodjs := (rs_autodjs sv)(p := None)\<rparr>)"
    "server_inv sv \<Longrightarrow> server_inv (sv\<lparr>rs_relays := (rs_relays sv)(p := None)\<rparr>)"
    by (auto simp: server_inv_parts elim!: tokens_ok_fewer)
qed

lemma cancel_task_inv:
  "server_inv sv \<Longrightarrow> server_inv (autodj_cancel p sv)" "server_inv sv \<Longrightarrow> server_inv (relay_cancel p sv)"
  by (auto simp: autodj_cancel_def relay_cancel_def
      intro!: on_app_inv quiet_orderly quiet_cancel_ends forget_task_inv split: option.split)

lemma spawn_task_inv:
  "server_inv sv \<Longrightarrow> server_inv (autodj_spawn ac a sv)" "server_inv sv \<Longrightarrow> server_inv (relay_spawn rc a sv)"
proof -
  let ?st = "(rs_app sv)\<lparr>ap_next_token := Suc (ap_next_token (rs_app sv))\<rparr>"
  have part: "app_part ?st = app_part (rs_app sv)" by (simp add: app_part_def app_inv_def)
  have held: "held (autodj_spawn ac a sv) h = Some t \<Longrightarrow>
      held sv h = Some t \<or> h = AutoDj (ad_mount ac) \<and> t = ap_next_token (rs_app sv)"
    "held (relay_spawn rc a sv) h = Some t \<Longrightarrow>
      held sv h = Some t \<or> h = Relay (rc_mount rc) \<and> t = ap_next_token (rs_app sv)" for h t
    by (cases h; auto simp: autodj_spawn_def relay_spawn_def autodj_insert_def relay_insert_def fresh_token_def
        split: if_splits)+
  have app: "rs_app (autodj_spawn ac a sv) = ?st" "rs_app (relay_spawn rc a sv) = ?st"
    by (simp_all add: autodj_spawn_def relay_spawn_def autodj_insert_def relay_insert_def fresh_token_def)
  have ok: "tokens_ok (autodj_spawn ac a sv)" "tokens_ok (relay_spawn rc a sv)" if "tokens_ok sv"
    by (rule tokens_ok_fresh [OF that _ held(1)], simp_all add: app)
      (rule tokens_ok_fresh [OF that _ held(2)], simp_all add: app)
  show "server_inv sv \<Longrightarrow> server_inv (autodj_spawn ac a sv)" "server_inv sv \<Longrightarrow> server_inv (relay_spawn rc a sv)"
    by (simp_all add: server_inv_parts ok app part)
qed

lemma quiet_settings: "quiet st (st\<lparr>ap_auth := auth\<rparr>)" "quiet st (st\<lparr>ap_config := cfg\<rparr>)"
  by (rule quiet_same_store; simp)+

lemma reload_step_inv: "reload_step sv sv' \<Longrightarrow> server_inv sv \<Longrightarrow> server_inv sv'"
proof (induction rule: reload_step.induct)
qed (rule on_app_inv [OF quiet_orderly] cancel_task_inv spawn_task_inv,
    (rule quiet_swap quiet_add quiet_remove quiet_settings)?, assumption)+

lemma server_step_inv: "server_step sv sv' \<Longrightarrow> server_inv sv \<Longrightarrow> server_inv sv'"
  by (induction rule: server_step.induct)
    (auto intro: orderly_inv move_orderly admit_inv reload_step_inv)

lemma empty_inv: "server_inv (empty_server cfg)"
proof -
  have "held (empty_server cfg) h = None" for h
    by (cases h) (simp_all add: empty_server_def empty_app_def listener_map_new_def app_mount_def active_mount_new_def)
  then have "tokens_ok (empty_server cfg)" by (simp add: tokens_ok_def)
  moreover have "app_part (empty_app cfg)"
    using listeners_inv_new bus_inv_new
    by (simp add: app_part_def empty_app_def app_inv_def registry_new_def registry_consistent_def app_mount_def
        active_mount_new_def)
  ultimately show ?thesis by (simp add: server_inv_parts) (simp add: empty_server_def)
qed

lemma reach_inv: "server_reach sv \<Longrightarrow> server_inv sv"
  by (induction rule: server_reach.induct) (auto intro: empty_inv server_step_inv)

text \<open>
  Claim C3. However the operations of listeners, sources, relays, AutoDJs, administrators and
  reloads follow one another after the start, the registry holds every mount under its own path
  once, the listener map is finite and keyed by its own ids, the history of every bus is consistent,
  and no two of the tasks share a cancellation token. A start-up and a reload, taken stage by stage,
  stay within these states.
\<close>

theorem reachable_server_inv:
  assumes "server_reach sv"
  shows "server_inv sv \<and> server_reach (snd (apply_config new sv)) \<and> server_reach (boot_server new)"
  using reach_inv [OF assms] reload_run_reach [OF apply_config_run assms]
    reload_run_reach [OF boot_run reach_empty] by blast

section \<open>Cancellation\<close>

definition cancelled :: "app_state \<Rightarrow> token set" where
  "cancelled st = ap_cancelled st \<union> lm_cancelled (ap_listeners st)"

lemma held_same:
  "server_reach sv \<Longrightarrow> held sv h = Some t \<Longrightarrow> held sv h' = Some t \<longleftrightarrow> h = h'"
  using reach_inv unfolding server_inv_def tokens_ok_def by metis

lemma cancelled_kick_listener:
  "cancelled (snd (admin_action port_of now (kick_listener i) (rs_app sv))) =
     cancelled (rs_app sv) \<union> {t. held sv (Listener i) = Some t}"
  by (auto simp: cancelled_def admin_action_def kick_listener_def listener_kick_def app_admin_state_def
      split: option.split)

lemma cancelled_kick_source:
  "cancelled (snd (admin_action port_of now (kick_source path) (rs_app sv))) =
     cancelled (rs_app sv) \<union> {t. \<exists>a. find_app_mount (rs_app sv) (''/'' @ path) = Some a \<and>
       am_source_connected (app_mount (rs_app sv) a) \<and> held sv (Source a) = Some t}"
  by (auto simp: cancelled_def admin_action_def kick_source_def find_mount_def find_app_mount_def app_mount_def
      app_admin_state_def split: option.split)

lemma cancelled_preempt:
  "cancelled (preempt_begin a (rs_app sv)) = cancelled (rs_app sv) \<union> {t. held sv (Source a) = Some t}"
  by (auto simp: cancelled_def preempt_begin_def Let_def cancel_token_def split: option.split)

lemma cancelled_guard_drop:
  "cancelled (guard_drop sn (rs_app sv)) =
     cancelled (rs_app sv) \<union> {t. \<exists>i e. lm_entries (ap_listeners (rs_app sv)) i = Some e \<and>
       li_mount_path e = sn_path sn \<and> held sv (Listener i) = Some t}"
  by (simp add: cancelled_def guard_drop_def Let_def kick_mount_listeners_def set_eq_iff) (metis option.inject)

lemma cancelled_ends [simp]:
  "cancelled (autodj_ends a st) = cancelled st" "cancelled (relay_ends a st) = cancelled st"
  "cancelled (cancel_token t st) = insert t (cancelled st)"
  by (simp_all add: cancelled_def autodj_ends_def relay_ends_def cancel_token_def Let_def)

lemma cancelled_tasks:
  "cancelled (rs_app (autodj_cancel p sv)) = cancelled (rs_app sv) \<union> {t. held sv (AutoDj p) = Some t}"
  "cancelled (rs_app (relay_cancel p sv)) = cancelled (rs_app sv) \<union> {t. held sv (Relay p) = Some t}"
  by (auto simp: autodj_cancel_def relay_cancel_def on_app_def split: option.split)

text \<open>
  Claim C4. Cancellation hits its target and nobody else. In every reachable state of the server,
  and for every token held by a listener, a source, an AutoDJ or a relay: kicking a listener by id
  cancels the token of that listener, kicking the source of a path that of the connected source of the
  mount there, a pre-emption that of the owner of the mount, the end of a source those of the
  listeners of its path, and stopping an AutoDJ or a relay on a reload that of the task with this
  path; every other token is cancelled exactly when it was before.
\<close>

theorem cancellation_hits_its_target:
  assumes "server_reach sv" and "held sv h = Some t"
  shows "(t \<in> cancelled (snd (admin_action port_of now (kick_listener i) (rs_app sv))) \<longleftrightarrow>
      h = Listener i \<or> t \<in> cancelled (rs_app sv)) \<and>
    (t \<in> cancelled (snd (admin_action port_of now (kick_source path) (rs_app sv))) \<longleftrightarrow>
      (\<exists>a. find_app_mount (rs_app sv) (''/'' @ path) = Some a \<and> am_source_connected (app_mount (rs_app sv) a) \<and>
         h = Source a) \<or> t \<in> cancelled (rs_app sv)) \<and>
    (t \<in> cancelled (preempt_begin b (rs_app sv)) \<longleftrightarrow> h = Source b \<or> t \<in> cancelled (rs_app sv)) \<and>
    (t \<in> cancelled (guard_drop sn (rs_app sv)) \<longleftrightarrow>
      (\<exists>j e. lm_entries (ap_listeners (rs_app sv)) j = Some e \<and> li_mount_path e = sn_path sn \<and> h = Listener j) \<or>
      t \<in> cancelled (rs_app sv)) \<and>
    (t \<in> cancelled (rs_app (autodj_cancel p sv)) \<longleftrightarrow> h = AutoDj p \<or> t \<in> cancelled (rs_app sv)) \<and>
    (t \<in> cancelled (rs_app (relay_cancel p sv)) \<longleftrightarrow> h = Relay p \<or> t \<in> cancelled (rs_app sv))"
  unfolding cancelled_kick_listener cancelled_kick_source cancelled_preempt cancelled_guard_drop cancelled_tasks
    Un_iff mem_Collect_eq held_same [OF assms]
  by blast

section \<open>A concrete run\<close>

text \<open>A server with a mount and an AutoDJ, after a listener has joined the mount.\<close>

definition sample_start :: server where
  "sample_start = boot_server (cfg_with [''/live''] [''/dj''])"

definition sample_run :: server where
  "sample_run = sample_start\<lparr>rs_app := snd (listener_handler (\<lambda>_. True) 3 ''live'' ''peer'' Map.empty (rs_app sample_start))\<rparr>"

lemma sample_run_reach: "server_reach sample_run"
proof -
  have "server_reach sample_start"
    unfolding sample_start_def by (rule reload_run_reach [OF boot_run reach_empty])
  moreover have "app_move (rs_app sample_start)
      (snd (listener_handler (\<lambda>_. True) 3 ''live'' ''peer'' Map.empty (rs_app sample_start)))"
    by (rule move_joins [OF prod.collapse [symmetric]])
  ultimately show ?thesis unfolding sample_run_def by (blast intro: reach_step step_move)
qed

lemma sample_start_app:
  "listener_check ''/live'' (rs_app sample_start) = Inr 0" "lm_next_id (ap_listeners (rs_app sample_start)) = 0"
  "ap_next_token (rs_app sample_start) = 1" "map_option aj_cancel (rs_autodjs sample_start ''/dj'') = Some 0"
  by (simp_all add: sample_start_def boot_server_def boot_mount_def boot_autodj_def on_app_def add_mount_def Let_def
      autodj_spawn_def autodj_insert_def fresh_token_def empty_app_def mount_info_of_def autodj_info_of_def
      listener_check_def find_app_mount_def registry_put_def registry_get_def registry_new_def total_count_def
      listener_map_new_def app_mount_def active_mount_new_def plain_mount_config_def cfg_with_def sample_cfg_def)

lemma sample_run_held: "held sample_run (Listener 0) = Some 1 \<and> held sample_run (AutoDj ''/dj'') = Some 0"
proof -
  obtain ln st where j: "listener_join 3 ''/live'' ''peer'' Map.empty 0 (rs_app sample_start) = (ln, st)" by fastforce
  then have "map_option li_cancel (lm_entries (ap_listeners st) 0) = Some 1"
    by (auto simp: listener_join_def Let_def fresh_token_def listener_register_def sample_start_app split: prod.splits if_splits)
  then show ?thesis
    using j by (simp add: sample_run_def listener_handler_def sample_start_app)
qed

theorem reachable_server_inv_witness:
  "server_inv sample_run \<and> server_reach (snd (apply_config (cfg_with [''/dj''] [''/live'']) sample_run))"
  using reachable_server_inv [OF sample_run_reach] by blast

theorem cancellation_hits_its_target_witness:
  "1 \<in> cancelled (snd (admin_action (\<lambda>_. 8000) 5 (kick_listener 0) (rs_app sample_run))) \<and>
   (0 \<in> cancelled (snd (admin_action (\<lambda>_. 8000) 5 (kick_listener 0) (rs_app sample_run))) \<longleftrightarrow>
      0 \<in> cancelled (rs_app sample_run)) \<and>
   0 \<in> cancelled (rs_app (autodj_cancel ''/dj'' sample_run))"
proof -
  note ln = cancellation_hits_its_target [OF sample_run_reach sample_run_held [THEN conjunct1], where port_of = "\<lambda>_. 8000" and now = 5]
  note dj = cancellation_hits_its_target [OF sample_run_reach sample_run_held [THEN conjunct2], where port_of = "\<lambda>_. 8000" and now = 5]
  show ?thesis using ln dj by blast
qed

end
