(* ===== verification/Config_Doc.thy ===== *)
theory Config_Doc
  imports Core_Types "HOL-Library.AList" "HOL-Library.Monad_Syntax"
begin

text \<open>
  The configuration as a TOML document: the tree the readers and writers work on, and the
  (de)serialisation that the \<open>serde\<close> attributes of \<open>crates/rustyice-core/src/config.rs\<close> declare:
  field names, required and defaulted fields, skipped empty fields, integer widths. Text and tree
  are related by library functions, which are arguments where they are used. A table keeps the
  order of its keys; a table written inline differs from one under a header, because the document
  editor treats them differently.
\<close>

section \<open>Documents\<close>

datatype toml =
  TStr string | TInt int | TBool bool | TOther string
| TTable "(string \<times> toml) list" | TInline "(string \<times> toml) list"
| TTables "(string \<times> toml) list list" | TArray "toml list"

type_synonym table = "(string \<times> toml) list"

fun as_table :: "toml \<Rightarrow> table option" where
  "as_table (TTable t) = Some t"
| "as_table (TInline t) = Some t"
| "as_table _ = None"

fun as_str :: "toml \<Rightarrow> string option" where
  "as_str (TStr s) = Some s"
| "as_str _ = None"

fun as_bool :: "toml \<Rightarrow> bool option" where
  "as_bool (TBool b) = Some b"
| "as_bool _ = None"

text \<open>Integers of TOML are signed, of 64 bits.\<close>

fun as_uint :: "nat \<Rightarrow> toml \<Rightarrow> nat option" where
  "as_uint w (TInt i) = (if 0 \<le> i \<and> i < 2 ^ min w 63 then Some (nat i) else None)"
| "as_uint w _ = None"

fun map_all :: "('a \<Rightarrow> 'b option) \<Rightarrow> 'a list \<Rightarrow> 'b list option" where
  "map_all f [] = Some []"
| "map_all f (x # xs) = do { y \<leftarrow> f x; ys \<leftarrow> map_all f xs; Some (y # ys) }"

fun as_list :: "(table \<Rightarrow> 'a option) \<Rightarrow> toml \<Rightarrow> 'a list option" where
  "as_list f (TTables ts) = map_all f ts"
| "as_list f (TArray xs) = map_all (\<lambda>x. as_table x \<bind> f) xs"
| "as_list f _ = None"

section \<open>Fields\<close>

definition req :: "string \<Rightarrow> (toml \<Rightarrow> 'a option) \<Rightarrow> table \<Rightarrow> 'a option" where
  "req k f t = map_of t k \<bind> f"

definition opt :: "string \<Rightarrow> (toml \<Rightarrow> 'a option) \<Rightarrow> table \<Rightarrow> 'a option option" where
  "opt k f t = (case map_of t k of None \<Rightarrow> Some None | Some v \<Rightarrow> map_option Some (f v))"

definition dflt :: "string \<Rightarrow> 'a \<Rightarrow> (toml \<Rightarrow> 'a option) \<Rightarrow> table \<Rightarrow> 'a option" where
  "dflt k d f t = (case map_of t k of None \<Rightarrow> Some d | Some v \<Rightarrow> f v)"

definition sub :: "(table \<Rightarrow> 'a option) \<Rightarrow> toml \<Rightarrow> 'a option" where
  "sub f x = as_table x \<bind> f"

section \<open>Reading a configuration\<close>

definition format_of_str :: "string \<Rightarrow> transcode_format option" where
  "format_of_str s = (if s = ''mp3'' then Some FmtMp3 else if s = ''vorbis'' then Some FmtVorbis else None)"

definition log_format_of_str :: "string \<Rightarrow> log_format option" where
  "log_format_of_str s = (if s = ''json'' then Some LogJson else if s = ''pretty'' then Some LogPretty else None)"

definition role_of_str :: "string \<Rightarrow> user_role option" where
  "role_of_str s = (if s = ''admin'' then Some RoleAdmin else if s = ''operator'' then Some RoleOperator else None)"

definition order_of_str :: "string \<Rightarrow> play_order option" where
  "order_of_str s = (if s = ''shuffle'' then Some Shuffle else if s = ''sequential'' then Some Sequential else None)"

definition read_transcode :: "table \<Rightarrow> transcode_config option" where
  "read_transcode t = do {
     f \<leftarrow> req ''format'' (\<lambda>x. as_str x \<bind> format_of_str) t;
     r \<leftarrow> req ''sample_rate'' (as_uint 32) t;
     b \<leftarrow> req ''bitrate_kbps'' (as_uint 32) t;
     Some \<lparr>tc_format = f, tc_sample_rate = r, tc_bitrate_kbps = b\<rparr> }"

definition read_server :: "(string \<Rightarrow> socket_addr option) \<Rightarrow> table \<Rightarrow> server_config option" where
  "read_server addr t = do {
     s \<leftarrow> req ''stream_bind'' (\<lambda>x. as_str x \<bind> addr) t;
     a \<leftarrow> req ''admin_bind'' (\<lambda>x. as_str x \<bind> addr) t;
     h \<leftarrow> req ''hostname'' as_str t;
     Some \<lparr>sv_stream_bind = s, sv_admin_bind = a, sv_hostname = h\<rparr> }"

definition read_logging :: "table \<Rightarrow> logging_config option" where
  "read_logging t = do {
     l \<leftarrow> req ''level'' as_str t;
     f \<leftarrow> req ''format'' (\<lambda>x. as_str x \<bind> log_format_of_str) t;
     Some \<lparr>lg_level = l, lg_format = f\<rparr> }"

definition read_user :: "table \<Rightarrow> user_config option" where
  "read_user t = do {
     u \<leftarrow> req ''username'' as_str t;
     p \<leftarrow> req ''password_bcrypt'' as_str t;
     r \<leftarrow> dflt ''role'' default_user_role (\<lambda>x. as_str x \<bind> role_of_str) t;
     Some \<lparr>us_username = u, us_password_bcrypt = p, us_role = r\<rparr> }"

definition read_auth :: "table \<Rightarrow> auth_config option" where
  "read_auth t = do {
     us \<leftarrow> dflt ''users'' [] (as_list read_user) t;
     p \<leftarrow> opt ''source_password'' as_str t;
     Some \<lparr>au_users = us, au_source_password = p\<rparr> }"

definition read_limits :: "table \<Rightarrow> limits_config option" where
  "read_limits t = do {
     m \<leftarrow> req ''max_listeners_global'' (as_uint 32) t;
     r \<leftarrow> req ''ring_size'' (as_uint 64) t;
     g \<leftarrow> req ''slow_listener_grace_s'' (as_uint 64) t;
     k \<leftarrow> opt ''source_max_kbps'' (as_uint 32) t;
     b \<leftarrow> dflt ''burst_size'' default_burst_size (as_uint 32) t;
     Some \<lparr>lm_max_listeners_global = m, lm_ring_size = r, lm_slow_listener_grace_s = g,
           lm_source_max_kbps = k, lm_burst_size = b\<rparr> }"

definition read_mount :: "table \<Rightarrow> mount_config option" where
  "read_mount t = do {
     p \<leftarrow> req ''path'' as_str t;
     w \<leftarrow> req ''source_password'' as_str t;
     l \<leftarrow> opt ''max_listeners'' (as_uint 32) t;
     n \<leftarrow> opt ''name'' as_str t;
     d \<leftarrow> opt ''description'' as_str t;
     g \<leftarrow> opt ''genre'' as_str t;
     u \<leftarrow> opt ''url'' as_str t;
     c \<leftarrow> opt ''transcode'' (sub read_transcode) t;
     b \<leftarrow> opt ''burst_size'' (as_uint 32) t;
     Some \<lparr>mc_path = p, mc_source_password = w, mc_max_listeners = l, mc_name = n, mc_description = d,
           mc_genre = g, mc_url = u, mc_transcode = c, mc_burst_size = b\<rparr> }"

definition read_autodj :: "table \<Rightarrow> autodj_config option" where
  "read_autodj t = do {
     m \<leftarrow> req ''mount'' as_str t;
     f \<leftarrow> req ''folder'' as_str t;
     n \<leftarrow> opt ''name'' as_str t;
     d \<leftarrow> opt ''description'' as_str t;
     g \<leftarrow> opt ''genre'' as_str t;
     u \<leftarrow> opt ''url'' as_str t;
     e \<leftarrow> dflt ''enabled'' True as_bool t;
     p \<leftarrow> dflt ''loop'' True as_bool t;
     r \<leftarrow> dflt ''order'' default_order (\<lambda>x. as_str x \<bind> order_of_str) t;
     l \<leftarrow> opt ''max_listeners'' (as_uint 32) t;
     b \<leftarrow> opt ''burst_size'' (as_uint 32) t;
     c \<leftarrow> req ''transcode'' (sub read_transcode) t;
     Some \<lparr>ad_mount = m, ad_folder = f, ad_name = n, ad_description = d, ad_genre = g, ad_url = u,
           ad_enabled = e, ad_loop_playlist = p, ad_order = r, ad_max_listeners = l, ad_burst_size = b,
           ad_transcode = c\<rparr> }"

definition read_relay :: "table \<Rightarrow> relay_config option" where
  "read_relay t = do {
     m \<leftarrow> req ''mount'' as_str t;
     f \<leftarrow> req ''upstream'' as_str t;
     n \<leftarrow> opt ''name'' as_str t;
     d \<leftarrow> opt ''description'' as_str t;
     g \<leftarrow> opt ''genre'' as_str t;
     u \<leftarrow> opt ''url'' as_str t;
     e \<leftarrow> dflt ''enabled'' True as_bool t;
     un \<leftarrow> opt ''username'' as_str t;
     pw \<leftarrow> opt ''password'' as_str t;
     l \<leftarrow> opt ''max_listeners'' (as_uint 32) t;
     b \<leftarrow> opt ''burst_size'' (as_uint 32) t;
     c \<leftarrow> opt ''transcode'' (sub read_transcode) t;
     Some \<lparr>rc_mount = m, rc_upstream = f, rc_name = n, rc_description = d, rc_genre = g, rc_url = u,
           rc_enabled = e, rc_username = un, rc_password = pw, rc_max_listeners = l, rc_burst_size = b,
           rc_transcode = c\<rparr> }"

definition read_tls :: "table \<Rightarrow> tls_config option" where
  "read_tls t = do {
     a \<leftarrow> opt ''acme_domain'' as_str t;
     c \<leftarrow> opt ''cert_cache_dir'' as_str t;
     Some \<lparr>tl_acme_domain = a, tl_cert_cache_dir = c\<rparr> }"

definition read_config :: "(string \<Rightarrow> socket_addr option) \<Rightarrow> table \<Rightarrow> config option" where
  "read_config addr t = do {
     sv \<leftarrow> req ''server'' (sub (read_server addr)) t;
     lg \<leftarrow> req ''logging'' (sub read_logging) t;
     au \<leftarrow> req ''auth'' (sub read_auth) t;
     lm \<leftarrow> req ''limits'' (sub read_limits) t;
     ms \<leftarrow> dflt ''mounts'' [] (as_list read_mount) t;
     ads \<leftarrow> dflt ''autodjs'' [] (as_list read_autodj) t;
     rls \<leftarrow> dflt ''relays'' [] (as_list read_relay) t;
     tl \<leftarrow> opt ''tls'' (sub read_tls) t;
     tc \<leftarrow> opt ''transcode'' (sub read_transcode) t;
     Some \<lparr>cf_server = sv, cf_logging = lg, cf_auth = au, cf_limits = lm, cf_mounts = ms, cf_autodjs = ads,
           cf_relays = rls, cf_tls = tl, cf_transcode = tc\<rparr> }"

section \<open>Writing a configuration\<close>

fun format_str :: "transcode_format \<Rightarrow> string" where
  "format_str FmtMp3 = ''mp3''"
| "format_str FmtVorbis = ''vorbis''"

fun log_format_str :: "log_format \<Rightarrow> string" where
  "log_format_str LogJson = ''json''"
| "log_format_str LogPretty = ''pretty''"

fun user_role_str :: "user_role \<Rightarrow> string" where
  "user_role_str RoleAdmin = ''admin''"
| "user_role_str RoleOperator = ''operator''"

fun order_str :: "play_order \<Rightarrow> string" where
  "order_str Shuffle = ''shuffle''"
| "order_str Sequential = ''sequential''"

definition fld :: "string \<Rightarrow> toml \<Rightarrow> table" where
  "fld k v = [(k, v)]"

definition ofld :: "string \<Rightarrow> ('a \<Rightarrow> toml) \<Rightarrow> 'a option \<Rightarrow> table" where
  "ofld k f x = (case x of None \<Rightarrow> [] | Some v \<Rightarrow> [(k, f v)])"

definition tnat :: "nat \<Rightarrow> toml" where
  "tnat n = TInt (int n)"

definition transcode_table :: "transcode_config \<Rightarrow> table" where
  "transcode_table c =
     fld ''format'' (TStr (format_str (tc_format c))) @ fld ''sample_rate'' (tnat (tc_sample_rate c)) @
     fld ''bitrate_kbps'' (tnat (tc_bitrate_kbps c))"

definition server_table :: "server_config \<Rightarrow> table" where
  "server_table c =
     fld ''stream_bind'' (TStr (sv_stream_bind c)) @ fld ''admin_bind'' (TStr (sv_admin_bind c)) @
     fld ''hostname'' (TStr (sv_hostname c))"

definition logging_table :: "logging_config \<Rightarrow> table" where
  "logging_table c = fld ''level'' (TStr (lg_level c)) @ fld ''format'' (TStr (log_format_str (lg_format c)))"

definition user_table :: "user_config \<Rightarrow> table" where
  "user_table c =
     fld ''username'' (TStr (us_username c)) @ fld ''password_bcrypt'' (TStr (us_password_bcrypt c)) @
     fld ''role'' (TStr (user_role_str (us_role c)))"

definition auth_table :: "auth_config \<Rightarrow> table" where
  "auth_table c = fld ''users'' (TTables (map user_table (au_users c))) @ ofld ''source_password'' TStr (au_source_password c)"

definition limits_table :: "limits_config \<Rightarrow> table" where
  "limits_table c =
     fld ''max_listeners_global'' (tnat (lm_max_listeners_global c)) @ fld ''ring_size'' (tnat (lm_ring_size c)) @
     fld ''slow_listener_grace_s'' (tnat (lm_slow_listener_grace_s c)) @
     ofld ''source_max_kbps'' tnat (lm_source_max_kbps c) @ fld ''burst_size'' (tnat (lm_burst_size c))"

definition mount_table :: "mount_config \<Rightarrow> table" where
  "mount_table c =
     fld ''path'' (TStr (mc_path c)) @ fld ''source_password'' (TStr (mc_source_password c)) @
     ofld ''max_listeners'' tnat (mc_max_listeners c) @ ofld ''name'' TStr (mc_name c) @
     ofld ''description'' TStr (mc_description c) @ ofld ''genre'' TStr (mc_genre c) @ ofld ''url'' TStr (mc_url c) @
     ofld ''transcode'' (\<lambda>x. TTable (transcode_table x)) (mc_transcode c) @ ofld ''burst_size'' tnat (mc_burst_size c)"

definition autodj_table :: "autodj_config \<Rightarrow> table" where
  "autodj_table c =
     fld ''mount'' (TStr (ad_mount c)) @ fld ''folder'' (TStr (ad_folder c)) @ ofld ''name'' TStr (ad_name c) @
     ofld ''description'' TStr (ad_description c) @ ofld ''genre'' TStr (ad_genre c) @ ofld ''url'' TStr (ad_url c) @
     fld ''enabled'' (TBool (ad_enabled c)) @ fld ''loop'' (TBool (ad_loop_playlist c)) @
     fld ''order'' (TStr (order_str (ad_order c))) @ ofld ''max_listeners'' tnat (ad_max_listeners c) @
     ofld ''burst_size'' tnat (ad_burst_size c) @ fld ''transcode'' (TTable (transcode_table (ad_transcode c)))"

definition relay_table :: "relay_config \<Rightarrow> table" where
  "relay_table c =
     fld ''mount'' (TStr (rc_mount c)) @ fld ''upstream'' (TStr (rc_upstream c)) @ ofld ''name'' TStr (rc_name c) @
     ofld ''description'' TStr (rc_description c) @ ofld ''genre'' TStr (rc_genre c) @ ofld ''url'' TStr (rc_url c) @
     fld ''enabled'' (TBool (rc_enabled c)) @ ofld ''username'' TStr (rc_username c) @
     ofld ''password'' TStr (rc_password c) @ ofld ''max_listeners'' tnat (rc_max_listeners c) @
     ofld ''burst_size'' tnat (rc_burst_size c) @
     ofld ''transcode'' (\<lambda>x. TTable (transcode_table x)) (rc_transcode c)"

definition tls_table :: "tls_config \<Rightarrow> table" where
  "tls_table c = ofld ''acme_domain'' TStr (tl_acme_domain c) @ ofld ''cert_cache_dir'' TStr (tl_cert_cache_dir c)"

text \<open>\<open>mounts\<close> is written even when empty; \<open>autodjs\<close> and \<open>relays\<close> are skipped.\<close>

definition lfld :: "string \<Rightarrow> table list \<Rightarrow> table" where
  "lfld k ts = (if ts = [] then [] else [(k, TTables ts)])"

definition config_table :: "config \<Rightarrow> table" where
  "config_table c =
     fld ''server'' (TTable (server_table (cf_server c))) @ fld ''logging'' (TTable (logging_table (cf_logging c))) @
     fld ''auth'' (TTable (auth_table (cf_auth c))) @ fld ''limits'' (TTable (limits_table (cf_limits c))) @
     fld ''mounts'' (TTables (map mount_table (cf_mounts c))) @ lfld ''autodjs'' (map autodj_table (cf_autodjs c)) @
     lfld ''relays'' (map relay_table (cf_relays c)) @ ofld ''tls'' (\<lambda>x. TTable (tls_table x)) (cf_tls c) @
     ofld ''transcode'' (\<lambda>x. TTable (transcode_table x)) (cf_transcode c)"

section \<open>What is written is read back\<close>

text \<open>The integers fit their Rust types, and the 64-bit ones the signed integers of TOML.\<close>

definition transcode_fits :: "transcode_config \<Rightarrow> bool" where
  "transcode_fits c \<longleftrightarrow> tc_sample_rate c < 2 ^ 32 \<and> tc_bitrate_kbps c < 2 ^ 32"

definition limits_fits :: "limits_config \<Rightarrow> bool" where
  "limits_fits c \<longleftrightarrow>
     lm_max_listeners_global c < 2 ^ 32 \<and> lm_ring_size c < 2 ^ 63 \<and> lm_slow_listener_grace_s c < 2 ^ 63 \<and>
     pred_option (\<lambda>n. n < 2 ^ 32) (lm_source_max_kbps c) \<and> lm_burst_size c < 2 ^ 32"

definition mount_fits :: "mount_config \<Rightarrow> bool" where
  "mount_fits c \<longleftrightarrow> pred_option (\<lambda>n. n < 2 ^ 32) (mc_max_listeners c) \<and> pred_option (\<lambda>n. n < 2 ^ 32) (mc_burst_size c) \<and>
     pred_option transcode_fits (mc_transcode c)"

definition autodj_fits :: "autodj_config \<Rightarrow> bool" where
  "autodj_fits c \<longleftrightarrow> pred_option (\<lambda>n. n < 2 ^ 32) (ad_max_listeners c) \<and> pred_option (\<lambda>n. n < 2 ^ 32) (ad_burst_size c) \<and>
     transcode_fits (ad_transcode c)"

definition relay_fits :: "relay_config \<Rightarrow> bool" where
  "relay_fits c \<longleftrightarrow> pred_option (\<lambda>n. n < 2 ^ 32) (rc_max_listeners c) \<and> pred_option (\<lambda>n. n < 2 ^ 32) (rc_burst_size c) \<and>
     pred_option transcode_fits (rc_transcode c)"

definition server_addrs_ok :: "(string \<Rightarrow> socket_addr option) \<Rightarrow> server_config \<Rightarrow> bool" where
  "server_addrs_ok addr c \<longleftrightarrow> addr (sv_stream_bind c) = Some (sv_stream_bind c) \<and> addr (sv_admin_bind c) = Some (sv_admin_bind c)"

definition config_fits :: "(string \<Rightarrow> socket_addr option) \<Rightarrow> config \<Rightarrow> bool" where
  "config_fits addr c \<longleftrightarrow>
     server_addrs_ok addr (cf_server c) \<and> limits_fits (cf_limits c) \<and> (\<forall>m\<in>set (cf_mounts c). mount_fits m) \<and>
     (\<forall>a\<in>set (cf_autodjs c). autodj_fits a) \<and> (\<forall>r\<in>set (cf_relays c). relay_fits r) \<and>
     pred_option transcode_fits (cf_transcode c)"

named_theorems doc_simps "lookup of the fields of a written table"

lemma map_of_fields [doc_simps]:
  "k' \<noteq> k \<Longrightarrow> map_of (fld k v) k' = None" "k' \<noteq> k \<Longrightarrow> map_of (fld k v @ t) k' = map_of t k'"
  "k' \<noteq> k \<Longrightarrow> map_of (ofld k f x) k' = None" "k' \<noteq> k \<Longrightarrow> map_of (ofld k f x @ t) k' = map_of t k'"
  "k' \<noteq> k \<Longrightarrow> map_of (lfld k ts) k' = None" "k' \<noteq> k \<Longrightarrow> map_of (lfld k ts @ t) k' = map_of t k'"
  by (auto simp: fld_def ofld_def lfld_def split: option.splits)

lemma read_skip [doc_simps]:
  assumes "k' \<noteq> k"
  shows "opt k g (fld k' v @ t) = opt k g t" "opt k g (ofld k' f x @ t) = opt k g t" "opt k g (lfld k' ts @ t) = opt k g t"
    and "req k g (fld k' v @ t) = req k g t" "req k g (ofld k' f x @ t) = req k g t" "req k g (lfld k' ts @ t) = req k g t"
    and "dflt k d g (fld k' v @ t) = dflt k d g t" "dflt k d g (ofld k' f x @ t) = dflt k d g t"
    and "dflt k d g (lfld k' ts @ t) = dflt k d g t"
  using assms by (auto simp: opt_def req_def dflt_def fld_def ofld_def lfld_def split: option.splits)

lemma read_here [doc_simps]:
  "req k g (fld k v @ t) = g v" "req k g (fld k v) = g v"
  "dflt k d g (fld k v @ t) = g v" "dflt k d g (fld k v) = g v"
  by (simp_all add: req_def dflt_def fld_def)

lemma opt_here [doc_simps]:
  assumes "pred_option (\<lambda>y. g (f y) = Some y) x"
  shows "opt k g (ofld k f x) = Some x" "map_of t k = None \<Longrightarrow> opt k g (ofld k f x @ t) = Some x"
  using assms by (auto simp: opt_def ofld_def split: option.splits)

lemma dflt_list [doc_simps]:
  assumes "map_all f ts = Some xs" and "map_of t k = None"
  shows "dflt k [] (as_list f) (lfld k ts @ t) = Some xs"
  using assms by (auto simp: dflt_def lfld_def)

lemma as_uint_tnat [doc_simps]: "as_uint w (tnat n) = (if n < 2 ^ min w 63 then Some n else None)"
proof -
  have "int n < 2 ^ w \<longleftrightarrow> n < 2 ^ w"
    by (metis of_nat_less_iff of_nat_numeral of_nat_power)
  then show ?thesis
    by (simp add: tnat_def)
qed

lemma enum_of_str_defs:
  "format_of_str ''mp3'' = Some FmtMp3" "format_of_str ''vorbis'' = Some FmtVorbis"
  "log_format_of_str ''json'' = Some LogJson" "log_format_of_str ''pretty'' = Some LogPretty"
  "role_of_str ''admin'' = Some RoleAdmin" "role_of_str ''operator'' = Some RoleOperator"
  "order_of_str ''shuffle'' = Some Shuffle" "order_of_str ''sequential'' = Some Sequential"
  by (simp_all add: format_of_str_def log_format_of_str_def role_of_str_def order_of_str_def)

lemma enum_of_str [doc_simps]:
  "format_of_str (format_str f) = Some f" "log_format_of_str (log_format_str l) = Some l"
  "role_of_str (user_role_str r) = Some r" "order_of_str (order_str p) = Some p"
  subgoal by (cases f) (simp_all add: enum_of_str_defs)
  subgoal by (cases l) (simp_all add: enum_of_str_defs)
  subgoal by (cases r) (simp_all add: enum_of_str_defs)
  subgoal by (cases p) (simp_all add: enum_of_str_defs)
  done

lemma map_all_map: "(\<And>x. x \<in> set xs \<Longrightarrow> f (g x) = Some x) \<Longrightarrow> map_all f (map g xs) = Some xs"
  by (induction xs) auto

lemma pred_option_True [doc_simps]: "pred_option (\<lambda>_. True) x"
  by (simp add: option.pred_True)

lemma read_transcode_table [doc_simps]:
  "read_transcode (transcode_table c) = (if transcode_fits c then Some c else None)"
  by (cases "tc_sample_rate c < 2 ^ 32"; cases "tc_bitrate_kbps c < 2 ^ 32")
    (simp_all add: read_transcode_def transcode_table_def transcode_fits_def doc_simps)

lemma sub_transcode_table [doc_simps]:
  "sub read_transcode (TTable (transcode_table c)) = Some c \<longleftrightarrow> transcode_fits c"
  by (simp add: sub_def doc_simps)

lemma read_server_table: "server_addrs_ok addr c \<Longrightarrow> read_server addr (server_table c) = Some c"
  by (simp add: read_server_def server_table_def server_addrs_ok_def doc_simps)

lemma read_logging_table: "read_logging (logging_table c) = Some c"
  by (simp add: read_logging_def logging_table_def doc_simps)

lemma read_user_table: "read_user (user_table c) = Some c"
  by (simp add: read_user_def user_table_def doc_simps)

lemma read_auth_table: "read_auth (auth_table c) = Some c"
  by (simp add: read_auth_def auth_table_def doc_simps map_all_map read_user_table)

lemma read_limits_table: "limits_fits c \<Longrightarrow> read_limits (limits_table c) = Some c"
  by (simp add: read_limits_def limits_table_def limits_fits_def doc_simps)

lemma read_mount_table: "mount_fits c \<Longrightarrow> read_mount (mount_table c) = Some c"
  by (simp add: read_mount_def mount_table_def mount_fits_def doc_simps)

lemma read_autodj_table: "autodj_fits c \<Longrightarrow> read_autodj (autodj_table c) = Some c"
  by (simp add: read_autodj_def autodj_table_def autodj_fits_def doc_simps sub_def)

lemma read_relay_table: "relay_fits c \<Longrightarrow> read_relay (relay_table c) = Some c"
  by (simp add: read_relay_def relay_table_def relay_fits_def doc_simps)

lemma read_tls_table: "read_tls (tls_table c) = Some c"
  by (simp add: read_tls_def tls_table_def doc_simps)

lemma read_config_table:
  assumes "config_fits addr cfg"
  shows "read_config addr (config_table cfg) = Some cfg"
proof -
  have "map_all read_mount (map mount_table (cf_mounts cfg)) = Some (cf_mounts cfg)"
    and "map_all read_autodj (map autodj_table (cf_autodjs cfg)) = Some (cf_autodjs cfg)"
    and "map_all read_relay (map relay_table (cf_relays cfg)) = Some (cf_relays cfg)"
    using assms read_mount_table read_autodj_table read_relay_table
    by (auto simp: config_fits_def intro!: map_all_map)
  then show ?thesis
    using assms read_server_table read_limits_table unfolding config_fits_def
    by (simp add: read_config_def config_table_def doc_simps sub_def read_logging_table read_auth_table read_tls_table)
qed

text \<open>
  Writing a configuration and reading it back gives the same configuration, for every
  configuration whose 64-bit limits fit the signed integers of TOML.
\<close>

theorem config_roundtrip:
  assumes "config_fits addr cfg"
  shows "read_config addr (config_table cfg) = Some cfg"
  using assms by (rule read_config_table)

section \<open>What can be read\<close>

lemma map_all_iff: "map_all f xs = Some ys \<longleftrightarrow> list_all2 (\<lambda>x y. f x = Some y) xs ys"
  by (induction xs arbitrary: ys) (auto simp: list_all2_Cons1 Option.bind_eq_Some_conv)

lemma map_all_set: "map_all f xs = Some ys \<Longrightarrow> y \<in> set ys \<Longrightarrow> \<exists>x. f x = Some y"
  by (auto simp: map_all_iff list_all2_conv_all_nth in_set_conv_nth)

lemma as_list_set: "as_list f x = Some ys \<Longrightarrow> y \<in> set ys \<Longrightarrow> \<exists>t. f t = Some y"
  by (cases x) (auto dest!: map_all_set simp: Option.bind_eq_Some_conv)

lemma as_uint_fits: "as_uint w x = Some n \<Longrightarrow> n < 2 ^ min w 63"
  by (cases x) (auto split: if_splits simp: nat_less_iff)

lemma field_SomeD:
  "req k f t = Some v \<Longrightarrow> \<exists>x. f x = Some v"
  "opt k f t = Some u \<Longrightarrow> pred_option (\<lambda>v. \<exists>x. f x = Some v) u"
  "dflt k d f t = Some v \<Longrightarrow> v = d \<or> (\<exists>x. f x = Some v)"
  by (auto simp: req_def opt_def dflt_def Option.bind_eq_Some_conv split: option.splits)

lemma sub_SomeD: "sub f x = Some v \<Longrightarrow> \<exists>t. f t = Some v"
  by (auto simp: sub_def Option.bind_eq_Some_conv)

lemma uint_fields:
  "req k (as_uint w) t = Some n \<Longrightarrow> n < 2 ^ min w 63"
  "opt k (as_uint w) t = Some u \<Longrightarrow> pred_option (\<lambda>n. n < 2 ^ min w 63) u"
  "dflt k d (as_uint w) t = Some n \<Longrightarrow> d < 2 ^ min w 63 \<Longrightarrow> n < 2 ^ min w 63"
  by (auto dest!: field_SomeD dest: as_uint_fits elim: option.pred_mono_strong)

lemma read_transcode_fits: "read_transcode t = Some c \<Longrightarrow> transcode_fits c"
  by (auto simp: read_transcode_def transcode_fits_def Option.bind_eq_Some_conv dest!: uint_fields)

lemma opt_transcode_fits: "opt k (sub read_transcode) t = Some u \<Longrightarrow> pred_option transcode_fits u"
  by (auto dest!: field_SomeD(2) dest: sub_SomeD read_transcode_fits elim!: option.pred_mono_strong)

lemma req_transcode_fits: "req k (sub read_transcode) t = Some c \<Longrightarrow> transcode_fits c"
  by (auto dest!: field_SomeD(1) sub_SomeD intro: read_transcode_fits)

lemma read_limits_fits: "read_limits t = Some c \<Longrightarrow> limits_fits c"
  by (auto simp: read_limits_def limits_fits_def default_burst_size_def Option.bind_eq_Some_conv dest!: uint_fields)

lemma read_mount_fits: "read_mount t = Some c \<Longrightarrow> mount_fits c"
  by (auto simp: read_mount_def mount_fits_def Option.bind_eq_Some_conv dest!: uint_fields opt_transcode_fits)

lemma read_autodj_fits: "read_autodj t = Some c \<Longrightarrow> autodj_fits c"
  by (auto simp: read_autodj_def autodj_fits_def Option.bind_eq_Some_conv dest!: uint_fields req_transcode_fits)

lemma read_relay_fits: "read_relay t = Some c \<Longrightarrow> relay_fits c"
  by (auto simp: read_relay_def relay_fits_def Option.bind_eq_Some_conv dest!: uint_fields opt_transcode_fits)

lemma dflt_list_fits:
  "dflt k [] (as_list f) t = Some xs \<Longrightarrow> x \<in> set xs \<Longrightarrow> \<exists>t. f t = Some x"
  by (auto dest!: field_SomeD(3) as_list_set)

lemma read_config_fits:
  assumes addr: "\<And>s a. addr s = Some a \<Longrightarrow> addr a = Some a" and c: "read_config addr t = Some c"
  shows "config_fits addr c"
proof -
  have "server_addrs_ok addr s" if "read_server addr u = Some s" for u s
    using that addr by (auto simp: read_server_def server_addrs_ok_def Option.bind_eq_Some_conv dest!: field_SomeD(1))
  then have "server_addrs_ok addr (cf_server c)"
    using c by (auto simp: read_config_def Option.bind_eq_Some_conv dest!: field_SomeD(1) sub_SomeD)
  moreover have "limits_fits (cf_limits c)"
    using c by (auto simp: read_config_def Option.bind_eq_Some_conv dest!: field_SomeD(1) sub_SomeD dest: read_limits_fits)
  moreover have "pred_option transcode_fits (cf_transcode c)"
    using c by (auto simp: read_config_def Option.bind_eq_Some_conv dest: opt_transcode_fits)
  moreover have "\<forall>m\<in>set (cf_mounts c). mount_fits m"
    using c by (auto simp: read_config_def Option.bind_eq_Some_conv dest!: dflt_list_fits dest: read_mount_fits)
  moreover have "\<forall>a\<in>set (cf_autodjs c). autodj_fits a"
    using c by (auto simp: read_config_def Option.bind_eq_Some_conv dest!: dflt_list_fits dest: read_autodj_fits)
  moreover have "\<forall>r\<in>set (cf_relays c). relay_fits r"
    using c by (auto simp: read_config_def Option.bind_eq_Some_conv dest!: dflt_list_fits dest: read_relay_fits)
  ultimately show ?thesis
    by (simp add: config_fits_def)
qed

text \<open>
  Claim C30. Reading a file types it: the configurations that some file yields are exactly those
  whose integers fit their Rust types (and the signed 64 bits of TOML) and whose addresses are in
  the form the address parser prints, and each of them is what its own written form yields.
\<close>

theorem readable_configs_typed:
  assumes "\<forall>s a. addr s = Some a \<longrightarrow> addr a = Some a"
  shows "((\<exists>t. read_config addr t = Some c) \<longleftrightarrow> config_fits addr c) \<and>
    (config_fits addr c \<longleftrightarrow> read_config addr (config_table c) = Some c)"
  using read_config_fits [of addr] read_config_table [of addr c] assms by blast

end
