(* ===== verification/Config_Write.thy ===== *)
theory Config_Write
  imports Config_Doc
begin

text \<open>
  \<open>crates/rustyice-admin/src/config_write.rs\<close>: the patches of the configuration editors, their
  validation, their application to the document, and the atomic replacement of the file. A panic of
  the code (indexing a value that is no table, \<open>expect\<close>) is \<open>None\<close>.
\<close>

section \<open>Patches\<close>

record server_sub_patch =
  svp_stream_bind :: socket_addr
  svp_admin_bind :: socket_addr
  svp_hostname :: string

record logging_sub_patch =
  lgp_level :: string
  lgp_format :: string

record limits_sub_patch =
  lmp_max_listeners_global :: nat
  lmp_ring_size :: nat
  lmp_slow_listener_grace_s :: nat
  lmp_burst_size :: nat
  lmp_source_max_kbps :: "nat option"

record auth_sub_patch =
  aup_source_password :: "string option"

record server_patch =
  svp_server :: server_sub_patch
  svp_logging :: logging_sub_patch
  svp_limits :: limits_sub_patch
  svp_auth :: "auth_sub_patch option"

record transcode_sub_patch =
  tcp_format :: string
  tcp_sample_rate :: nat
  tcp_bitrate_kbps :: nat

record mount_sub_patch =
  mtp_path :: string
  mtp_source_password :: string
  mtp_max_listeners :: "nat option"
  mtp_name :: "string option"
  mtp_description :: "string option"
  mtp_genre :: "string option"
  mtp_url :: "string option"
  mtp_burst_size :: "nat option"
  mtp_transcode :: "transcode_sub_patch option"

record user_sub_patch =
  usp_username :: string
  usp_password_bcrypt :: string
  usp_role :: string

record autodj_sub_patch =
  djp_mount :: string
  djp_folder :: string
  djp_enabled :: bool
  djp_loop_playlist :: bool
  djp_order :: string
  djp_name :: "string option"
  djp_description :: "string option"
  djp_genre :: "string option"
  djp_url :: "string option"
  djp_max_listeners :: "nat option"
  djp_burst_size :: "nat option"
  djp_transcode :: transcode_sub_patch

record relay_sub_patch =
  rlp_mount :: string
  rlp_upstream :: string
  rlp_enabled :: bool
  rlp_name :: "string option"
  rlp_description :: "string option"
  rlp_genre :: "string option"
  rlp_url :: "string option"
  rlp_username :: "string option"
  rlp_password :: "string option"
  rlp_max_listeners :: "nat option"
  rlp_burst_size :: "nat option"
  rlp_transcode :: "transcode_sub_patch option"

text \<open>
  The bodies \<open>TranscodePatch\<close>, \<open>MountsPatch\<close>, \<open>UsersPatch\<close>, \<open>AutoDjsPatch\<close> and \<open>RelaysPatch\<close> have one
  field each; a patch is one of the six.
\<close>

datatype section_patch =
  ServerPatch server_patch
| TranscodePatch "transcode_sub_patch option"
| MountsPatch "mount_sub_patch list"
| UsersPatch "user_sub_patch list"
| AutoDjsPatch "autodj_sub_patch list"
| RelaysPatch "relay_sub_patch list"

datatype write_error = Validate string string | WriteIo string | WriteParse string

section \<open>Validation\<close>

definition max_burst :: nat where
  "max_burst = 16 * 1024 * 1024"

definition burst_message :: string where
  "burst_message = ''must be <= '' @ show_nat max_burst @ '' bytes (16 MiB)''"

definition quoted :: "string \<Rightarrow> string" where
  "quoted s = [CHR 0x22] @ s @ [CHR 0x22]"

definition validate_server_patch :: "server_patch \<Rightarrow> write_error + unit" where
  "validate_server_patch p =
     (if lmp_ring_size (svp_limits p) = 0 then Inl (Validate ''limits.ring_size'' ''must be greater than 0'')
      else if lmp_max_listeners_global (svp_limits p) = 0 then
        Inl (Validate ''limits.max_listeners_global'' ''must be greater than 0'')
      else if lmp_burst_size (svp_limits p) > max_burst then Inl (Validate ''limits.burst_size'' burst_message)
      else if lgp_format (svp_logging p) \<noteq> ''pretty'' \<and> lgp_format (svp_logging p) \<noteq> ''json'' then
        Inl (Validate ''logging.format'' (''must be '' @ quoted ''pretty'' @ '' or '' @ quoted ''json''))
      else if trim (svp_hostname (svp_server p)) = [] then Inl (Validate ''server.hostname'' ''must be non-empty'')
      else if trim (lgp_level (svp_logging p)) = [] then Inl (Validate ''logging.level'' ''must be non-empty'')
      else Inr ())"

definition validate_transcode_patch :: "transcode_sub_patch option \<Rightarrow> write_error + unit" where
  "validate_transcode_patch p =
     (case p of
        None \<Rightarrow> Inr ()
      | Some tc \<Rightarrow>
          (if tcp_format tc \<noteq> ''mp3'' \<and> tcp_format tc \<noteq> ''vorbis'' then
             Inl (Validate ''transcode.format'' (''must be '' @ quoted ''mp3'' @ '' or '' @ quoted ''vorbis''))
           else if tcp_sample_rate tc = 0 then Inl (Validate ''transcode.sample_rate'' ''must be greater than 0'')
           else if tcp_sample_rate tc > 192000 then Inl (Validate ''transcode.sample_rate'' ''must be <= 192000 Hz'')
           else if tcp_bitrate_kbps tc = 0 then Inl (Validate ''transcode.bitrate_kbps'' ''must be greater than 0'')
           else if tcp_bitrate_kbps tc > 512 then Inl (Validate ''transcode.bitrate_kbps'' ''must be <= 512 kbps'')
           else Inr ()))"

text \<open>The error of a nested transcode block, under the path of its entry.\<close>

definition nested_transcode_error :: "string \<Rightarrow> transcode_sub_patch option \<Rightarrow> write_error option" where
  "nested_transcode_error pre tc =
     (case validate_transcode_patch tc of
        Inl (Validate field message) \<Rightarrow>
          Some (Validate (pre @ ''.transcode.'' @ unwrap_or (strip_prefix ''transcode.'' field) field) message)
      | _ \<Rightarrow> None)"

definition indexed :: "string \<Rightarrow> nat \<Rightarrow> string" where
  "indexed section idx = section @ ''['' @ show_nat idx @ '']''"

text \<open>The two checks on limits that mounts, AutoDJs and relays share.\<close>

definition entry_limits_error :: "string \<Rightarrow> nat option \<Rightarrow> nat option \<Rightarrow> write_error option" where
  "entry_limits_error pre max_listeners burst =
     (if max_listeners = Some 0 then Some (Validate (pre @ ''.max_listeners'') ''must be greater than 0 when set'')
      else (case burst of
              Some b \<Rightarrow> if b > max_burst then Some (Validate (pre @ ''.burst_size'') burst_message) else None
            | None \<Rightarrow> None))"

fun validate_mounts_from :: "nat \<Rightarrow> string set \<Rightarrow> mount_sub_patch list \<Rightarrow> write_error + unit" where
  "validate_mounts_from idx seen [] = Inr ()"
| "validate_mounts_from idx seen (m # ms) =
     (let pre = indexed ''mounts'' idx in
      if trim (mtp_path m) = [] then Inl (Validate (pre @ ''.path'') ''must be non-empty'')
      else if \<not> starts_with (mtp_path m) ''/'' then Inl (Validate (pre @ ''.path'') (''must start with '' @ quoted ''/''))
      else if mtp_path m \<in> seen then Inl (Validate (pre @ ''.path'') (''duplicate mount path: '' @ mtp_path m))
      else if trim (mtp_source_password m) = [] then Inl (Validate (pre @ ''.source_password'') ''must be non-empty'')
      else (case entry_limits_error pre (mtp_max_listeners m) (mtp_burst_size m) of
              Some e \<Rightarrow> Inl e
            | None \<Rightarrow>
                (case nested_transcode_error pre (mtp_transcode m) of
                   Some e \<Rightarrow> Inl e
                 | None \<Rightarrow> validate_mounts_from (Suc idx) (insert (mtp_path m) seen) ms)))"

definition validate_mounts_patch :: "mount_sub_patch list \<Rightarrow> write_error + unit" where
  "validate_mounts_patch ms = validate_mounts_from 0 {} ms"

fun validate_users_from :: "nat \<Rightarrow> string set \<Rightarrow> user_sub_patch list \<Rightarrow> write_error + unit" where
  "validate_users_from idx seen [] = Inr ()"
| "validate_users_from idx seen (u # us) =
     (let pre = indexed ''users'' idx in
      if trim (usp_username u) = [] then Inl (Validate (pre @ ''.username'') ''must be non-empty'')
      else if usp_username u \<in> seen then Inl (Validate (pre @ ''.username'') (''duplicate username: '' @ usp_username u))
      else if usp_password_bcrypt u = [] then Inl (Validate (pre @ ''.password'') ''must be set when creating a user'')
      else if usp_role u \<noteq> ''admin'' \<and> usp_role u \<noteq> ''operator'' then
        Inl (Validate (pre @ ''.role'') (''must be '' @ quoted ''admin'' @ '' or '' @ quoted ''operator''))
      else validate_users_from (Suc idx) (insert (usp_username u) seen) us)"

definition validate_users_patch :: "user_sub_patch list \<Rightarrow> write_error + unit" where
  "validate_users_patch us =
     (case validate_users_from 0 {} us of
        Inl e \<Rightarrow> Inl e
      | Inr _ \<Rightarrow>
          if list_ex (\<lambda>u. usp_role u = ''admin'') us then Inr ()
          else Inl (Validate ''users'' ''at least one user must have the admin role''))"

fun validate_autodjs_from :: "nat \<Rightarrow> string set \<Rightarrow> autodj_sub_patch list \<Rightarrow> write_error + unit" where
  "validate_autodjs_from idx seen [] = Inr ()"
| "validate_autodjs_from idx seen (a # as) =
     (let pre = indexed ''autodjs'' idx in
      if trim (djp_mount a) = [] then Inl (Validate (pre @ ''.mount'') ''must be non-empty'')
      else if \<not> starts_with (djp_mount a) ''/'' then Inl (Validate (pre @ ''.mount'') (''must start with '' @ quoted ''/''))
      else if djp_mount a \<in> seen then Inl (Validate (pre @ ''.mount'') (''duplicate autodj mount path: '' @ djp_mount a))
      else if trim (djp_folder a) = [] then Inl (Validate (pre @ ''.folder'') ''must be non-empty'')
      else if djp_order a \<noteq> ''shuffle'' \<and> djp_order a \<noteq> ''sequential'' then
        Inl (Validate (pre @ ''.order'') (''must be '' @ quoted ''shuffle'' @ '' or '' @ quoted ''sequential''))
      else (case entry_limits_error pre (djp_max_listeners a) (djp_burst_size a) of
              Some e \<Rightarrow> Inl e
            | None \<Rightarrow>
                (case nested_transcode_error pre (Some (djp_transcode a)) of
                   Some e \<Rightarrow> Inl e
                 | None \<Rightarrow> validate_autodjs_from (Suc idx) (insert (djp_mount a) seen) as)))"

definition validate_autodjs_patch :: "autodj_sub_patch list \<Rightarrow> write_error + unit" where
  "validate_autodjs_patch as = validate_autodjs_from 0 {} as"

definition credentials_error :: "string \<Rightarrow> relay_sub_patch \<Rightarrow> write_error option" where
  "credentials_error pre r =
     (case (rlp_username r, rlp_password r) of
        (Some u, None) \<Rightarrow> if u \<noteq> [] then Some (Validate (pre @ ''.password'') ''must be set when username is set'') else None
      | (None, Some p) \<Rightarrow> if p \<noteq> [] then Some (Validate (pre @ ''.username'') ''must be set when password is set'') else None
      | _ \<Rightarrow> None)"

fun validate_relays_from :: "nat \<Rightarrow> string set \<Rightarrow> relay_sub_patch list \<Rightarrow> write_error + unit" where
  "validate_relays_from idx seen [] = Inr ()"
| "validate_relays_from idx seen (r # rs) =
     (let pre = indexed ''relays'' idx in
      if trim (rlp_mount r) = [] then Inl (Validate (pre @ ''.mount'') ''must be non-empty'')
      else if \<not> starts_with (rlp_mount r) ''/'' then Inl (Validate (pre @ ''.mount'') (''must start with '' @ quoted ''/''))
      else if rlp_mount r \<in> seen then Inl (Validate (pre @ ''.mount'') (''duplicate relay mount path: '' @ rlp_mount r))
      else if \<not> http_url (rlp_upstream r) then
        Inl (Validate (pre @ ''.upstream'') ''must be an http:// or https:// URL'')
      else (case credentials_error pre r of
              Some e \<Rightarrow> Inl e
            | None \<Rightarrow>
                (case entry_limits_error pre (rlp_max_listeners r) (rlp_burst_size r) of
                   Some e \<Rightarrow> Inl e
                 | None \<Rightarrow>
                     (case nested_transcode_error pre (rlp_transcode r) of
                        Some e \<Rightarrow> Inl e
                      | None \<Rightarrow> validate_relays_from (Suc idx) (insert (rlp_mount r) seen) rs))))"

definition validate_relays_patch :: "relay_sub_patch list \<Rightarrow> write_error + unit" where
  "validate_relays_patch rs = validate_relays_from 0 {} rs"

definition validate_patch :: "section_patch \<Rightarrow> write_error + unit" where
  "validate_patch p =
     (case p of
        ServerPatch sp \<Rightarrow> validate_server_patch sp
      | TranscodePatch tc \<Rightarrow> validate_transcode_patch tc
      | MountsPatch ms \<Rightarrow> validate_mounts_patch ms
      | UsersPatch us \<Rightarrow> validate_users_patch us
      | AutoDjsPatch as \<Rightarrow> validate_autodjs_patch as
      | RelaysPatch rs \<Rightarrow> validate_relays_patch rs)"

section \<open>Editing the document\<close>

text \<open>\<open>item[k] = v\<close> and \<open>as_table_mut().remove(k)\<close>: only a table under a header is an \<open>as_table_mut\<close>.\<close>

fun item_set :: "string \<Rightarrow> toml \<Rightarrow> toml \<Rightarrow> toml option" where
  "item_set k v (TTable t) = Some (TTable (AList.update k v t))"
| "item_set k v (TInline t) = Some (TInline (AList.update k v t))"
| "item_set k v _ = None"

fun item_remove :: "string \<Rightarrow> toml \<Rightarrow> toml" where
  "item_remove k (TTable t) = TTable (AList.delete k t)"
| "item_remove k it = it"

fun set_all :: "(string \<times> toml) list \<Rightarrow> toml \<Rightarrow> toml option" where
  "set_all [] it = Some it"
| "set_all ((k, v) # kvs) it = item_set k v it \<bind> set_all kvs"

definition set_or_remove :: "string \<Rightarrow> toml option \<Rightarrow> toml \<Rightarrow> toml option" where
  "set_or_remove k v it = (case v of Some x \<Rightarrow> item_set k x it | None \<Rightarrow> Some (item_remove k it))"

definition ensure_table :: "string \<Rightarrow> table \<Rightarrow> table" where
  "ensure_table name doc = (if map_of doc name = None then AList.update name (TTable []) doc else doc)"

definition edit_table :: "string \<Rightarrow> (toml \<Rightarrow> toml option) \<Rightarrow> table \<Rightarrow> table option" where
  "edit_table name f doc =
     (let doc1 = ensure_table name doc in
      map_of doc1 name \<bind> (\<lambda>it. map_option (\<lambda>it'. AList.update name it' doc1) (f it)))"

definition i64_saturated :: "nat \<Rightarrow> toml" where
  "i64_saturated n = tnat (if n < 2 ^ 63 then n else 2 ^ 63 - 1)"

definition apply_server_patch :: "server_patch \<Rightarrow> table \<Rightarrow> table option" where
  "apply_server_patch p doc = do {
     doc1 \<leftarrow> edit_table ''server'' (set_all
       [(''stream_bind'', TStr (svp_stream_bind (svp_server p))), (''admin_bind'', TStr (svp_admin_bind (svp_server p))),
        (''hostname'', TStr (svp_hostname (svp_server p)))]) doc;
     doc2 \<leftarrow> edit_table ''logging'' (set_all
       [(''level'', TStr (lgp_level (svp_logging p))), (''format'', TStr (lgp_format (svp_logging p)))]) doc1;
     doc3 \<leftarrow> edit_table ''limits'' (\<lambda>it. set_all
       [(''max_listeners_global'', tnat (lmp_max_listeners_global (svp_limits p))),
        (''ring_size'', i64_saturated (lmp_ring_size (svp_limits p))),
        (''slow_listener_grace_s'', i64_saturated (lmp_slow_listener_grace_s (svp_limits p))),
        (''burst_size'', tnat (lmp_burst_size (svp_limits p)))] it
       \<bind> set_or_remove ''source_max_kbps'' (map_option tnat (lmp_source_max_kbps (svp_limits p)))) doc2;
     case svp_auth p of
       None \<Rightarrow> Some doc3
     | Some ap \<Rightarrow> edit_table ''auth'' (set_or_remove ''source_password'' (map_option TStr (aup_source_password ap))) doc3 }"

definition transcode_patch_table :: "transcode_sub_patch \<Rightarrow> table" where
  "transcode_patch_table tc =
     fld ''format'' (TStr (tcp_format tc)) @ fld ''sample_rate'' (tnat (tcp_sample_rate tc)) @
     fld ''bitrate_kbps'' (tnat (tcp_bitrate_kbps tc))"

definition apply_transcode_patch :: "transcode_sub_patch option \<Rightarrow> table \<Rightarrow> table option" where
  "apply_transcode_patch p doc =
     (case p of
        Some tc \<Rightarrow> edit_table ''transcode'' (set_all (transcode_patch_table tc)) doc
      | None \<Rightarrow> Some (AList.delete ''transcode'' doc))"

definition user_patch_table :: "user_sub_patch \<Rightarrow> table" where
  "user_patch_table u =
     fld ''username'' (TStr (usp_username u)) @ fld ''password_bcrypt'' (TStr (usp_password_bcrypt u)) @
     fld ''role'' (TStr (usp_role u))"

definition apply_users_patch :: "user_sub_patch list \<Rightarrow> table \<Rightarrow> table option" where
  "apply_users_patch us doc =
     edit_table ''auth'' (\<lambda>it.
       case it of
         TTable t \<Rightarrow> Some (TTable (if us = [] then AList.delete ''users'' t
                                  else AList.update ''users'' (TTables (map user_patch_table us)) t))
       | _ \<Rightarrow> None) doc"

text \<open>A Boolean whose default is true is written only when it is false.\<close>

definition bfld :: "string \<Rightarrow> bool \<Rightarrow> table" where
  "bfld k b = (if b then [] else [(k, TBool False)])"

definition autodj_patch_table :: "autodj_sub_patch \<Rightarrow> table" where
  "autodj_patch_table a =
     fld ''mount'' (TStr (djp_mount a)) @ fld ''folder'' (TStr (djp_folder a)) @ bfld ''enabled'' (djp_enabled a) @
     bfld ''loop'' (djp_loop_playlist a) @ fld ''order'' (TStr (djp_order a)) @ ofld ''name'' TStr (djp_name a) @
     ofld ''description'' TStr (djp_description a) @ ofld ''genre'' TStr (djp_genre a) @ ofld ''url'' TStr (djp_url a) @
     ofld ''max_listeners'' tnat (djp_max_listeners a) @ ofld ''burst_size'' tnat (djp_burst_size a) @
     fld ''transcode'' (TTable (transcode_patch_table (djp_transcode a)))"

definition relay_patch_table :: "relay_sub_patch \<Rightarrow> table" where
  "relay_patch_table r =
     fld ''mount'' (TStr (rlp_mount r)) @ fld ''upstream'' (TStr (rlp_upstream r)) @ bfld ''enabled'' (rlp_enabled r) @
     ofld ''name'' TStr (rlp_name r) @ ofld ''description'' TStr (rlp_description r) @ ofld ''genre'' TStr (rlp_genre r) @
     ofld ''url'' TStr (rlp_url r) @ ofld ''username'' TStr (rlp_username r) @ ofld ''password'' TStr (rlp_password r) @
     ofld ''max_listeners'' tnat (rlp_max_listeners r) @ ofld ''burst_size'' tnat (rlp_burst_size r) @
     ofld ''transcode'' (\<lambda>x. TTable (transcode_patch_table x)) (rlp_transcode r)"

definition mount_patch_table :: "mount_sub_patch \<Rightarrow> table" where
  "mount_patch_table m =
     fld ''path'' (TStr (mtp_path m)) @ fld ''source_password'' (TStr (mtp_source_password m)) @
     ofld ''max_listeners'' tnat (mtp_max_listeners m) @ ofld ''name'' TStr (mtp_name m) @
     ofld ''description'' TStr (mtp_description m) @ ofld ''genre'' TStr (mtp_genre m) @ ofld ''url'' TStr (mtp_url m) @
     ofld ''burst_size'' tnat (mtp_burst_size m) @
     ofld ''transcode'' (\<lambda>x. TTable (transcode_patch_table x)) (mtp_transcode m)"

definition put_tables :: "string \<Rightarrow> table list \<Rightarrow> table \<Rightarrow> table" where
  "put_tables k ts doc = (if ts = [] then AList.delete k doc else AList.update k (TTables ts) doc)"

definition apply_autodjs_patch :: "autodj_sub_patch list \<Rightarrow> table \<Rightarrow> table" where
  "apply_autodjs_patch as doc = put_tables ''autodjs'' (map autodj_patch_table as) doc"

definition apply_relays_patch :: "relay_sub_patch list \<Rightarrow> table \<Rightarrow> table" where
  "apply_relays_patch rs doc = put_tables ''relays'' (map relay_patch_table rs) doc"

definition apply_mounts_patch :: "mount_sub_patch list \<Rightarrow> table \<Rightarrow> table" where
  "apply_mounts_patch ms doc = put_tables ''mounts'' (map mount_patch_table ms) doc"

definition apply_patch :: "section_patch \<Rightarrow> table \<Rightarrow> table option" where
  "apply_patch p doc =
     (case p of
        ServerPatch sp \<Rightarrow> apply_server_patch sp doc
      | TranscodePatch tc \<Rightarrow> apply_transcode_patch tc doc
      | MountsPatch ms \<Rightarrow> Some (apply_mounts_patch ms doc)
      | UsersPatch us \<Rightarrow> apply_users_patch us doc
      | AutoDjsPatch as \<Rightarrow> Some (apply_autodjs_patch as doc)
      | RelaysPatch rs \<Rightarrow> Some (apply_relays_patch rs doc))"

section \<open>Replacing the file\<close>

type_synonym files = "string \<rightharpoonup> string"

definition with_extension :: "string \<Rightarrow> string \<Rightarrow> string" where
  "with_extension path ext =
     (let (dir, name) = (case split_last (CHR ''/'') path of None \<Rightarrow> ([], path) | Some (d, n) \<Rightarrow> (d @ ''/'', n));
          stem = (case split_last (CHR ''.'') name of None \<Rightarrow> name | Some (s, e) \<Rightarrow> if s = [] then name else s)
      in dir @ stem @ ''.'' @ ext)"

text \<open>
  What the operating system may answer: a step fails with an error, a failed write may leave part
  of the text, and the removal after a failed renaming may fail too.
\<close>

datatype write_fault = NoFault | CreateFails string | WriteFails nat string | SyncFails string | RenameFails string bool

definition atomic_write :: "write_fault \<Rightarrow> string \<Rightarrow> string \<Rightarrow> files \<Rightarrow> (string + unit) \<times> files" where
  "atomic_write fault path contents fs =
     (let tmp = with_extension path ''toml.tmp'' in
      case fault of
        CreateFails e \<Rightarrow> (Inl e, fs)
      | WriteFails n e \<Rightarrow> (Inl e, fs(tmp \<mapsto> take n contents))
      | SyncFails e \<Rightarrow> (Inl e, fs(tmp \<mapsto> contents))
      | RenameFails e removed \<Rightarrow> (Inl e, if removed then fs(tmp := None) else fs(tmp \<mapsto> contents))
      | NoFault \<Rightarrow> (Inr (), (fs(path \<mapsto> contents))(tmp := None)))"

section \<open>The candidate configuration (\<open>api/config.rs\<close>)\<close>

text \<open>\<open>None\<close> is the \<open>unreachable!\<close> of a format the validation would have refused.\<close>

definition transcode_of_patch :: "transcode_sub_patch \<Rightarrow> transcode_config option" where
  "transcode_of_patch tc =
     map_option (\<lambda>f. \<lparr>tc_format = f, tc_sample_rate = tcp_sample_rate tc, tc_bitrate_kbps = tcp_bitrate_kbps tc\<rparr>)
       (format_of_str (tcp_format tc))"

definition opt_transcode_of_patch :: "transcode_sub_patch option \<Rightarrow> transcode_config option option" where
  "opt_transcode_of_patch tc = (case tc of None \<Rightarrow> Some None | Some x \<Rightarrow> map_option Some (transcode_of_patch x))"

definition mount_of_patch :: "mount_sub_patch \<Rightarrow> mount_config option" where
  "mount_of_patch m =
     map_option (\<lambda>tc. \<lparr>mc_path = mtp_path m, mc_source_password = mtp_source_password m,
       mc_max_listeners = mtp_max_listeners m, mc_name = mtp_name m, mc_description = mtp_description m,
       mc_genre = mtp_genre m, mc_url = mtp_url m, mc_transcode = tc, mc_burst_size = mtp_burst_size m\<rparr>)
       (opt_transcode_of_patch (mtp_transcode m))"

definition user_of_patch :: "user_sub_patch \<Rightarrow> user_config" where
  "user_of_patch u =
     \<lparr>us_username = usp_username u, us_password_bcrypt = usp_password_bcrypt u,
      us_role = (if usp_role u = ''admin'' then RoleAdmin else RoleOperator)\<rparr>"

definition autodj_of_patch :: "autodj_sub_patch \<Rightarrow> autodj_config option" where
  "autodj_of_patch a =
     map_option (\<lambda>tc. \<lparr>ad_mount = djp_mount a, ad_folder = djp_folder a, ad_name = djp_name a,
       ad_description = djp_description a, ad_genre = djp_genre a, ad_url = djp_url a, ad_enabled = djp_enabled a,
       ad_loop_playlist = djp_loop_playlist a, ad_order = (if djp_order a = ''sequential'' then Sequential else Shuffle),
       ad_max_listeners = djp_max_listeners a, ad_burst_size = djp_burst_size a, ad_transcode = tc\<rparr>)
       (transcode_of_patch (djp_transcode a))"

definition relay_of_patch :: "relay_sub_patch \<Rightarrow> relay_config option" where
  "relay_of_patch r =
     map_option (\<lambda>tc. \<lparr>rc_mount = rlp_mount r, rc_upstream = rlp_upstream r, rc_name = rlp_name r,
       rc_description = rlp_description r, rc_genre = rlp_genre r, rc_url = rlp_url r, rc_enabled = rlp_enabled r,
       rc_username = rlp_username r, rc_password = rlp_password r, rc_max_listeners = rlp_max_listeners r,
       rc_burst_size = rlp_burst_size r, rc_transcode = tc\<rparr>)
       (opt_transcode_of_patch (rlp_transcode r))"

definition server_candidate :: "server_patch \<Rightarrow> config \<Rightarrow> config option" where
  "server_candidate p cfg =
     map_option (\<lambda>fmt.
       cfg\<lparr>cf_server := \<lparr>sv_stream_bind = svp_stream_bind (svp_server p), sv_admin_bind = svp_admin_bind (svp_server p),
             sv_hostname = svp_hostname (svp_server p)\<rparr>,
           cf_logging := \<lparr>lg_level = lgp_level (svp_logging p), lg_format = fmt\<rparr>,
           cf_limits := \<lparr>lm_max_listeners_global = lmp_max_listeners_global (svp_limits p),
             lm_ring_size = lmp_ring_size (svp_limits p),
             lm_slow_listener_grace_s = lmp_slow_listener_grace_s (svp_limits p),
             lm_source_max_kbps = lmp_source_max_kbps (svp_limits p), lm_burst_size = lmp_burst_size (svp_limits p)\<rparr>,
           cf_auth := (case svp_auth p of
               Some ap \<Rightarrow> (cf_auth cfg)\<lparr>au_source_password := aup_source_password ap\<rparr> | None \<Rightarrow> cf_auth cfg)\<rparr>)
       (log_format_of_str (lgp_format (svp_logging p)))"

definition candidate :: "section_patch \<Rightarrow> config \<Rightarrow> config option" where
  "candidate p cfg =
     (case p of
        ServerPatch sp \<Rightarrow> server_candidate sp cfg
      | TranscodePatch tc \<Rightarrow> map_option (\<lambda>x. cfg\<lparr>cf_transcode := x\<rparr>) (opt_transcode_of_patch tc)
      | MountsPatch ms \<Rightarrow> map_option (\<lambda>x. cfg\<lparr>cf_mounts := x\<rparr>) (map_all mount_of_patch ms)
      | UsersPatch us \<Rightarrow> Some (cfg\<lparr>cf_auth := (cf_auth cfg)\<lparr>au_users := map user_of_patch us\<rparr>\<rparr>)
      | AutoDjsPatch as \<Rightarrow> map_option (\<lambda>x. cfg\<lparr>cf_autodjs := x\<rparr>) (map_all autodj_of_patch as)
      | RelaysPatch rs \<Rightarrow> map_option (\<lambda>x. cfg\<lparr>cf_relays := x\<rparr>) (map_all relay_of_patch rs))"

end
