(* ===== verification/Admin_Config.thy ===== *)
theory Admin_Config
  imports Config_Write Config_Reload
begin

text \<open>
  The configuration endpoints (\<open>crates/rustyice-admin/src/api/config.rs\<close>): the redacted view, the
  six editors and the pipeline that writes the file and applies the result. Their state is the
  admin state with its sessions, the running server, the path of the configuration file and the
  files. The TOML library and bcrypt are arguments, as are the answers of the file system.
\<close>

record config_site =
  cs_admin :: admin_state
  cs_server :: server
  cs_path :: "string option"
  cs_files :: files

definition cs_config :: "config_site \<Rightarrow> config" where
  "cs_config s = ap_config (rs_app (cs_server s))"

text \<open>
  \<open>tm_parse\<close> and \<open>tm_print\<close> are the document parser and printer of \<open>toml_edit\<close>, \<open>tm_serialize\<close> is
  \<open>toml::to_string\<close>.
\<close>

record toml_lib =
  tm_parse :: "string \<Rightarrow> string + table"
  tm_print :: "table \<Rightarrow> string"
  tm_serialize :: "config \<Rightarrow> string + string"

section \<open>The redacted view\<close>

definition redacted :: string where
  "redacted = ''***''"

record config_response =
  crs_server :: "server_config option"
  crs_logging :: "logging_config option"
  crs_auth :: auth_config
  crs_limits :: "limits_config option"
  crs_mounts :: "mount_config list"
  crs_autodjs :: "autodj_config list"
  crs_relays :: "relay_config list"
  crs_tls :: "tls_config option"
  crs_transcode :: "transcode_config option"
  crs_path :: "string option"
  crs_source :: string

definition redact :: "config \<Rightarrow> config" where
  "redact cfg =
     cfg\<lparr>cf_auth :=
           \<lparr>au_users = map (\<lambda>u. u\<lparr>us_password_bcrypt := redacted\<rparr>) (au_users (cf_auth cfg)),
            au_source_password = map_option (\<lambda>_. redacted) (au_source_password (cf_auth cfg))\<rparr>,
         cf_mounts := map (\<lambda>m. m\<lparr>mc_source_password := redacted\<rparr>) (cf_mounts cfg),
         cf_relays := map (\<lambda>r. r\<lparr>rc_password := map_option (\<lambda>_. redacted) (rc_password r)\<rparr>) (cf_relays cfg)\<rparr>"

definition build_config_response :: "config \<Rightarrow> string option \<Rightarrow> bool \<Rightarrow> config_response" where
  "build_config_response cfg path is_admin =
     (let red = redact cfg; source = (case path of Some _ \<Rightarrow> ''file'' | None \<Rightarrow> ''defaults'') in
      if is_admin then
        \<lparr>crs_server = Some (cf_server red), crs_logging = Some (cf_logging red), crs_auth = cf_auth red,
         crs_limits = Some (cf_limits red), crs_mounts = cf_mounts red, crs_autodjs = cf_autodjs red,
         crs_relays = cf_relays red, crs_tls = cf_tls red, crs_transcode = cf_transcode red,
         crs_path = path, crs_source = source\<rparr>
      else
        \<lparr>crs_server = None, crs_logging = None, crs_auth = \<lparr>au_users = [], au_source_password = None\<rparr>,
         crs_limits = None, crs_mounts = cf_mounts red, crs_autodjs = cf_autodjs red,
         crs_relays = cf_relays red, crs_tls = None, crs_transcode = None,
         crs_path = path, crs_source = source\<rparr>)"

text \<open>The role of the request's session, looked up in the running configuration.\<close>

definition requester :: "nat \<Rightarrow> headers \<Rightarrow> config_site \<Rightarrow> (string \<times> string) option \<times> config_site" where
  "requester now hs s =
     (case session_role now hs ((cs_admin s)\<lparr>as_config := cs_config s\<rparr>) of (who, adm) \<Rightarrow> (who, s\<lparr>cs_admin := adm\<rparr>))"

definition is_admin_role :: "(string \<times> string) option \<Rightarrow> bool" where
  "is_admin_role who = (case who of Some (_, role) \<Rightarrow> role = ''admin'' | None \<Rightarrow> False)"

definition get_config :: "nat \<Rightarrow> headers \<Rightarrow> config_site \<Rightarrow> config_response \<times> config_site" where
  "get_config now hs s =
     (case requester now hs s of (who, s1) \<Rightarrow> (build_config_response (cs_config s1) (cs_path s1) (is_admin_role who), s1))"

section \<open>Writing and applying\<close>

datatype put_reply =
  PutOk config_response "string list"
| PutError nat string "string option" bool
| PutPanic

text \<open>\<open>PutError status error field disk_written\<close>.\<close>

definition io_error_response :: "string \<Rightarrow> put_reply" where
  "io_error_response msg = PutError 500 msg None False"

definition bootstrap_text :: "toml_lib \<Rightarrow> config \<Rightarrow> string \<Rightarrow> string + (string \<times> string)" where
  "bootstrap_text L cand path =
     (case tm_serialize L cand of Inl e \<Rightarrow> Inl (''serialize: '' @ e) | Inr t \<Rightarrow> Inr (t, path))"

text \<open>\<open>read_fault\<close> is an error of reading the file other than its absence.\<close>

definition document_text :: "toml_lib \<Rightarrow> string option \<Rightarrow> config \<Rightarrow> config_site \<Rightarrow> string + (string \<times> string)" where
  "document_text L read_fault cand s =
     (case cs_path s of
        None \<Rightarrow> bootstrap_text L cand ''config.toml''
      | Some p \<Rightarrow>
          (case read_fault of
             Some e \<Rightarrow> Inl (''read config: '' @ e)
           | None \<Rightarrow> (case cs_files s p of Some t \<Rightarrow> Inr (t, p) | None \<Rightarrow> bootstrap_text L cand p)))"

definition app_applier :: "config \<Rightarrow> config_site \<Rightarrow> (string + string list) \<times> config_site" where
  "app_applier cand s =
     (case apply_config cand (cs_server s) of
        (r, sv) \<Rightarrow> (map_sum (\<lambda>e. ''auth reload: '' @ e) id r, s\<lparr>cs_server := sv\<rparr>))"

definition persist_and_apply ::
  "toml_lib \<Rightarrow> string option \<Rightarrow> write_fault \<Rightarrow> bool \<Rightarrow> config \<Rightarrow> (table \<Rightarrow> table option) \<Rightarrow> config_site
     \<Rightarrow> put_reply \<times> config_site" where
  "persist_and_apply L read_fault write_fault is_admin cand patch_doc s =
     (case document_text L read_fault cand s of
        Inl e \<Rightarrow> (io_error_response e, s)
      | Inr (doc_string, path) \<Rightarrow>
          (case tm_parse L doc_string of
             Inl e \<Rightarrow> (io_error_response (''parse existing config: '' @ e), s)
           | Inr doc \<Rightarrow>
               (case patch_doc doc of
                  None \<Rightarrow> (PutPanic, s)
                | Some doc' \<Rightarrow>
                    (case atomic_write write_fault path (tm_print L doc') (cs_files s) of
                       (Inl e, fs) \<Rightarrow> (io_error_response (''write config.toml: '' @ e), s\<lparr>cs_files := fs\<rparr>)
                     | (Inr _, fs) \<Rightarrow>
                         (case app_applier cand (s\<lparr>cs_files := fs\<rparr>) of
                            (Inl e, s1) \<Rightarrow> (PutError 500 e None True, s1)
                          | (Inr warnings, s1) \<Rightarrow>
                              (let s2 = (if cs_path s = None then s1\<lparr>cs_path := Some path\<rparr> else s1) in
                               (PutOk (build_config_response (cs_config s2) (cs_path s2) is_admin) warnings, s2)))))))"

text \<open>
  What every editor does with its resolved patch: validate it, overlay it on the snapshot
  \<open>current\<close> of the configuration, check the paths (the users editor does not), persist and apply.
\<close>

definition candidate_paths :: "section_patch \<Rightarrow> config \<Rightarrow> string + unit" where
  "candidate_paths p cand = (case p of UsersPatch _ \<Rightarrow> Inr () | _ \<Rightarrow> validate_paths cand)"

definition put_patch ::
  "toml_lib \<Rightarrow> string option \<Rightarrow> write_fault \<Rightarrow> bool \<Rightarrow> config \<Rightarrow> section_patch \<Rightarrow> config_site \<Rightarrow> put_reply \<times> config_site" where
  "put_patch L read_fault write_fault is_admin current p s =
     (case validate_patch p of
        Inl (Validate field message) \<Rightarrow> (PutError 400 message (Some field) False, s)
      | _ \<Rightarrow>
          (case candidate p current of
             None \<Rightarrow> (PutPanic, s)
           | Some cand \<Rightarrow>
               (case candidate_paths p cand of
                  Inl msg \<Rightarrow> (PutError 400 msg None False, s)
                | Inr _ \<Rightarrow> persist_and_apply L read_fault write_fault is_admin cand (apply_patch p) s)))"

section \<open>The editors\<close>

text \<open>An empty secret, or the sentinel of the redacted view, means: keep what there is.\<close>

definition supplied_secret :: "string option \<Rightarrow> string option" where
  "supplied_secret x = (case x of Some p \<Rightarrow> if p \<noteq> [] \<and> p \<noteq> ''***'' then Some p else None | None \<Rightarrow> None)"

text \<open>The body of the server editor has the fields of its patch.\<close>

type_synonym server_put_body = server_patch

definition resolve_server :: "server_put_body \<Rightarrow> server_patch" where
  "resolve_server b =
     b\<lparr>svp_auth := (case supplied_secret (Option.bind (svp_auth b) aup_source_password) of
         Some p \<Rightarrow> Some \<lparr>aup_source_password = Some p\<rparr> | None \<Rightarrow> None)\<rparr>"

definition put_server ::
  "toml_lib \<Rightarrow> string option \<Rightarrow> write_fault \<Rightarrow> server_put_body \<Rightarrow> config_site \<Rightarrow> put_reply \<times> config_site" where
  "put_server L rf wr body s = put_patch L rf wr True (cs_config s) (ServerPatch (resolve_server body)) s"

definition put_transcode ::
  "toml_lib \<Rightarrow> string option \<Rightarrow> write_fault \<Rightarrow> transcode_sub_patch option \<Rightarrow> config_site \<Rightarrow> put_reply \<times> config_site" where
  "put_transcode L rf wr body s = put_patch L rf wr True (cs_config s) (TranscodePatch body) s"

record mount_sub_body =
  mtb_path :: string
  mtb_source_password :: "string option"
  mtb_max_listeners :: "nat option"
  mtb_name :: "string option"
  mtb_description :: "string option"
  mtb_genre :: "string option"
  mtb_url :: "string option"
  mtb_burst_size :: "nat option"
  mtb_transcode :: "transcode_sub_patch option"

definition mount_password :: "config \<Rightarrow> mount_sub_body \<Rightarrow> string option" where
  "mount_password current m =
     or_else (supplied_secret (mtb_source_password m))
       (or_else (hash_map (map (\<lambda>m. (mc_path m, mc_source_password m)) (cf_mounts current)) (mtb_path m))
         (au_source_password (cf_auth current)))"

definition mount_body_patch :: "mount_sub_body \<Rightarrow> string \<Rightarrow> mount_sub_patch" where
  "mount_body_patch m password =
     \<lparr>mtp_path = mtb_path m, mtp_source_password = password, mtp_max_listeners = mtb_max_listeners m,
      mtp_name = mtb_name m, mtp_description = mtb_description m, mtp_genre = mtb_genre m, mtp_url = mtb_url m,
      mtp_burst_size = mtb_burst_size m, mtp_transcode = mtb_transcode m\<rparr>"

fun resolve_mounts :: "config \<Rightarrow> nat \<Rightarrow> mount_sub_body list \<Rightarrow> put_reply + mount_sub_patch list" where
  "resolve_mounts current idx [] = Inr []"
| "resolve_mounts current idx (m # ms) =
     (case mount_password current m of
        None \<Rightarrow> Inl (PutError 400
          ''new mount requires source_password (no global [auth].source_password is set to fall back on)''
          (Some (indexed ''mounts'' idx @ ''.source_password'')) False)
      | Some password \<Rightarrow>
          (case resolve_mounts current (Suc idx) ms of
             Inl e \<Rightarrow> Inl e
           | Inr ps \<Rightarrow> Inr (mount_body_patch m password # ps)))"

definition put_mounts ::
  "toml_lib \<Rightarrow> string option \<Rightarrow> write_fault \<Rightarrow> nat \<Rightarrow> headers \<Rightarrow> mount_sub_body list \<Rightarrow> config_site \<Rightarrow> put_reply \<times> config_site" where
  "put_mounts L rf wr now hs body s0 =
     (case requester now hs s0 of
        (who, s) \<Rightarrow>
          (case resolve_mounts (cs_config s) 0 body of
             Inl e \<Rightarrow> (e, s)
           | Inr ms \<Rightarrow> put_patch L rf wr (is_admin_role who) (cs_config s) (MountsPatch ms) s))"

record user_sub_body =
  usb_username :: string
  usb_password :: "string option"
  usb_role :: string

text \<open>\<open>hash i p\<close> is what the blocking task answers for the password of the i-th user.\<close>

datatype hash_error = HashFailed string | JoinFailed string

fun hash_error_text :: "hash_error \<Rightarrow> string" where
  "hash_error_text (HashFailed e) = ''bcrypt hash failed: '' @ e"
| "hash_error_text (JoinFailed e) = ''bcrypt task join failed: '' @ e"

fun resolve_users ::
  "(nat \<Rightarrow> string \<Rightarrow> hash_error + string) \<Rightarrow> config \<Rightarrow> nat \<Rightarrow> user_sub_body list \<Rightarrow> put_reply + user_sub_patch list" where
  "resolve_users hash current idx [] = Inr []"
| "resolve_users hash current idx (u # us) =
     (let username = trim (usb_username u) in
      if username = [] then
        Inl (PutError 400 ''must be non-empty'' (Some (indexed ''users'' idx @ ''.username'')) False)
      else
        (case (case supplied_secret (usb_password u) of
                 Some p \<Rightarrow> (case hash idx p of Inl e \<Rightarrow> Inl (io_error_response (hash_error_text e)) | Inr h \<Rightarrow> Inr h)
               | None \<Rightarrow>
                   (case hash_map (map (\<lambda>u. (us_username u, us_password_bcrypt u)) (au_users (cf_auth current))) username of
                      Some h \<Rightarrow> Inr h
                    | None \<Rightarrow> Inl (PutError 400 ''new user requires a password''
                        (Some (indexed ''users'' idx @ ''.password'')) False))) of
           Inl e \<Rightarrow> Inl e
         | Inr h \<Rightarrow>
             (case resolve_users hash current (Suc idx) us of
                Inl e \<Rightarrow> Inl e
              | Inr ps \<Rightarrow> Inr (\<lparr>usp_username = username, usp_password_bcrypt = h, usp_role = usb_role u\<rparr> # ps))))"

definition lockout_message :: "string \<Rightarrow> string" where
  "lockout_message name = ''cannot remove or demote your own account ('' @ name @ '') '' @
     [CHR 0xE2, CHR 0x80, CHR 0x94] @ '' have another admin do it''"

definition put_users ::
  "toml_lib \<Rightarrow> (nat \<Rightarrow> string \<Rightarrow> hash_error + string) \<Rightarrow> string option \<Rightarrow> write_fault \<Rightarrow> nat \<Rightarrow> headers \<Rightarrow> user_sub_body list
     \<Rightarrow> config_site \<Rightarrow> put_reply \<times> config_site" where
  "put_users L hash rf wr now hs body s0 =
     (case requester now hs s0 of
        (who, s) \<Rightarrow>
          (let name = (case who of Some (u, _) \<Rightarrow> u | None \<Rightarrow> []) in
           if name \<noteq> [] \<and> \<not> list_ex (\<lambda>u. trim (usb_username u) = name \<and> usb_role u = ''admin'') body then
             (PutError 400 (lockout_message name) None False, s)
           else
             (case resolve_users hash (cs_config s) 0 body of
                Inl e \<Rightarrow> (e, s)
              | Inr us \<Rightarrow> put_patch L rf wr True (cs_config s) (UsersPatch us) s)))"

text \<open>The bodies of the AutoDJ and relay editors have the fields of their patches.\<close>

type_synonym autodj_sub_body = autodj_sub_patch

definition put_autodjs ::
  "toml_lib \<Rightarrow> string option \<Rightarrow> write_fault \<Rightarrow> nat \<Rightarrow> headers \<Rightarrow> autodj_sub_body list \<Rightarrow> config_site \<Rightarrow> put_reply \<times> config_site" where
  "put_autodjs L rf wr now hs body s0 =
     (case requester now hs s0 of
        (who, s) \<Rightarrow> put_patch L rf wr (is_admin_role who) (cs_config s) (AutoDjsPatch body) s)"

type_synonym relay_sub_body = relay_sub_patch

definition relay_passwords :: "config \<Rightarrow> string \<rightharpoonup> string" where
  "relay_passwords current =
     hash_map (List.map_filter (\<lambda>r. map_option (\<lambda>p. (rc_mount r, p)) (rc_password r)) (cf_relays current))"

definition resolve_relay :: "config \<Rightarrow> relay_sub_body \<Rightarrow> relay_sub_patch" where
  "resolve_relay current r =
     r\<lparr>rlp_password := or_else (supplied_secret (rlp_password r)) (relay_passwords current (rlp_mount r))\<rparr>"

definition put_relays ::
  "toml_lib \<Rightarrow> string option \<Rightarrow> write_fault \<Rightarrow> nat \<Rightarrow> headers \<Rightarrow> relay_sub_body list \<Rightarrow> config_site \<Rightarrow> put_reply \<times> config_site" where
  "put_relays L rf wr now hs body s0 =
     (case requester now hs s0 of
        (who, s) \<Rightarrow>
          put_patch L rf wr (is_admin_role who) (cs_config s) (RelaysPatch (map (resolve_relay (cs_config s)) body)) s)"

end
