(* ===== verification/Config_Facts.thy ===== *)
theory Config_Facts
  imports Config_Write
begin

text \<open>
  Facts on the configuration editors: editing the document and reading it back is the same as
  overlaying the patch on the configuration; what validation guarantees; the file is replaced as a
  whole or not at all.
\<close>

section \<open>Readers and edited tables\<close>

lemma read_update [doc_simps]:
  "req k f (AList.update k' v t) = (if k = k' then f v else req k f t)"
  "opt k f (AList.update k' v t) = (if k = k' then map_option Some (f v) else opt k f t)"
  "dflt k d f (AList.update k' v t) = (if k = k' then f v else dflt k d f t)"
  by (auto simp: req_def opt_def dflt_def update_conv')

lemma read_delete [doc_simps]:
  "req k f (AList.delete k' t) = (if k = k' then None else req k f t)"
  "opt k f (AList.delete k' t) = (if k = k' then Some None else opt k f t)"
  "dflt k d f (AList.delete k' t) = (if k = k' then Some d else dflt k d f t)"
  by (auto simp: req_def opt_def dflt_def delete_conv')

lemma read_config_iff:
  "read_config addr t = Some cfg \<longleftrightarrow>
     req ''server'' (sub (read_server addr)) t = Some (cf_server cfg) \<and>
     req ''logging'' (sub read_logging) t = Some (cf_logging cfg) \<and>
     req ''auth'' (sub read_auth) t = Some (cf_auth cfg) \<and>
     req ''limits'' (sub read_limits) t = Some (cf_limits cfg) \<and>
     dflt ''mounts'' [] (as_list read_mount) t = Some (cf_mounts cfg) \<and>
     dflt ''autodjs'' [] (as_list read_autodj) t = Some (cf_autodjs cfg) \<and>
     dflt ''relays'' [] (as_list read_relay) t = Some (cf_relays cfg) \<and>
     opt ''tls'' (sub read_tls) t = Some (cf_tls cfg) \<and>
     opt ''transcode'' (sub read_transcode) t = Some (cf_transcode cfg)"
  by (cases cfg) (auto simp: read_config_def bind_eq_Some_conv)

lemma req_sub_SomeD:
  assumes "req k (sub f) t = Some x"
  obtains it tab where "map_of t k = Some it" and "as_table it = Some tab" and "f tab = Some x"
  using assms by (auto simp: req_def sub_def bind_eq_Some_conv)

definition updates :: "(string \<times> toml) list \<Rightarrow> table \<Rightarrow> table" where
  "updates kvs t = foldl (\<lambda>t (k, v). AList.update k v t) t kvs"

lemma updates_simps [simp]: "updates [] t = t" "updates ((k, v) # kvs) t = updates kvs (AList.update k v t)"
  by (simp_all add: updates_def)

lemma as_table_cases:
  assumes "as_table it = Some t"
  obtains "it = TTable t" | "it = TInline t"
  using assms by (cases it) auto

lemma set_all_tables [simp]:
  "set_all kvs (TTable t) = Some (TTable (updates kvs t))"
  "set_all kvs (TInline t) = Some (TInline (updates kvs t))"
  by (induction kvs arbitrary: t) auto

lemma set_all_table:
  assumes "as_table it = Some t"
  obtains it' where "set_all kvs it = Some it'" and "as_table it' = Some (updates kvs t)"
    and "it = TTable t \<Longrightarrow> it' = TTable (updates kvs t)"
  using assms by (cases it) auto

lemma edit_table_present:
  "map_of doc k = Some it \<Longrightarrow> f it = Some it' \<Longrightarrow> edit_table k f doc = Some (AList.update k it' doc)"
  by (simp add: edit_table_def ensure_table_def)

lemma edit_table_absent:
  "map_of doc k = None \<Longrightarrow> f (TTable []) = Some it' \<Longrightarrow>
     edit_table k f doc = Some (AList.update k it' doc)"
  by (simp add: edit_table_def ensure_table_def update_conv')

section \<open>What validation guarantees\<close>

lemma validate_transcode_ok:
  "validate_transcode_patch (Some tc) = Inr () \<longleftrightarrow>
     (\<exists>c. transcode_of_patch tc = Some c) \<and> tcp_sample_rate tc \<in> {1..192000} \<and> tcp_bitrate_kbps tc \<in> {1..512}"
  by (auto simp: validate_transcode_patch_def transcode_of_patch_def format_of_str_def)

lemma nested_transcode_None:
  "nested_transcode_error pre tc = None \<longleftrightarrow> validate_transcode_patch tc = Inr ()"
proof (cases "validate_transcode_patch tc")
  case (Inl e)
  then have "\<exists>f m. e = Validate f m"
    by (auto simp: validate_transcode_patch_def split: option.splits if_splits)
  then show ?thesis
    using Inl by (auto simp: nested_transcode_error_def)
qed (simp add: nested_transcode_error_def)

lemma transcode_patch_fits:
  assumes "validate_transcode_patch (Some tc) = Inr ()"
  obtains c where "transcode_of_patch tc = Some c" and "transcode_fits c"
    and "read_transcode (transcode_patch_table tc) = Some c"
proof -
  obtain c where c: "transcode_of_patch tc = Some c" and "tcp_sample_rate tc \<le> 192000" "tcp_bitrate_kbps tc \<le> 512"
    using assms unfolding validate_transcode_ok by auto
  then have "tcp_sample_rate tc < 2 ^ 32" and "tcp_bitrate_kbps tc < 2 ^ 32"
    by simp_all
  moreover obtain f where "format_of_str (tcp_format tc) = Some f"
    and "c = \<lparr>tc_format = f, tc_sample_rate = tcp_sample_rate tc, tc_bitrate_kbps = tcp_bitrate_kbps tc\<rparr>"
    using c by (auto simp: transcode_of_patch_def)
  ultimately show thesis
    using that c by (simp add: transcode_fits_def read_transcode_def transcode_patch_table_def doc_simps)
qed

lemma opt_transcode_patch_fits:
  assumes "validate_transcode_patch tc = Inr ()"
  obtains c where "opt_transcode_of_patch tc = Some c" and "pred_option transcode_fits c"
    and "map_of t k = None \<longrightarrow>
      opt k (sub read_transcode) (ofld k (\<lambda>x. TTable (transcode_patch_table x)) tc @ t) = Some c"
    and "opt k (sub read_transcode) (ofld k (\<lambda>x. TTable (transcode_patch_table x)) tc) = Some c"
proof (cases tc)
  case None
  with that [of None] show thesis
    by (simp add: opt_transcode_of_patch_def opt_def ofld_def)
next
  case (Some x)
  with assms obtain c where "transcode_of_patch x = Some c" "transcode_fits c"
    "read_transcode (transcode_patch_table x) = Some c"
    by (blast elim: transcode_patch_fits)
  with Some that [of "Some c"] show thesis
    by (simp add: opt_transcode_of_patch_def opt_def ofld_def sub_def)
qed

text \<open>The integers of a patch are of their Rust types.\<close>

definition u32_option :: "nat option \<Rightarrow> bool" where
  "u32_option x \<longleftrightarrow> pred_option (\<lambda>n. n < 2 ^ 32) x"

definition patch_fits :: "(string \<Rightarrow> socket_addr option) \<Rightarrow> section_patch \<Rightarrow> bool" where
  "patch_fits addr p =
     (case p of
        ServerPatch sp \<Rightarrow>
          addr (svp_stream_bind (svp_server sp)) = Some (svp_stream_bind (svp_server sp)) \<and>
          addr (svp_admin_bind (svp_server sp)) = Some (svp_admin_bind (svp_server sp)) \<and>
          lmp_max_listeners_global (svp_limits sp) < 2 ^ 32 \<and> lmp_ring_size (svp_limits sp) < 2 ^ 63 \<and>
          lmp_slow_listener_grace_s (svp_limits sp) < 2 ^ 63 \<and> lmp_burst_size (svp_limits sp) < 2 ^ 32 \<and>
          u32_option (lmp_source_max_kbps (svp_limits sp))
      | MountsPatch ms \<Rightarrow> list_all (\<lambda>m. u32_option (mtp_max_listeners m) \<and> u32_option (mtp_burst_size m)) ms
      | AutoDjsPatch as \<Rightarrow> list_all (\<lambda>a. u32_option (djp_max_listeners a) \<and> u32_option (djp_burst_size a)) as
      | RelaysPatch rs \<Rightarrow> list_all (\<lambda>r. u32_option (rlp_max_listeners r) \<and> u32_option (rlp_burst_size r)) rs
      | _ \<Rightarrow> True)"

lemma bfld_doc [doc_simps]:
  "k' \<noteq> k \<Longrightarrow> map_of (bfld k b) k' = None" "k' \<noteq> k \<Longrightarrow> map_of (bfld k b @ t) k' = map_of t k'"
  "k' \<noteq> k \<Longrightarrow> req k' f (bfld k b @ t) = req k' f t" "k' \<noteq> k \<Longrightarrow> opt k' f (bfld k b @ t) = opt k' f t"
  "k' \<noteq> k \<Longrightarrow> dflt k' d g (bfld k b @ t) = dflt k' d g t"
  "map_of t k = None \<Longrightarrow> dflt k True as_bool (bfld k b @ t) = Some b"
  by (auto simp: bfld_def req_def opt_def dflt_def)

lemma mount_patch_read:
  assumes "validate_transcode_patch (mtp_transcode m) = Inr ()" and "u32_option (mtp_max_listeners m)"
    and "u32_option (mtp_burst_size m)"
  obtains c where "mount_of_patch m = Some c" and "read_mount (mount_patch_table m) = Some c"
proof -
  obtain tc where tc: "opt_transcode_of_patch (mtp_transcode m) = Some tc"
    and "opt ''transcode'' (sub read_transcode)
      (ofld ''transcode'' (\<lambda>x. TTable (transcode_patch_table x)) (mtp_transcode m)) = Some tc"
    using opt_transcode_patch_fits [OF assms(1)] by metis
  then show thesis
    using that assms(2,3)
    by (simp add: mount_of_patch_def read_mount_def mount_patch_table_def u32_option_def doc_simps)
qed

lemma relay_patch_read:
  assumes "validate_transcode_patch (rlp_transcode m) = Inr ()" and "u32_option (rlp_max_listeners m)"
    and "u32_option (rlp_burst_size m)"
  obtains c where "relay_of_patch m = Some c" and "read_relay (relay_patch_table m) = Some c"
proof -
  obtain tc where tc: "opt_transcode_of_patch (rlp_transcode m) = Some tc"
    and "opt ''transcode'' (sub read_transcode)
      (ofld ''transcode'' (\<lambda>x. TTable (transcode_patch_table x)) (rlp_transcode m)) = Some tc"
    using opt_transcode_patch_fits [OF assms(1)] by metis
  then show thesis
    using that assms(2,3)
    by (simp add: relay_of_patch_def read_relay_def relay_patch_table_def u32_option_def doc_simps)
qed

lemma autodj_patch_read:
  assumes "validate_transcode_patch (Some (djp_transcode m)) = Inr ()" and "u32_option (djp_max_listeners m)"
    and "u32_option (djp_burst_size m)" and "djp_order m = ''shuffle'' \<or> djp_order m = ''sequential''"
  obtains c where "autodj_of_patch m = Some c" and "read_autodj (autodj_patch_table m) = Some c"
proof -
  obtain tc where tc: "transcode_of_patch (djp_transcode m) = Some tc"
    and "read_transcode (transcode_patch_table (djp_transcode m)) = Some tc"
    using transcode_patch_fits [OF assms(1)] by metis
  moreover have "order_of_str (djp_order m) = Some (if djp_order m = ''sequential'' then Sequential else Shuffle)"
    using assms(4) by (auto simp: order_of_str_def)
  ultimately show thesis
    using that assms(2,3)
    by (simp add: autodj_of_patch_def read_autodj_def autodj_patch_table_def u32_option_def doc_simps sub_def)
qed

lemma user_patch_read:
  "usp_role u = ''admin'' \<or> usp_role u = ''operator'' \<Longrightarrow> read_user (user_patch_table u) = Some (user_of_patch u)"
  by (auto simp: user_of_patch_def read_user_def user_patch_table_def doc_simps role_of_str_def)

definition limits_entry_ok :: "nat option \<Rightarrow> nat option \<Rightarrow> bool" where
  "limits_entry_ok l b \<longleftrightarrow> l \<noteq> Some 0 \<and> pred_option (\<lambda>n. n \<le> max_burst) b"

lemma entry_limits_None: "entry_limits_error pre l b = None \<longleftrightarrow> limits_entry_ok l b"
  by (auto simp: entry_limits_error_def limits_entry_ok_def split: option.splits)

definition path_ok :: "string \<Rightarrow> bool" where
  "path_ok p \<longleftrightarrow> trim p \<noteq> [] \<and> starts_with p ''/''"

definition mount_patch_ok :: "mount_sub_patch \<Rightarrow> bool" where
  "mount_patch_ok m \<longleftrightarrow> path_ok (mtp_path m) \<and> trim (mtp_source_password m) \<noteq> [] \<and>
     limits_entry_ok (mtp_max_listeners m) (mtp_burst_size m) \<and> validate_transcode_patch (mtp_transcode m) = Inr ()"

definition autodj_patch_ok :: "autodj_sub_patch \<Rightarrow> bool" where
  "autodj_patch_ok a \<longleftrightarrow> path_ok (djp_mount a) \<and> trim (djp_folder a) \<noteq> [] \<and>
     (djp_order a = ''shuffle'' \<or> djp_order a = ''sequential'') \<and>
     limits_entry_ok (djp_max_listeners a) (djp_burst_size a) \<and> validate_transcode_patch (Some (djp_transcode a)) = Inr ()"

definition user_patch_ok :: "user_sub_patch \<Rightarrow> bool" where
  "user_patch_ok u \<longleftrightarrow> trim (usp_username u) \<noteq> [] \<and> usp_password_bcrypt u \<noteq> [] \<and>
     (usp_role u = ''admin'' \<or> usp_role u = ''operator'')"

definition relay_patch_ok :: "relay_sub_patch \<Rightarrow> bool" where
  "relay_patch_ok r \<longleftrightarrow> path_ok (rlp_mount r) \<and> http_url (rlp_upstream r) \<and> credentials_error [] r = None \<and>
     limits_entry_ok (rlp_max_listeners r) (rlp_burst_size r) \<and> validate_transcode_patch (rlp_transcode r) = Inr ()"

lemma credentials_None: "credentials_error pre r = None \<longleftrightarrow> credentials_error [] r = None"
  by (auto simp: credentials_error_def split: option.splits)

lemma option_case_Inl: "(case e of None \<Rightarrow> r | Some x \<Rightarrow> Inl x) = Inr u \<longleftrightarrow> e = None \<and> r = Inr u"
  by (cases e) auto

lemma validate_mounts_from_ok:
  "validate_mounts_from idx seen ms = Inr () \<longleftrightarrow>
     list_all mount_patch_ok ms \<and> distinct (map mtp_path ms) \<and> seen \<inter> set (map mtp_path ms) = {}"
  by (induction idx seen ms rule: validate_mounts_from.induct)
    (auto simp: Let_def option_case_Inl nested_transcode_None entry_limits_None mount_patch_ok_def path_ok_def)

lemma validate_users_from_ok:
  "validate_users_from idx seen us = Inr () \<longleftrightarrow>
     list_all user_patch_ok us \<and> distinct (map usp_username us) \<and> seen \<inter> set (map usp_username us) = {}"
  by (induction idx seen us rule: validate_users_from.induct)
    (auto simp: Let_def user_patch_ok_def)

lemma validate_autodjs_from_ok:
  "validate_autodjs_from idx seen as = Inr () \<longleftrightarrow>
     list_all autodj_patch_ok as \<and> distinct (map djp_mount as) \<and> seen \<inter> set (map djp_mount as) = {}"
  by (induction idx seen as rule: validate_autodjs_from.induct)
    (auto simp: Let_def option_case_Inl nested_transcode_None entry_limits_None autodj_patch_ok_def path_ok_def)

lemma validate_relays_from_ok:
  "validate_relays_from idx seen rs = Inr () \<longleftrightarrow>
     list_all relay_patch_ok rs \<and> distinct (map rlp_mount rs) \<and> seen \<inter> set (map rlp_mount rs) = {}"
  by (induction idx seen rs rule: validate_relays_from.induct)
    (auto simp: Let_def option_case_Inl nested_transcode_None entry_limits_None relay_patch_ok_def path_ok_def
      credentials_None [of "indexed _ _"])

lemma validate_users_ok:
  "validate_users_patch us = Inr () \<longleftrightarrow>
     list_all user_patch_ok us \<and> distinct (map usp_username us) \<and> list_ex (\<lambda>u. usp_role u = ''admin'') us"
  using validate_users_from_ok [of 0 "{}" us]
  by (cases "validate_users_from 0 {} us") (auto simp: validate_users_patch_def)

lemma map_all_forms:
  assumes "\<And>x. x \<in> set xs \<Longrightarrow> \<exists>c. f x = Some c \<and> g (h x) = Some c"
  obtains cs where "map_all f xs = Some cs" and "map_all g (map h xs) = Some cs"
proof -
  have "\<exists>cs. map_all f xs = Some cs \<and> map_all g (map h xs) = Some cs"
    using assms(1)
  proof (induction xs)
    case (Cons x xs)
    then obtain c cs where "f x = Some c" "g (h x) = Some c" "map_all f xs = Some cs" "map_all g (map h xs) = Some cs"
      by (metis list.set_intros)
    then show ?case
      by simp
  qed simp
  then show thesis
    using that by blast
qed

section \<open>Editing the document is overlaying the configuration\<close>

definition block :: "string \<Rightarrow> table \<Rightarrow> bool" where
  "block k doc \<longleftrightarrow> (case map_of doc k of Some (TTable _) \<Rightarrow> True | _ \<Rightarrow> False)"

definition editable :: "section_patch \<Rightarrow> table \<Rightarrow> bool" where
  "editable p doc \<longleftrightarrow>
     (case p of
        ServerPatch _ \<Rightarrow> block ''limits'' doc \<and> block ''auth'' doc
      | UsersPatch _ \<Rightarrow> block ''auth'' doc
      | _ \<Rightarrow> True)"

lemma blockD: "block k doc \<Longrightarrow> \<exists>t. map_of doc k = Some (TTable t)"
  by (auto simp: block_def split: option.splits toml.splits)

lemma put_tables_frame [doc_simps]:
  assumes "k' \<noteq> k"
  shows "dflt k' d g (put_tables k ts doc) = dflt k' d g doc" "req k' h (put_tables k ts doc) = req k' h doc"
    and "opt k' h (put_tables k ts doc) = opt k' h doc"
  using assms by (auto simp: put_tables_def doc_simps)

lemma put_tables_read: "map_all f ts = Some cs \<Longrightarrow> dflt k [] (as_list f) (put_tables k ts doc) = Some cs"
  by (auto simp: put_tables_def doc_simps)

lemma mounts_square:
  assumes "read_config addr doc = Some cfg" and "validate_patch (MountsPatch ms) = Inr ()"
    and "patch_fits addr (MountsPatch ms)"
  shows "\<exists>c. candidate (MountsPatch ms) cfg = Some c \<and> read_config addr (apply_mounts_patch ms doc) = Some c"
proof -
  have "\<exists>c. mount_of_patch m = Some c \<and> read_mount (mount_patch_table m) = Some c" if "m \<in> set ms" for m
  proof -
    have "mount_patch_ok m" "u32_option (mtp_max_listeners m)" "u32_option (mtp_burst_size m)"
      using assms(2,3) that
      by (auto simp: validate_patch_def validate_mounts_patch_def validate_mounts_from_ok patch_fits_def list_all_iff)
    then show ?thesis
      by (metis mount_patch_ok_def mount_patch_read)
  qed
  then obtain cs where "map_all mount_of_patch ms = Some cs"
    and cs: "map_all read_mount (map mount_patch_table ms) = Some cs"
    by (rule map_all_forms)
  then show ?thesis
    using assms(1) put_tables_read [OF cs] by (simp add: doc_simps candidate_def apply_mounts_patch_def read_config_iff)
qed

lemma relays_square:
  assumes "read_config addr doc = Some cfg" and "validate_patch (RelaysPatch ms) = Inr ()"
    and "patch_fits addr (RelaysPatch ms)"
  shows "\<exists>c. candidate (RelaysPatch ms) cfg = Some c \<and> read_config addr (apply_relays_patch ms doc) = Some c"
proof -
  have "\<exists>c. relay_of_patch m = Some c \<and> read_relay (relay_patch_table m) = Some c" if "m \<in> set ms" for m
  proof -
    have "relay_patch_ok m" "u32_option (rlp_max_listeners m)" "u32_option (rlp_burst_size m)"
      using assms(2,3) that
      by (auto simp: validate_patch_def validate_relays_patch_def validate_relays_from_ok patch_fits_def list_all_iff)
    then show ?thesis
      by (metis relay_patch_ok_def relay_patch_read)
  qed
  then obtain cs where "map_all relay_of_patch ms = Some cs"
    and cs: "map_all read_relay (map relay_patch_table ms) = Some cs"
    by (rule map_all_forms)
  then show ?thesis
    using assms(1) put_tables_read [OF cs] by (simp add: doc_simps candidate_def apply_relays_patch_def read_config_iff)
qed

lemma autodjs_square:
  assumes "read_config addr doc = Some cfg" and "validate_patch (AutoDjsPatch ms) = Inr ()"
    and "patch_fits addr (AutoDjsPatch ms)"
  shows "\<exists>c. candidate (AutoDjsPatch ms) cfg = Some c \<and> read_config addr (apply_autodjs_patch ms doc) = Some c"
proof -
  have "\<exists>c. autodj_of_patch m = Some c \<and> read_autodj (autodj_patch_table m) = Some c" if "m \<in> set ms" for m
  proof -
    have "autodj_patch_ok m" "u32_option (djp_max_listeners m)" "u32_option (djp_burst_size m)"
      using assms(2,3) that
      by (auto simp: validate_patch_def validate_autodjs_patch_def validate_autodjs_from_ok patch_fits_def list_all_iff)
    then show ?thesis
      by (metis autodj_patch_ok_def autodj_patch_read)
  qed
  then obtain cs where "map_all autodj_of_patch ms = Some cs"
    and cs: "map_all read_autodj (map autodj_patch_table ms) = Some cs"
    by (rule map_all_forms)
  then show ?thesis
    using assms(1) put_tables_read [OF cs] by (simp add: doc_simps candidate_def apply_autodjs_patch_def read_config_iff)
qed

lemma read_auth_edit:
  assumes "read_auth t = Some a"
  shows "map_all read_user ts = Some us \<Longrightarrow>
      read_auth (AList.update ''users'' (TTables ts) t) = Some (a\<lparr>au_users := us\<rparr>)"
    and "\<exists>t'. set_or_remove ''source_password'' (map_option TStr w) (TTable t) = Some (TTable t') \<and>
      read_auth t' = Some (a\<lparr>au_source_password := w\<rparr>)"
  using assms by (cases a; cases w; auto simp: read_auth_def set_or_remove_def doc_simps bind_eq_Some_conv)+

lemma users_square:
  assumes "read_config addr doc = Some cfg" and "validate_patch (UsersPatch us) = Inr ()"
    and "block ''auth'' doc"
  shows "\<exists>doc' c. apply_users_patch us doc = Some doc' \<and> candidate (UsersPatch us) cfg = Some c \<and>
    read_config addr doc' = Some c"
proof -
  have ok: "list_all user_patch_ok us" and "us \<noteq> []"
    using assms(2) by (auto simp: validate_patch_def validate_users_ok)
  have users: "map_all read_user (map user_patch_table us) = Some (map user_of_patch us)"
    using ok by (induction us) (simp_all add: user_patch_ok_def user_patch_read)
  obtain t where t: "map_of doc ''auth'' = Some (TTable t)"
    using assms(3) blockD by blast
  moreover have "read_auth t = Some (cf_auth cfg)"
    using assms(1) t by (simp add: read_config_iff req_def sub_def)
  then have "read_auth (AList.update ''users'' (TTables (map user_patch_table us)) t) =
      Some ((cf_auth cfg)\<lparr>au_users := map user_of_patch us\<rparr>)"
    using users by (rule read_auth_edit)
  ultimately show ?thesis
    using assms(1) \<open>us \<noteq> []\<close>
    by (simp add: apply_users_patch_def edit_table_present candidate_def read_config_iff doc_simps sub_def)
qed

lemma transcode_square:
  assumes "read_config addr doc = Some cfg" and "validate_patch (TranscodePatch tc) = Inr ()"
  shows "\<exists>doc' c. apply_transcode_patch tc doc = Some doc' \<and> candidate (TranscodePatch tc) cfg = Some c \<and>
    read_config addr doc' = Some c"
proof (cases tc)
  case None
  then show ?thesis
    using assms(1)
    by (simp add: apply_transcode_patch_def candidate_def opt_transcode_of_patch_def read_config_iff doc_simps)
next
  case (Some x)
  then have "validate_transcode_patch (Some x) = Inr ()"
    using assms(2) by (simp add: validate_patch_def)
  then obtain c where c: "transcode_of_patch x = Some c" "transcode_fits c"
    by (blast elim: transcode_patch_fits)
  then obtain f where f: "format_of_str (tcp_format x) = Some f"
      "c = \<lparr>tc_format = f, tc_sample_rate = tcp_sample_rate x, tc_bitrate_kbps = tcp_bitrate_kbps x\<rparr>"
    by (auto simp: transcode_of_patch_def)
  have new: "read_transcode (updates (transcode_patch_table x) t) = Some c" for t
    using f c(2) by (simp add: transcode_patch_table_def fld_def read_transcode_def doc_simps transcode_fits_def)
  have "\<exists>it. apply_transcode_patch tc doc = Some (AList.update ''transcode'' it doc) \<and> sub read_transcode it = Some c"
  proof (cases "map_of doc ''transcode''")
    case None
    then show ?thesis
      using new Some by (auto simp: apply_transcode_patch_def edit_table_absent sub_def)
  next
    case (Some it)
    then obtain t where "as_table it = Some t"
      using assms(1) by (auto simp: read_config_iff opt_def sub_def bind_eq_Some_conv)
    then obtain it' where "set_all (transcode_patch_table x) it = Some it'"
        "as_table it' = Some (updates (transcode_patch_table x) t)"
      by (blast elim: set_all_table)
    then show ?thesis
      using new Some \<open>tc = Some x\<close> by (auto simp: apply_transcode_patch_def edit_table_present sub_def)
  qed
  then show ?thesis
    using assms(1) c Some
    by (auto simp: candidate_def opt_transcode_of_patch_def read_config_iff doc_simps)
qed

lemma i64_saturated_fits [doc_simps]: "n < 2 ^ 63 \<Longrightarrow> i64_saturated n = tnat n"
  by (simp add: i64_saturated_def)

lemma server_square:
  assumes read: "read_config addr doc = Some cfg" and "validate_patch (ServerPatch p) = Inr ()"
    and fits: "patch_fits addr (ServerPatch p)" and "block ''limits'' doc" and "block ''auth'' doc"
  shows "\<exists>doc' c. apply_server_patch p doc = Some doc' \<and> candidate (ServerPatch p) cfg = Some c \<and>
    read_config addr doc' = Some c"
proof -
  obtain s st where s: "map_of doc ''server'' = Some s" "as_table s = Some st"
    using read by (auto simp: read_config_iff elim!: req_sub_SomeD)
  obtain l lt where l: "map_of doc ''logging'' = Some l" "as_table l = Some lt"
    using read by (auto simp: read_config_iff elim!: req_sub_SomeD)
  obtain mt where m: "map_of doc ''limits'' = Some (TTable mt)"
    using assms(4) blockD by blast
  obtain ath where a: "map_of doc ''auth'' = Some (TTable ath)"
    using assms(5) blockD by blast
  have auth: "read_auth ath = Some (cf_auth cfg)"
    using read a by (simp add: read_config_iff req_def sub_def)
  obtain fmt where fmt: "log_format_of_str (lgp_format (svp_logging p)) = Some fmt"
    using assms(2) by (auto simp: validate_patch_def validate_server_patch_def log_format_of_str_def split: if_splits)
  let ?svs = "[(''stream_bind'', TStr (svp_stream_bind (svp_server p))),
    (''admin_bind'', TStr (svp_admin_bind (svp_server p))), (''hostname'', TStr (svp_hostname (svp_server p)))]"
  let ?lgs = "[(''level'', TStr (lgp_level (svp_logging p))), (''format'', TStr (lgp_format (svp_logging p)))]"
  obtain s' where s': "set_all ?svs s = Some s'" "as_table s' = Some (updates ?svs st)"
    using s by (blast elim: set_all_table)
  obtain l' where l': "set_all ?lgs l = Some l'" "as_table l' = Some (updates ?lgs lt)"
    using l by (blast elim: set_all_table)
  have server: "read_server addr (updates ?svs st) = Some \<lparr>sv_stream_bind = svp_stream_bind (svp_server p),
      sv_admin_bind = svp_admin_bind (svp_server p), sv_hostname = svp_hostname (svp_server p)\<rparr>"
    using fits by (simp add: read_server_def doc_simps patch_fits_def)
  have logging: "read_logging (updates ?lgs lt) = Some \<lparr>lg_level = lgp_level (svp_logging p), lg_format = fmt\<rparr>"
    using fmt by (simp add: read_logging_def doc_simps)
  let ?m = "svp_limits p"
  obtain mt' where m': "(set_all [(''max_listeners_global'', tnat (lmp_max_listeners_global ?m)),
        (''ring_size'', i64_saturated (lmp_ring_size ?m)),
        (''slow_listener_grace_s'', i64_saturated (lmp_slow_listener_grace_s ?m)),
        (''burst_size'', tnat (lmp_burst_size ?m))] (TTable mt)
      \<bind> set_or_remove ''source_max_kbps'' (map_option tnat (lmp_source_max_kbps ?m))) = Some (TTable mt')"
    and limits: "read_limits mt' = Some \<lparr>lm_max_listeners_global = lmp_max_listeners_global ?m,
        lm_ring_size = lmp_ring_size ?m, lm_slow_listener_grace_s = lmp_slow_listener_grace_s ?m,
        lm_source_max_kbps = lmp_source_max_kbps ?m, lm_burst_size = lmp_burst_size ?m\<rparr>"
    using fits by (cases "lmp_source_max_kbps ?m")
      (simp_all add: set_or_remove_def read_limits_def doc_simps patch_fits_def u32_option_def)
  let ?doc3 = "AList.update ''limits'' (TTable mt') (AList.update ''logging'' l' (AList.update ''server'' s' doc))"
  let ?last = "case svp_auth p of None \<Rightarrow> Some ?doc3
    | Some ap \<Rightarrow> edit_table ''auth'' (set_or_remove ''source_password'' (map_option TStr (aup_source_password ap))) ?doc3"
  have "apply_server_patch p doc = ?last"
    using s l m s' l' m'
    by (simp add: apply_server_patch_def edit_table_present update_conv' del: set_all.simps set_all_tables)
  then show ?thesis
  proof (cases "svp_auth p")
    case None
    then show ?thesis
      using \<open>apply_server_patch p doc = ?last\<close> read s' l' fmt server logging limits
      by (simp add: candidate_def server_candidate_def read_config_iff doc_simps sub_def)
  next
    case (Some ap)
    obtain t' where "set_or_remove ''source_password'' (map_option TStr (aup_source_password ap)) (TTable ath) =
        Some (TTable t')"
      and "read_auth t' = Some ((cf_auth cfg)\<lparr>au_source_password := aup_source_password ap\<rparr>)"
      using read_auth_edit(2) [OF auth] by blast
    then show ?thesis
      using \<open>apply_server_patch p doc = ?last\<close> Some a read s' l' fmt server logging limits
      by (simp add: edit_table_present update_conv' candidate_def server_candidate_def read_config_iff doc_simps sub_def)
  qed
qed

lemma patch_square:
  assumes "read_config addr doc = Some cfg" and "validate_patch p = Inr ()"
    and "patch_fits addr p" and "editable p doc"
  shows "\<exists>doc' cfg'. apply_patch p doc = Some doc' \<and> candidate p cfg = Some cfg' \<and> read_config addr doc' = Some cfg'"
proof (cases p)
  case (ServerPatch sp)
  with assms show ?thesis
    using server_square [of addr doc cfg sp] by (simp add: apply_patch_def editable_def)
next
  case (TranscodePatch tc)
  with assms show ?thesis
    using transcode_square [of addr doc cfg tc] by (simp add: apply_patch_def)
next
  case (MountsPatch ms)
  with assms show ?thesis
    using mounts_square [of addr doc cfg ms] by (simp add: apply_patch_def)
next
  case (UsersPatch us)
  with assms show ?thesis
    using users_square [of addr doc cfg us] by (simp add: apply_patch_def editable_def)
next
  case (AutoDjsPatch as)
  with assms show ?thesis
    using autodjs_square [of addr doc cfg as] by (simp add: apply_patch_def)
next
  case (RelaysPatch rs)
  with assms show ?thesis
    using relays_square [of addr doc cfg rs] by (simp add: apply_patch_def)
qed

text \<open>
  Claim C10. Saving is faithful: for every patch that passes validation, the document read after the
  edit is the configuration read before it with exactly the section of the patch replaced; the
  edit does not panic, and neither does the overlay that builds the running configuration.
\<close>

theorem patch_is_overlay:
  assumes "read_config addr doc = Some cfg" and "validate_patch p = Inr ()"
    and "patch_fits addr p" and "editable p doc"
  shows "\<exists>doc' cfg'. apply_patch p doc = Some doc' \<and> candidate p cfg = Some cfg' \<and> read_config addr doc' = Some cfg'"
  using assms by (rule patch_square)

section \<open>The file on disk\<close>

lemma stem_differs:
  assumes "CHR ''.'' \<in> set ext"
  shows "(case split_last (CHR ''.'') name of None \<Rightarrow> name | Some (s, e) \<Rightarrow> if s = [] then name else s) @ ''.'' @ ext \<noteq> name"
proof (cases "split_last (CHR ''.'') name")
  case (Some se)
  obtain s e where "se = (s, e)" by fastforce
  with Some have "name = s @ CHR ''.'' # e" "CHR ''.'' \<notin> set e"
    using split_last_SomeD by metis+
  then show ?thesis
    using Some \<open>se = (s, e)\<close> assms by auto
qed auto

lemma with_extension_differs: "with_extension path ''toml.tmp'' \<noteq> path"
proof (cases "split_last (CHR ''/'') path")
  case None
  then show ?thesis
    using stem_differs [of "''toml.tmp''" path] by (simp add: with_extension_def)
next
  case (Some dn)
  obtain d n where dn: "dn = (d, n)" by fastforce
  with Some have "path = (d @ ''/'') @ n"
    using split_last_SomeD by fastforce
  then show ?thesis
    using stem_differs [of "''toml.tmp''" n] Some dn by (simp add: with_extension_def)
qed

text \<open>
  The configuration file is replaced as a whole or not at all: whatever step fails, and
  however much of the temporary file was written, the file holds its old text; on success it holds
  the new text and no temporary file is left. No file other than these two is touched.
\<close>

theorem atomic_write_all_or_nothing:
  "(case atomic_write fault path contents fs of
      (Inr _, fs') \<Rightarrow> fault = NoFault \<and> fs' path = Some contents \<and> fs' (with_extension path ''toml.tmp'') = None
    | (Inl _, fs') \<Rightarrow> fault \<noteq> NoFault \<and> fs' path = fs path) \<and>
   snd (atomic_write fault path contents fs) |` (- {path, with_extension path ''toml.tmp''}) =
     fs |` (- {path, with_extension path ''toml.tmp''})"
  using with_extension_differs [of path]
  by (cases fault) (auto simp: atomic_write_def Let_def restrict_map_def fun_eq_iff)

section \<open>Sections written inline\<close>

definition example_server :: server_config where
  "example_server = \<lparr>sv_stream_bind = ''0.0.0.0:8000'', sv_admin_bind = ''127.0.0.1:8001'', sv_hostname = ''radio''\<rparr>"

definition example_limits :: "nat option \<Rightarrow> limits_config" where
  "example_limits kbps = \<lparr>lm_max_listeners_global = 10, lm_ring_size = 16, lm_slow_listener_grace_s = 5,
     lm_source_max_kbps = kbps, lm_burst_size = 65536\<rparr>"

definition example_config :: "nat option \<Rightarrow> config" where
  "example_config kbps = \<lparr>cf_server = example_server, cf_logging = \<lparr>lg_level = ''info'', lg_format = LogJson\<rparr>,
     cf_auth = \<lparr>au_users = [], au_source_password = None\<rparr>, cf_limits = example_limits kbps,
     cf_mounts = [], cf_autodjs = [], cf_relays = [], cf_tls = None, cf_transcode = None\<rparr>"

definition inline_doc :: table where
  "inline_doc =
     [(''server'', TTable (server_table example_server)),
      (''logging'', TTable (logging_table \<lparr>lg_level = ''info'', lg_format = LogJson\<rparr>)),
      (''auth'', TInline []), (''limits'', TInline (limits_table (example_limits (Some 128))))]"

definition example_server_patch :: server_patch where
  "example_server_patch =
     \<lparr>svp_server = \<lparr>svp_stream_bind = ''0.0.0.0:8000'', svp_admin_bind = ''127.0.0.1:8001'', svp_hostname = ''radio''\<rparr>,
      svp_logging = \<lparr>lgp_level = ''info'', lgp_format = ''json''\<rparr>,
      svp_limits = \<lparr>lmp_max_listeners_global = 10, lmp_ring_size = 16, lmp_slow_listener_grace_s = 5,
        lmp_burst_size = 65536, lmp_source_max_kbps = None\<rparr>, svp_auth = None\<rparr>"

lemma inline_doc_read: "read_config Some inline_doc = Some (example_config (Some 128))"
  by (simp add: read_config_iff inline_doc_def req_def dflt_def opt_def sub_def read_server_table server_addrs_ok_def
      example_config_def read_logging_table read_limits_table limits_fits_def example_limits_def read_auth_def)

text \<open>
  Sections written inline are edited wrongly although they read the same. With \<open>auth\<close> as
  an inline table every save of the users panics; with \<open>limits\<close> as an inline table, removing the
  rate cap of the sources changes the running server but leaves the cap in the file.
\<close>

theorem inline_sections_misedited:
  "read_config Some inline_doc = Some (example_config (Some 128)) \<and>
   apply_users_patch us inline_doc = None \<and>
   candidate (ServerPatch example_server_patch) (example_config (Some 128)) = Some (example_config None) \<and>
   Option.bind (apply_server_patch example_server_patch inline_doc) (read_config Some) = Some (example_config (Some 128))"
proof (intro conjI)
  show "read_config Some inline_doc = Some (example_config (Some 128))"
    by (rule inline_doc_read)
  show "apply_users_patch us inline_doc = None"
    by (simp add: apply_users_patch_def edit_table_def ensure_table_def inline_doc_def)
  show "candidate (ServerPatch example_server_patch) (example_config (Some 128)) = Some (example_config None)"
    by (simp add: candidate_def server_candidate_def example_server_patch_def example_config_def log_format_of_str_def
        example_limits_def example_server_def)
  have "apply_server_patch example_server_patch inline_doc = Some inline_doc"
    by (simp add: apply_server_patch_def inline_doc_def edit_table_def ensure_table_def example_server_patch_def
        server_table_def logging_table_def limits_table_def fld_def ofld_def example_server_def example_limits_def
        set_or_remove_def i64_saturated_def)
  then show "Option.bind (apply_server_patch example_server_patch inline_doc) (read_config Some) =
      Some (example_config (Some 128))"
    by (simp add: inline_doc_read)
qed

lemma example_config_fits: "config_fits Some (example_config (Some 128))"
  by (simp add: config_fits_def example_config_def server_addrs_ok_def limits_fits_def example_limits_def)

theorem config_roundtrip_witness:
  "read_config Some (config_table (example_config (Some 128))) = Some (example_config (Some 128))"
  by (rule config_roundtrip) (rule example_config_fits)

theorem readable_configs_typed_witness:
  "(\<exists>t. read_config Some t = Some (example_config (Some 128))) \<and>
   (\<nexists>t. read_config Some t = Some (example_config (Some (2 ^ 32))))"
proof -
  have "\<not> config_fits Some (example_config (Some (2 ^ 32)))"
    by (simp add: config_fits_def example_config_def limits_fits_def example_limits_def)
  then show ?thesis
    using readable_configs_typed [of Some "example_config (Some 128)"] readable_configs_typed [of Some "example_config (Some (2 ^ 32))"]
      example_config_fits by simp
qed

text \<open>An entry of the mount section, applied to a document written by the server.\<close>

definition example_mount_patch :: mount_sub_patch where
  "example_mount_patch =
     \<lparr>mtp_path = ''/live'', mtp_source_password = ''hackme'', mtp_max_listeners = Some 20, mtp_name = Some ''Live'',
      mtp_description = None, mtp_genre = None, mtp_url = None, mtp_burst_size = None,
      mtp_transcode = Some \<lparr>tcp_format = ''vorbis'', tcp_sample_rate = 44100, tcp_bitrate_kbps = 128\<rparr>\<rparr>"

lemma trim_example: "trim ''/live'' \<noteq> []" "trim ''hackme'' \<noteq> []"
  by (simp_all add: trim_graphic graphic_def)

theorem patch_is_overlay_witness:
  "\<exists>doc' cfg'. apply_patch (MountsPatch [example_mount_patch]) (config_table (example_config (Some 128))) = Some doc' \<and>
     candidate (MountsPatch [example_mount_patch]) (example_config (Some 128)) = Some cfg' \<and>
     read_config Some doc' = Some cfg'"
proof (rule patch_is_overlay)
  show "read_config Some (config_table (example_config (Some 128))) = Some (example_config (Some 128))"
    by (rule read_config_table) (simp add: example_config_fits)
  show "validate_patch (MountsPatch [example_mount_patch]) = Inr ()"
    using trim_example
    by (simp add: validate_patch_def validate_mounts_patch_def Let_def nested_transcode_error_def validate_transcode_patch_def
        entry_limits_error_def starts_with_def example_mount_patch_def)
qed (simp_all add: patch_fits_def editable_def u32_option_def example_mount_patch_def)

end
