(* ===== verification/Save_Facts.thy ===== *)
theory Save_Facts
  imports Admin_Config Config_Facts
begin

text \<open>
  What the configuration endpoints guarantee: the view leaks no secret, a reply tells the truth
  about the file and the running server, the file and the running configuration stay equal, no
  administrator can lock himself out, and where two editors that run together lose an update.
\<close>

section \<open>The view\<close>

text \<open>Two configurations that differ in secrets only, and in the stream sections only so.\<close>

definition same_mounts :: "mount_config list \<Rightarrow> mount_config list \<Rightarrow> bool" where
  "same_mounts ms ms' \<longleftrightarrow> list_all2 (\<lambda>m m'. m\<lparr>mc_source_password := []\<rparr> = m'\<lparr>mc_source_password := []\<rparr>) ms ms'"

definition same_relays :: "relay_config list \<Rightarrow> relay_config list \<Rightarrow> bool" where
  "same_relays rs rs' \<longleftrightarrow>
     list_all2 (\<lambda>r r'. r\<lparr>rc_password := None\<rparr> = r'\<lparr>rc_password := None\<rparr> \<and>
       (rc_password r = None \<longleftrightarrow> rc_password r' = None)) rs rs'"

definition same_users :: "user_config list \<Rightarrow> user_config list \<Rightarrow> bool" where
  "same_users us us' \<longleftrightarrow> list_all2 (\<lambda>u u'. us_username u = us_username u' \<and> us_role u = us_role u') us us'"

definition same_streams :: "config \<Rightarrow> config \<Rightarrow> bool" where
  "same_streams c c' \<longleftrightarrow>
     same_mounts (cf_mounts c) (cf_mounts c') \<and> cf_autodjs c = cf_autodjs c' \<and> same_relays (cf_relays c) (cf_relays c')"

definition same_but_secrets :: "config \<Rightarrow> config \<Rightarrow> bool" where
  "same_but_secrets c c' \<longleftrightarrow>
     same_streams c c' \<and> same_users (au_users (cf_auth c)) (au_users (cf_auth c')) \<and>
     (au_source_password (cf_auth c) = None \<longleftrightarrow> au_source_password (cf_auth c') = None) \<and>
     cf_server c = cf_server c' \<and> cf_logging c = cf_logging c' \<and> cf_limits c = cf_limits c' \<and>
     cf_tls c = cf_tls c' \<and> cf_transcode c = cf_transcode c'"

lemma map_same: "list_all2 R xs ys \<Longrightarrow> (\<And>x y. R x y \<Longrightarrow> f x = f y) \<Longrightarrow> map f xs = map f ys"
  by (induction rule: list_all2_induct) auto

lemma redact_streams:
  assumes "same_streams c c'"
  shows "cf_mounts (redact c) = cf_mounts (redact c')" "cf_autodjs (redact c) = cf_autodjs (redact c')"
    "cf_relays (redact c) = cf_relays (redact c')"
proof -
  have m: "m\<lparr>mc_source_password := redacted\<rparr> = m'\<lparr>mc_source_password := redacted\<rparr>"
    if "m\<lparr>mc_source_password := []\<rparr> = m'\<lparr>mc_source_password := []\<rparr>" for m m' :: mount_config
    using that by (cases m; cases m') simp
  have r: "r\<lparr>rc_password := map_option (\<lambda>_. redacted) (rc_password r)\<rparr> =
      r'\<lparr>rc_password := map_option (\<lambda>_. redacted) (rc_password r')\<rparr>"
    if "r\<lparr>rc_password := None\<rparr> = r'\<lparr>rc_password := None\<rparr> \<and> (rc_password r = None \<longleftrightarrow> rc_password r' = None)"
    for r r' :: relay_config
    using that by (cases r; cases r'; cases "rc_password r"; cases "rc_password r'") auto
  show "cf_mounts (redact c) = cf_mounts (redact c')"
    using assms unfolding same_streams_def same_mounts_def redact_def by simp (blast intro: map_same m)
  show "cf_autodjs (redact c) = cf_autodjs (redact c')"
    using assms by (simp add: redact_def same_streams_def)
  show "cf_relays (redact c) = cf_relays (redact c')"
  proof -
    have "map (\<lambda>r. r\<lparr>rc_password := map_option (\<lambda>_. redacted) (rc_password r)\<rparr>) (cf_relays c) =
        map (\<lambda>r. r\<lparr>rc_password := map_option (\<lambda>_. redacted) (rc_password r)\<rparr>) (cf_relays c')"
      using assms unfolding same_streams_def same_relays_def by (elim conjE) (rule map_same, assumption, rule r)
    then show ?thesis
      by (simp add: redact_def)
  qed
qed

text \<open>
  Claim C29. The configuration view leaks no secret: two configurations that differ only in password
  hashes, source passwords and relay passwords have the same view, and the view of an operator does
  not depend on the server, logging, limits, transcode, TLS and user sections at all.
\<close>

theorem view_hides_secrets:
  "(same_but_secrets c c' \<longrightarrow> build_config_response c path adm = build_config_response c' path adm) \<and>
   (same_streams c c' \<longrightarrow> build_config_response c path False = build_config_response c' path False)"
proof (intro conjI impI)
  show "build_config_response c path False = build_config_response c' path False" if "same_streams c c'"
    using redact_streams [OF that] by (simp add: build_config_response_def Let_def)
  assume same: "same_but_secrets c c'"
  have "u\<lparr>us_password_bcrypt := redacted\<rparr> = u'\<lparr>us_password_bcrypt := redacted\<rparr>"
    if "us_username u = us_username u' \<and> us_role u = us_role u'" for u u' :: user_config
    using that by (cases u; cases u') simp
  then have "map (\<lambda>u. u\<lparr>us_password_bcrypt := redacted\<rparr>) (au_users (cf_auth c)) =
      map (\<lambda>u. u\<lparr>us_password_bcrypt := redacted\<rparr>) (au_users (cf_auth c'))"
    using same map_same [where f = "\<lambda>u. u\<lparr>us_password_bcrypt := redacted\<rparr>"]
    unfolding same_but_secrets_def same_users_def by blast
  then have "cf_auth (redact c) = cf_auth (redact c')"
    using same by (cases "au_source_password (cf_auth c)"; cases "au_source_password (cf_auth c')")
      (auto simp: redact_def same_but_secrets_def)
  moreover have "cf_server (redact c) = cf_server (redact c')" "cf_logging (redact c) = cf_logging (redact c')"
    "cf_limits (redact c) = cf_limits (redact c')" "cf_tls (redact c) = cf_tls (redact c')"
    "cf_transcode (redact c) = cf_transcode (redact c')"
    using same by (simp_all add: redact_def same_but_secrets_def)
  ultimately show "build_config_response c path adm = build_config_response c' path adm"
    using same redact_streams [of c c'] by (simp add: build_config_response_def same_but_secrets_def Let_def)
qed

section \<open>Replies\<close>

lemma apply_config_never_fails:
  "fst (apply_config c sv) = Inr (reload_warnings (ap_config (rs_app sv)) c)"
  "ap_config (rs_app (snd (apply_config c sv))) = c"
  by (simp_all add: apply_config_def auth_reload_def Let_def on_app_def)

lemma app_applier_ok:
  "app_applier c s = (Inr (reload_warnings (cs_config s) c), s\<lparr>cs_server := snd (apply_config c (cs_server s))\<rparr>)"
  using apply_config_never_fails [of c "cs_server s"]
  by (cases "apply_config c (cs_server s)") (simp add: app_applier_def cs_config_def)

definition target_path :: "config_site \<Rightarrow> string" where
  "target_path s = unwrap_or (cs_path s) ''config.toml''"

lemma document_text_target: "document_text L rf cand s = Inr (t, p) \<Longrightarrow> p = target_path s"
  by (auto simp: document_text_def bootstrap_text_def target_path_def split: option.splits sum.splits)

definition temp_path :: "config_site \<Rightarrow> string" where
  "temp_path s = with_extension (target_path s) ''toml.tmp''"

text \<open>What a save leaves of the files: everything but the temporary file, and the target on success.\<close>

definition untouched :: "string set \<Rightarrow> files \<Rightarrow> files \<Rightarrow> bool" where
  "untouched ps fs fs' \<longleftrightarrow> fs |` (- ps) = fs' |` (- ps)"

lemma untouched_refl [simp]: "untouched ps fs fs"
  by (simp add: untouched_def)

lemma untouchedD: "untouched ps fs fs' \<Longrightarrow> q \<notin> ps \<Longrightarrow> fs' q = fs q"
  unfolding untouched_def by (drule fun_cong [of _ _ q]) (simp add: restrict_map_def)

lemma atomic_write_failed:
  assumes "atomic_write fault path contents fs = (Inl e, fs')"
  shows "untouched {with_extension path ''toml.tmp''} fs fs'"
  using assms by (cases fault) (auto simp: atomic_write_def Let_def untouched_def restrict_map_def fun_eq_iff split: if_splits)

lemma atomic_write_done:
  assumes "atomic_write fault path contents fs = (Inr u, fs')"
  shows "fs' path = Some contents" and "untouched {path, with_extension path ''toml.tmp''} fs fs'"
proof -
  have "fs' = (fs(path \<mapsto> contents))(with_extension path ''toml.tmp'' := None)"
    using assms by (cases fault) (auto simp: atomic_write_def Let_def)
  then show "fs' path = Some contents" and "untouched {path, with_extension path ''toml.tmp''} fs fs'"
    using with_extension_differs [of path] by (simp_all add: untouched_def restrict_map_def fun_eq_iff)
qed

lemma persist_cases:
  assumes "persist_and_apply L rf wr adm cand f s = (r, s')"
  obtains (refused) msg where "r = PutError 500 msg None False" and "cs_server s' = cs_server s"
      and "cs_path s' = cs_path s" and "cs_admin s' = cs_admin s" and "untouched {temp_path s} (cs_files s) (cs_files s')"
    | (panic) "r = PutPanic" and "s' = s"
    | (saved) t doc doc' where "document_text L rf cand s = Inr (t, target_path s)" and "tm_parse L t = Inr doc"
      and "f doc = Some doc'" and "cs_files s' (target_path s) = Some (tm_print L doc')"
      and "untouched {target_path s, temp_path s} (cs_files s) (cs_files s')"
      and "cs_path s' = Some (target_path s)" and "cs_admin s' = cs_admin s"
      and "cs_server s' = snd (apply_config cand (cs_server s))" and "cs_config s' = cand"
      and "r = PutOk (build_config_response cand (Some (target_path s)) adm) (reload_warnings (cs_config s) cand)"
proof (cases "document_text L rf cand s")
  case (Inl e)
  with assms refused show thesis
    by (auto simp: persist_and_apply_def io_error_response_def)
next
  case (Inr tp)
  obtain t where tp: "tp = (t, target_path s)"
    using document_text_target Inr by (cases tp) blast
  show thesis
  proof (cases "tm_parse L t")
    case (Inl e)
    with assms refused Inr tp show thesis
      by (auto simp: persist_and_apply_def io_error_response_def)
  next
    case parsed: (Inr doc)
    show thesis
    proof (cases "f doc")
      case None
      with assms panic Inr tp parsed show thesis
        by (simp add: persist_and_apply_def)
    next
      case (Some doc')
      obtain w fs where w: "atomic_write wr (target_path s) (tm_print L doc') (cs_files s) = (w, fs)"
        by fastforce
      show thesis
      proof (cases w)
        case (Inl e)
        with assms refused Inr tp parsed Some w atomic_write_failed [of wr "target_path s" "tm_print L doc'" "cs_files s" e fs]
        show thesis
          by (auto simp: persist_and_apply_def io_error_response_def temp_path_def)
      next
        case ok: (Inr u)
        let ?s1 = "s\<lparr>cs_files := fs, cs_server := snd (apply_config cand (cs_server s))\<rparr>"
        have path: "cs_path s = None \<or> cs_path s = Some (target_path s)"
          by (cases "cs_path s") (simp_all add: target_path_def)
        have "app_applier cand (s\<lparr>cs_files := fs\<rparr>) = (Inr (reload_warnings (cs_config s) cand), ?s1)"
          using app_applier_ok [of cand "s\<lparr>cs_files := fs\<rparr>"] by (simp add: cs_config_def)
        then have "s' = ?s1\<lparr>cs_path := Some (target_path s)\<rparr>"
          and "r = PutOk (build_config_response (cs_config s') (Some (target_path s)) adm) (reload_warnings (cs_config s) cand)"
          using assms path unfolding persist_and_apply_def Inr tp by (auto simp: parsed Some w ok Let_def)
        with saved [of t doc doc'] Inr tp parsed Some atomic_write_done [of wr "target_path s" "tm_print L doc'" "cs_files s" u fs] w ok
        show thesis
          by (simp add: temp_path_def cs_config_def apply_config_never_fails)
      qed
    qed
  qed
qed

lemma validate_from_error:
  "validate_mounts_from i seen ms = Inl e \<Longrightarrow> \<exists>f m. e = Validate f m"
  "validate_users_from i seen us = Inl e \<Longrightarrow> \<exists>f m. e = Validate f m"
  "validate_autodjs_from i seen as = Inl e \<Longrightarrow> \<exists>f m. e = Validate f m"
  "validate_relays_from i seen rs = Inl e \<Longrightarrow> \<exists>f m. e = Validate f m"
proof -
  have n: "nested_transcode_error pre tc = Some e \<Longrightarrow> \<exists>f m. e = Validate f m" for pre tc
    by (auto simp: nested_transcode_error_def split: sum.splits write_error.splits)
  have l: "entry_limits_error pre x y = Some e \<Longrightarrow> \<exists>f m. e = Validate f m" for pre x y
    by (auto simp: entry_limits_error_def split: if_splits option.splits)
  have c: "credentials_error pre r = Some e \<Longrightarrow> \<exists>f m. e = Validate f m" for pre r
    by (auto simp: credentials_error_def split: if_splits option.splits)
  show "validate_mounts_from i seen ms = Inl e \<Longrightarrow> \<exists>f m. e = Validate f m"
    by (induction i seen ms rule: validate_mounts_from.induct)
      (auto simp: Let_def split: if_splits option.splits dest: n l)
  show "validate_users_from i seen us = Inl e \<Longrightarrow> \<exists>f m. e = Validate f m"
    by (induction i seen us rule: validate_users_from.induct) (auto simp: Let_def split: if_splits)
  show "validate_autodjs_from i seen as = Inl e \<Longrightarrow> \<exists>f m. e = Validate f m"
    by (induction i seen as rule: validate_autodjs_from.induct)
      (auto simp: Let_def split: if_splits option.splits dest: n l)
  show "validate_relays_from i seen rs = Inl e \<Longrightarrow> \<exists>f m. e = Validate f m"
    by (induction i seen rs rule: validate_relays_from.induct)
      (auto simp: Let_def split: if_splits option.splits dest: n l c)
qed

text \<open>A validation fails with a field and a message only, so the other patterns of the code never arise.\<close>

lemma validate_patch_error: "validate_patch p = Inl e \<Longrightarrow> \<exists>f m. e = Validate f m"
  by (cases p)
    (auto simp: validate_patch_def validate_server_patch_def validate_transcode_patch_def validate_mounts_patch_def
      validate_users_patch_def validate_autodjs_patch_def validate_relays_patch_def
      split: if_splits option.splits sum.splits dest: validate_from_error)

lemma put_patch_cases:
  assumes "put_patch L rf wr adm cur p s = (r, s')"
  obtains (refused) code msg field where "r = PutError code msg field False" and "cs_server s' = cs_server s"
      and "cs_path s' = cs_path s" and "cs_admin s' = cs_admin s" and "untouched {temp_path s} (cs_files s) (cs_files s')"
    | (panic) "r = PutPanic" and "s' = s"
    | (saved) cand t doc doc' where "validate_patch p = Inr ()" and "candidate p cur = Some cand"
      and "candidate_paths p cand = Inr ()" and "document_text L rf cand s = Inr (t, target_path s)"
      and "tm_parse L t = Inr doc" and "apply_patch p doc = Some doc'"
      and "cs_files s' (target_path s) = Some (tm_print L doc')"
      and "untouched {target_path s, temp_path s} (cs_files s) (cs_files s')"
      and "cs_path s' = Some (target_path s)" and "cs_admin s' = cs_admin s"
      and "cs_server s' = snd (apply_config cand (cs_server s))" and "cs_config s' = cand"
      and "r = PutOk (build_config_response cand (Some (target_path s)) adm) (reload_warnings (cs_config s) cand)"
proof (cases "validate_patch p")
  case (Inl e)
  then obtain f m where e: "e = Validate f m"
    using validate_patch_error by blast
  with assms refused Inl show thesis
    by (auto simp: put_patch_def)
next
  case valid: (Inr u)
  show thesis
  proof (cases "candidate p cur")
    case None
    with assms panic valid show thesis
      by (simp add: put_patch_def)
  next
    case (Some cand)
    show thesis
    proof (cases "candidate_paths p cand")
      case (Inl e)
      with assms refused valid Some show thesis
        by (auto simp: put_patch_def)
    next
      case (Inr v)
      then have "persist_and_apply L rf wr adm cand (apply_patch p) s = (r, s')"
        using assms valid Some by (simp add: put_patch_def)
      then show thesis
        by (rule persist_cases) (use refused panic saved valid Some Inr in \<open>auto\<close>)
    qed
  qed
qed

text \<open>
  Claim C31. A reply of an editor tells the truth. On success the running configuration is the
  overlay of the patch, the response shows it, and the file holds the edited document; on an error
  the running server and the configuration file are as before (only the temporary file may remain)
  and the reply says so; a panic leaves everything as it was. The reply that the file was written
  but not applied never occurs with this credential store.
\<close>

theorem put_reply_truthful:
  "case put_patch L rf wr adm cur p s of (r, s') \<Rightarrow>
     cs_admin s' = cs_admin s \<and>
     (case r of
        PutOk resp warnings \<Rightarrow>
          cs_path s' = Some (target_path s) \<and> candidate p cur = Some (cs_config s') \<and>
          resp = build_config_response (cs_config s') (cs_path s') adm \<and>
          (\<exists>t doc doc'. document_text L rf (cs_config s') s = Inr (t, target_path s) \<and> tm_parse L t = Inr doc \<and>
             apply_patch p doc = Some doc' \<and> cs_files s' (target_path s) = Some (tm_print L doc')) \<and>
          untouched {target_path s, temp_path s} (cs_files s) (cs_files s')
      | PutError code msg field disk_written \<Rightarrow>
          \<not> disk_written \<and> cs_server s' = cs_server s \<and> cs_path s' = cs_path s \<and>
          untouched {temp_path s} (cs_files s) (cs_files s')
      | PutPanic \<Rightarrow> s' = s)"
proof -
  obtain r s' where put: "put_patch L rf wr adm cur p s = (r, s')"
    by fastforce
  show ?thesis
    unfolding put prod.case by (rule put_patch_cases [OF put]) auto
qed

section \<open>File and running configuration\<close>

text \<open>What a restart or a SIGHUP would load: \<open>config::load\<close> on the file of the site.\<close>

definition site_read :: "config_site \<Rightarrow> string \<Rightarrow> string + string" where
  "site_read s q = (case cs_files s q of Some t \<Rightarrow> Inr t | None \<Rightarrow> Inl ''not found'')"

definition toml_from_str :: "toml_lib \<Rightarrow> (string \<Rightarrow> socket_addr option) \<Rightarrow> string \<Rightarrow> string + config" where
  "toml_from_str L addr t =
     (case tm_parse L t of
        Inl e \<Rightarrow> Inl e
      | Inr doc \<Rightarrow> (case read_config addr doc of Some c \<Rightarrow> Inr c | None \<Rightarrow> Inl ''invalid''))"

definition disk_config :: "toml_lib \<Rightarrow> (string \<Rightarrow> socket_addr option) \<Rightarrow> config_site \<Rightarrow> config option" where
  "disk_config L addr s =
     (case cs_path s of
        None \<Rightarrow> None
      | Some p \<Rightarrow> (case config_load (site_read s) (toml_from_str L addr) p of Inr c \<Rightarrow> Some c | Inl _ \<Rightarrow> None))"

definition synced :: "toml_lib \<Rightarrow> (string \<Rightarrow> socket_addr option) \<Rightarrow> config_site \<Rightarrow> bool" where
  "synced L addr s \<longleftrightarrow> disk_config L addr s = Some (cs_config s)"

lemma synced_iff:
  "synced L addr s \<longleftrightarrow>
     (\<exists>p t doc. cs_path s = Some p \<and> cs_files s p = Some t \<and> tm_parse L t = Inr doc \<and>
        read_config addr doc = Some (cs_config s)) \<and> config_paths_ok (cs_config s)"
  by (auto simp: synced_def disk_config_def config_load_def site_read_def toml_from_str_def config_parse_str_def
      simp flip: validate_paths_Inr_iff split: option.splits sum.splits)

lemma candidate_paths_ok:
  assumes "candidate p cur = Some cand" and "candidate_paths p cand = Inr ()" and "config_paths_ok cur"
  shows "config_paths_ok cand"
proof (cases "\<exists>us. p = UsersPatch us")
  case True
  then obtain us where "cand = cur\<lparr>cf_auth := (cf_auth cur)\<lparr>au_users := map user_of_patch us\<rparr>\<rparr>"
    using assms(1) by (auto simp: candidate_def)
  with assms(3) show ?thesis
    by (simp add: config_paths_ok_def owned_paths_def)
next
  case False
  then have "candidate_paths p cand = validate_paths cand"
    by (cases p) (auto simp: candidate_paths_def)
  with assms(2) show ?thesis
    by (simp add: validate_paths_Inr_iff)
qed


section \<open>Users\<close>

lemma resolve_users_names:
  "resolve_users hash cur i body = Inr us \<Longrightarrow>
     map usp_username us = map (\<lambda>u. trim (usb_username u)) body \<and> map usp_role us = map usb_role body"
  by (induction hash cur i body arbitrary: us rule: resolve_users.induct)
    (auto simp: Let_def split: if_splits sum.splits)

lemma resolve_users_error:
  "resolve_users hash cur i body = Inl e \<Longrightarrow> \<exists>code msg field. e = PutError code msg field False"
  by (induction hash cur i body rule: resolve_users.induct)
    (auto simp: Let_def io_error_response_def split: if_splits sum.splits option.splits)

lemma user_of_patch_name: "us_username (user_of_patch u) = usp_username u"
  by (simp add: user_of_patch_def)

text \<open>
  Claim C32. An administrator cannot lock himself out: after every successful save of the users, the
  account of the requester is still configured with the admin role.
\<close>

theorem no_self_lockout:
  assumes put: "put_users L hash rf wr now hs body s = (PutOk resp warnings, s')"
    and who: "fst (requester now hs s) = Some (name, role)" and "name \<noteq> []"
  shows "configured_role (cs_config s') name = ''admin''"
proof -
  obtain s0 where s0: "requester now hs s = (Some (name, role), s0)"
    using who by (cases "requester now hs s") auto
  with put \<open>name \<noteq> []\<close> have ex: "list_ex (\<lambda>u. trim (usb_username u) = name \<and> usb_role u = ''admin'') body"
    by (auto simp: put_users_def Let_def split: if_splits)
  then obtain us where us: "resolve_users hash (cs_config s0) 0 body = Inr us"
    and saved: "put_patch L rf wr True (cs_config s0) (UsersPatch us) s0 = (PutOk resp warnings, s')"
    using put s0 by (auto simp: put_users_def Let_def split: if_splits sum.splits dest: resolve_users_error)
  obtain i where i: "i < length body" "trim (usb_username (body ! i)) = name" "usb_role (body ! i) = ''admin''"
    using ex by (auto simp: list_ex_iff in_set_conv_nth)
  have "length us = length body"
    using resolve_users_names [OF us] by (metis length_map)
  then have ui: "i < length us" "usp_username (us ! i) = name" "usp_role (us ! i) = ''admin''"
    using i resolve_users_names [OF us] by (metis nth_map)+
  from saved have valid: "validate_patch (UsersPatch us) = Inr ()" and conf: "candidate (UsersPatch us) (cs_config s0) = Some (cs_config s')"
    by (cases rule: put_patch_cases; simp)+
  have users: "au_users (cf_auth (cs_config s')) = map user_of_patch us"
    using arg_cong [OF conf, of "map_option (\<lambda>c. au_users (cf_auth c))"] by (simp add: candidate_def)
  have "distinct (map us_username (map user_of_patch us))"
    using valid by (simp add: validate_patch_def validate_users_ok user_of_patch_def comp_def)
  moreover have "user_of_patch (us ! i) \<in> set (map user_of_patch us)"
    using ui by simp
  ultimately have "find_key us_username name (map user_of_patch us) = Some (user_of_patch (us ! i))"
    using ui find_key_distinct [of us_username] by (metis user_of_patch_name)
  then show ?thesis
    using users ui by (simp add: configured_role_def user_of_patch_def)
qed

section \<open>Two editors at once\<close>

definition site_doc :: "toml_lib \<Rightarrow> config_site \<Rightarrow> table option" where
  "site_doc L s =
     (case Option.bind (cs_path s) (cs_files s) of
        None \<Rightarrow> None
      | Some t \<Rightarrow> (case tm_parse L t of Inr d \<Rightarrow> Some d | Inl _ \<Rightarrow> None))"

lemma document_text_file:
  assumes "cs_path s = Some p" and "cs_files s p = Some t0" and "document_text L rf cand s = Inr (t, q)"
  shows "t = t0 \<and> q = p"
  using assms by (auto simp: document_text_def split: option.splits)

text \<open>
  Claim C36. The editors take their snapshot of the configuration before they hold the write lock.
  When the mounts editor and the transcode editor start from the same snapshot and save one after
  the other, both are told that they succeeded; the file has both changes, but the running server
  is set back to the mounts it had before, so file and server disagree.
\<close>

theorem concurrent_saves_lose_update:
  assumes first: "put_patch L rf wr adm cur (MountsPatch ms) s = (PutOk r1 w1, s1)"
    and second: "put_patch L rf' wr' adm' cur (TranscodePatch tc) s1 = (PutOk r2 w2, s2)"
  shows "map_all mount_of_patch ms = Some (cf_mounts (cs_config s1)) \<and> cf_mounts (cs_config s2) = cf_mounts cur \<and>
    (\<exists>d1 d2. site_doc L s1 = Some d1 \<and> Option.bind (cs_path s2) (cs_files s2) = Some (tm_print L d2) \<and>
       map_of d2 ''mounts'' = map_of d1 ''mounts'')"
proof -
  obtain c1 t1 where c1: "candidate (MountsPatch ms) cur = Some c1" "cs_config s1 = c1"
    and f1: "cs_path s1 = Some (target_path s)" "cs_files s1 (target_path s) = Some t1"
    using first by (cases rule: put_patch_cases) auto
  obtain c2 t d d' where c2: "candidate (TranscodePatch tc) cur = Some c2" "cs_config s2 = c2"
    and d: "document_text L rf' c2 s1 = Inr (t, target_path s1)" "tm_parse L t = Inr d" "apply_patch (TranscodePatch tc) d = Some d'"
    and f2: "cs_path s2 = Some (target_path s1)" "cs_files s2 (target_path s1) = Some (tm_print L d')"
    using second by (cases rule: put_patch_cases) auto
  have "site_doc L s1 = Some d"
    using document_text_file [OF f1 d(1)] f1 d(2) by (simp add: site_doc_def)
  moreover have "map_of d' ''mounts'' = map_of d ''mounts''"
    using d(3) by (cases tc)
      (auto simp: apply_patch_def apply_transcode_patch_def delete_conv' edit_table_def ensure_table_def Let_def update_conv'
        bind_eq_Some_conv split: if_splits)
  moreover have "map_all mount_of_patch ms = Some (cf_mounts c1)" and "cf_mounts c2 = cf_mounts cur"
    using c1(1) c2(1) by (auto simp: candidate_def)
  ultimately show ?thesis
    using c1(2) c2(2) f2 by auto
qed

section \<open>Concrete runs\<close>

text \<open>A library that names the documents of a list: the n-th is printed as n characters.\<close>

definition codebook :: "table list \<Rightarrow> toml_lib" where
  "codebook ds =
     \<lparr>tm_parse = (\<lambda>t. if length t < length ds then Inr (ds ! length t) else Inl ''unknown document''),
      tm_print = (\<lambda>d. case position (\<lambda>x. x = d) ds of Some i \<Rightarrow> replicate i (CHR ''x'') | None \<Rightarrow> replicate (length ds) (CHR ''x'')),
      tm_serialize = (\<lambda>_. Inl ''not used'')\<rparr>"

lemma codebook_roundtrip: "d \<in> set ds \<Longrightarrow> tm_parse (codebook ds) (tm_print (codebook ds) d) = Inr d"
  using position_SomeD [of "\<lambda>x. x = d" ds] position_None_iff [of "\<lambda>x. x = d" ds]
  by (auto simp: codebook_def split: option.split)

lemma codebook_first: "tm_parse (codebook (d # ds)) [] = Inr d"
  by (simp add: codebook_def)

definition example_site :: "config \<Rightarrow> admin_state \<Rightarrow> config_site" where
  "example_site cfg adm =
     \<lparr>cs_admin = adm, cs_server = \<lparr>rs_app = empty_app cfg, rs_autodjs = Map.empty, rs_relays = Map.empty\<rparr>,
      cs_path = Some ''config.toml'', cs_files = [''config.toml'' \<mapsto> []]\<rparr>"

lemma example_site_sel [simp]:
  "cs_config (example_site cfg adm) = cfg" "cs_path (example_site cfg adm) = Some ''config.toml''"
  "cs_files (example_site cfg adm) = [''config.toml'' \<mapsto> []]" "cs_admin (example_site cfg adm) = adm"
  by (simp_all add: example_site_def cs_config_def empty_app_def)

lemma put_patch_ok:
  assumes "validate_patch p = Inr ()" and "candidate p cur = Some cand" and "candidate_paths p cand = Inr ()"
    and "Option.bind (cs_path s) (cs_files s) = Some t" and "tm_parse L t = Inr doc" and "apply_patch p doc = Some doc'"
  shows "\<exists>resp w s'. put_patch L None NoFault adm cur p s = (PutOk resp w, s') \<and> cs_config s' = cand \<and>
    cs_path s' = cs_path s \<and> Option.bind (cs_path s') (cs_files s') = Some (tm_print L doc')"
proof -
  obtain path where path: "cs_path s = Some path" "cs_files s path = Some t" "target_path s = path"
    using assms(4) by (cases "cs_path s") (auto simp: target_path_def)
  obtain r s' where put: "put_patch L None NoFault adm cur p s = (r, s')"
    by fastforce
  then have "persist_and_apply L None NoFault adm cand (apply_patch p) s = (r, s')"
    using assms by (simp add: put_patch_def)
  moreover have src_text: "document_text L None cand s = Inr (t, path)"
    using path by (simp add: document_text_def)
  ultimately have "\<exists>resp w. r = PutOk resp w"
    using assms(5,6) unfolding persist_and_apply_def
    by (auto simp: atomic_write_def Let_def app_applier_ok cs_config_def split: if_splits)
  then obtain resp w where r: "r = PutOk resp w"
    by blast
  with put show ?thesis
  proof (cases rule: put_patch_cases)
    case (saved c t' d d')
    then have "c = cand" "t' = t"
      using assms(2) src_text by auto
    with saved assms(5,6) have "d' = doc'"
      by simp
    with \<open>c = cand\<close> saved put r path show ?thesis
      by simp
  qed auto
qed

definition example_doc :: table where
  "example_doc = config_table (example_config (Some 128))"

definition example_patched :: table where
  "example_patched = apply_mounts_patch [example_mount_patch] example_doc"

lemma example_doc_read: "read_config Some example_doc = Some (example_config (Some 128))"
  unfolding example_doc_def by (rule read_config_table) (rule example_config_fits)

lemma example_patch_valid: "validate_patch (MountsPatch [example_mount_patch]) = Inr ()"
  using trim_example
  by (simp add: validate_patch_def validate_mounts_patch_def Let_def nested_transcode_error_def validate_transcode_patch_def
      entry_limits_error_def starts_with_def example_mount_patch_def)

lemma example_candidate:
  obtains cand where "candidate (MountsPatch [example_mount_patch]) (example_config k) = Some cand"
    and "candidate_paths (MountsPatch [example_mount_patch]) cand = Inr ()"
proof -
  have "\<exists>m. mount_of_patch example_mount_patch = Some m \<and> mc_path m = ''/live''"
    by (simp add: mount_of_patch_def example_mount_patch_def opt_transcode_of_patch_def transcode_of_patch_def enum_of_str_defs)
  then show thesis
    using that by (auto simp: candidate_def candidate_paths_def example_config_def validate_paths_Inr_iff config_paths_ok_def owned_paths_def)
qed

definition example_admin :: admin_state where
  "example_admin = sample_admin_state (example_config (Some 128)) ''ann''"

theorem view_hides_secrets_witness:
  "build_config_response ((example_config None)\<lparr>cf_auth := \<lparr>au_users = [], au_source_password = Some ''hackme''\<rparr>\<rparr>) None True =
   build_config_response ((example_config None)\<lparr>cf_auth := \<lparr>au_users = [], au_source_password = Some ''other''\<rparr>\<rparr>) None True"
  by (rule view_hides_secrets [THEN conjunct1, rule_format])
    (simp add: same_but_secrets_def same_streams_def same_mounts_def same_relays_def same_users_def example_config_def)


theorem concurrent_saves_lose_update_witness:
  "\<exists>r1 w1 s1 r2 w2 s2.
     put_patch (codebook [example_doc, example_patched]) None NoFault True (example_config (Some 128))
       (MountsPatch [example_mount_patch]) (example_site (example_config (Some 128)) example_admin) = (PutOk r1 w1, s1) \<and>
     put_patch (codebook [example_doc, example_patched]) None NoFault True (example_config (Some 128))
       (TranscodePatch None) s1 = (PutOk r2 w2, s2) \<and>
     cf_mounts (cs_config s1) \<noteq> [] \<and> cf_mounts (cs_config s2) = []"
proof -
  let ?L = "codebook [example_doc, example_patched]" and ?s = "example_site (example_config (Some 128)) example_admin"
  let ?p = "MountsPatch [example_mount_patch]" and ?cfg = "example_config (Some 128)"
  obtain cand where c: "candidate ?p ?cfg = Some cand" "candidate_paths ?p cand = Inr ()"
    by (rule example_candidate)
  have a: "apply_patch ?p example_doc = Some example_patched"
    by (simp add: apply_patch_def example_patched_def)
  have t: "Option.bind (cs_path ?s) (cs_files ?s) = Some []" "tm_parse ?L [] = Inr example_doc"
    by (simp_all add: codebook_first)
  obtain r1 w1 s1 where first: "put_patch ?L None NoFault True ?cfg ?p ?s = (PutOk r1 w1, s1)"
      and s1: "Option.bind (cs_path s1) (cs_files s1) = Some (tm_print ?L example_patched)"
    using put_patch_ok [OF example_patch_valid c t a] by blast
  have q: "validate_patch (TranscodePatch None) = Inr ()" "candidate (TranscodePatch None) ?cfg = Some ?cfg"
      "candidate_paths (TranscodePatch None) ?cfg = Inr ()"
    by (simp_all add: validate_patch_def validate_transcode_patch_def candidate_def opt_transcode_of_patch_def
        example_config_def candidate_paths_def validate_paths_Inr_iff config_paths_ok_def owned_paths_def)
  have b: "apply_patch (TranscodePatch None) example_patched = Some (AList.delete ''transcode'' example_patched)"
    by (simp add: apply_patch_def apply_transcode_patch_def)
  have u: "tm_parse ?L (tm_print ?L example_patched) = Inr example_patched"
    by (rule codebook_roundtrip) simp
  obtain r2 w2 s2 where second: "put_patch ?L None NoFault True ?cfg (TranscodePatch None) s1 = (PutOk r2 w2, s2)"
    using put_patch_ok [OF q s1 u b] by blast
  from concurrent_saves_lose_update [OF first second]
  have "map_all mount_of_patch [example_mount_patch] = Some (cf_mounts (cs_config s1))" "cf_mounts (cs_config s2) = []"
    by (simp_all add: example_config_def)
  with first second show ?thesis
    by (auto simp: bind_eq_Some_conv)
qed

definition ann_config :: config where
  "ann_config = sample_auth_config [\<lparr>us_username = ''ann'', us_password_bcrypt = ''h'', us_role = RoleAdmin\<rparr>]"

lemma ann_requester:
  obtains s0 where "requester 5 sample_headers (example_site ann_config (sample_admin_state ann_config ''ann'')) = (Some (''ann'', ''admin''), s0)"
    and "cs_config s0 = ann_config" and "cs_path s0 = Some ''config.toml''" and "cs_files s0 = [''config.toml'' \<mapsto> []]"
  by (simp add: requester_def session_role_def sample_token sample_admin_state_def session_create_def session_touch_def
      session_lookup_def session_put_def session_store_new_def configured_role_def ann_config_def sample_auth_config_def
      example_site_def cs_config_def empty_app_def)

theorem no_self_lockout_witness:
  "\<exists>resp w s'. put_users (codebook [config_table ann_config]) (\<lambda>_ _. Inr ''h2'') None NoFault 5 sample_headers
       [\<lparr>usb_username = ''ann'', usb_password = None, usb_role = ''admin''\<rparr>]
       (example_site ann_config (sample_admin_state ann_config ''ann'')) = (PutOk resp w, s') \<and>
     configured_role (cs_config s') ''ann'' = ''admin''"
proof -
  let ?L = "codebook [config_table ann_config]" and ?s = "example_site ann_config (sample_admin_state ann_config ''ann'')"
  let ?body = "[\<lparr>usb_username = ''ann'', usb_password = None, usb_role = ''admin''\<rparr>]"
  let ?us = "[\<lparr>usp_username = ''ann'', usp_password_bcrypt = ''h'', usp_role = ''admin''\<rparr>]"
  obtain s0 where who: "requester 5 sample_headers ?s = (Some (''ann'', ''admin''), s0)"
      and s0: "cs_config s0 = ann_config" "cs_path s0 = Some ''config.toml''" "cs_files s0 = [''config.toml'' \<mapsto> []]"
    by (rule ann_requester)
  have ann: "trim ''ann'' = ''ann''"
    by (rule trim_graphic) (simp add: graphic_def)
  have res: "resolve_users (\<lambda>_ _. Inr ''h2'') ann_config 0 ?body = Inr ?us"
    by (simp add: Let_def ann supplied_secret_def ann_config_def sample_auth_config_def hash_map_def)
  have v: "validate_patch (UsersPatch ?us) = Inr ()"
    using ann by (simp add: validate_patch_def validate_users_ok user_patch_ok_def)
  have c: "candidate (UsersPatch ?us) ann_config = Some (ann_config\<lparr>cf_auth := (cf_auth ann_config)\<lparr>au_users := map user_of_patch ?us\<rparr>\<rparr>)"
    by (simp add: candidate_def)
  have p: "candidate_paths (UsersPatch ?us) cand = Inr ()" for cand
    by (simp add: candidate_paths_def)
  obtain doc' where a: "apply_patch (UsersPatch ?us) (config_table ann_config) = Some doc'"
    by (simp add: apply_patch_def apply_users_patch_def edit_table_def ensure_table_def config_table_def doc_simps fld_def)
  obtain resp w s' where "put_patch ?L None NoFault True ann_config (UsersPatch ?us) s0 = (PutOk resp w, s')"
    using put_patch_ok [OF v c p _ codebook_first [of _ "[]"] a, of s0 True] s0 by auto
  then have put: "put_users ?L (\<lambda>_ _. Inr ''h2'') None NoFault 5 sample_headers ?body ?s = (PutOk resp w, s')"
    using res by (simp add: put_users_def who s0 ann del: resolve_users.simps)
  have "configured_role (cs_config s') ''ann'' = ''admin''"
    by (rule no_self_lockout [OF put]) (simp_all add: who)
  with put show ?thesis
    by blast
qed

end
