(* ===== verification/Owner_Wait.thy ===== *)
theory Owner_Wait
  imports App_State
begin

text \<open>
  What the relay and AutoDJ tasks share: waiting on \<open>non_live_resume\<close>, waiting for a live source to
  release the mount, and the interface of a task that is driven step by step by what it observes,
  with its law of prompt shutdown.
\<close>

section \<open>Waiting\<close>

text \<open>A poll of \<open>notified()\<close>: it takes the stored permit if there is one.\<close>

definition notified :: "active_mount \<Rightarrow> active_mount option" where
  "notified m = (if am_resume_permit m then Some (m\<lparr>am_resume_permit := False\<rparr>) else None)"

text \<open>
  A poll of \<open>wait_for_live_source_to_release\<close>: true when the wait is over. A wake-up with the mount
  still connected goes on waiting.
\<close>

definition poll_release :: "bool \<Rightarrow> active_mount \<Rightarrow> bool \<times> active_mount" where
  "poll_release shutdown m =
     (if \<not> am_source_connected m \<or> shutdown then (True, m)
      else (case notified m of Some m' \<Rightarrow> (\<not> am_source_connected m', m') | None \<Rightarrow> (False, m)))"

lemma notified_sel: "notified m = Some m' \<Longrightarrow> m' = m\<lparr>am_resume_permit := False\<rparr>"
  by (simp add: notified_def split: if_splits)

lemma poll_release_sel:
  "am_source_connected (snd (poll_release b m)) = am_source_connected m"
  "am_source_kind (snd (poll_release b m)) = am_source_kind m"
  "am_bus (snd (poll_release b m)) = am_bus m"
  by (auto simp: poll_release_def dest!: notified_sel split: option.splits)

lemma poll_release_shutdown [simp]: "poll_release True m = (True, m)"
  by (simp add: poll_release_def)

section \<open>Tasks\<close>

fun task_run :: "('obs \<Rightarrow> 's \<Rightarrow> 's) \<Rightarrow> 'obs list \<Rightarrow> 's \<Rightarrow> 's" where
  "task_run step [] s = s"
| "task_run step (ob # obs) s = task_run step obs (step ob s)"

lemma task_run_append: "task_run step (xs @ ys) s = task_run step ys (task_run step xs s)"
  by (induction xs arbitrary: s) simp_all

text \<open>No step of the run is held up while the task has not ended.\<close>

fun never_held_up :: "('obs \<Rightarrow> 's \<Rightarrow> 's) \<Rightarrow> ('s \<Rightarrow> bool) \<Rightarrow> ('obs \<Rightarrow> 's \<Rightarrow> bool) \<Rightarrow> 'obs list \<Rightarrow> 's \<Rightarrow> bool" where
  "never_held_up step ended held_up [] s \<longleftrightarrow> True"
| "never_held_up step ended held_up (ob # obs) s \<longleftrightarrow>
     (ended s \<or> \<not> held_up ob s) \<and> never_held_up step ended held_up obs (step ob s)"

text \<open>
  The interface of a task under shutdown: once the shutdown token is cancelled, every step of the
  task that is not held up takes it closer to its end, and an ended task stays as it is.
\<close>

locale shutdown_task =
  fixes step :: "'obs \<Rightarrow> 's \<Rightarrow> 's"
    and ended :: "'s \<Rightarrow> bool"
    and held_up :: "'obs \<Rightarrow> 's \<Rightarrow> bool"
    and stopping :: "'obs \<Rightarrow> bool"
    and rank :: "'s \<Rightarrow> nat"
  assumes ended_stays: "ended s \<Longrightarrow> ended (step ob s)"
    and progress: "stopping ob \<Longrightarrow> \<not> ended s \<Longrightarrow> \<not> held_up ob s \<Longrightarrow> rank (step ob s) < rank s"
    and rank_ended: "rank s = 0 \<Longrightarrow> ended s"
begin

lemma ended_run: "ended s \<Longrightarrow> ended (task_run step obs s)"
  by (induction obs arbitrary: s) (simp_all add: ended_stays)

lemma ends_in_time:
  "\<forall>ob\<in>set obs. stopping ob \<Longrightarrow> never_held_up step ended held_up obs s \<Longrightarrow> rank s \<le> length obs \<Longrightarrow> ended (task_run step obs s)"
proof (induction obs arbitrary: s)
  case Nil
  then show ?case
    by (simp add: rank_ended)
next
  case (Cons ob obs)
  show ?case
  proof (cases "ended s")
    case True
    then show ?thesis
      by (simp add: ended_stays ended_run)
  next
    case False
    then have "rank (step ob s) < rank s"
      using Cons.prems progress by simp
    then show ?thesis
      using Cons.IH [of "step ob s"] Cons.prems by simp
  qed
qed

end

end
