(* ===== verification/Relay_Task.thy ===== *)
theory Relay_Task
  imports Owner_Wait Icecast_Ingest Source_Session
begin

text \<open>
  The relay task of \<open>crates/rustyice-server/src/relay\<close>: the backoff, the upstream request, one
  connection attempt with its ingest, and the loop around it. A step of the task is driven by what
  it observes: cancellation, the answer of the upstream, what the ingest's publisher sees, timers.
\<close>

section \<open>backoff.rs\<close>

text \<open>Delays in seconds.\<close>

record backoff =
  bo_current :: nat
  bo_max :: nat

definition backoff_new :: backoff where
  "backoff_new = \<lparr>bo_current = 1, bo_max = 30\<rparr>"

definition next_delay :: "backoff \<Rightarrow> nat \<times> backoff" where
  "next_delay b = (bo_current b, b\<lparr>bo_current := min (bo_current b * 2) (bo_max b)\<rparr>)"

definition backoff_reset :: "backoff \<Rightarrow> backoff" where
  "backoff_reset b = b\<lparr>bo_current := 1\<rparr>"

section \<open>client.rs\<close>

datatype relay_error = UpstreamStatus nat | RequestFailed string | InvalidCredentials

definition relay_detect_codec :: "string option \<Rightarrow> codec_id" where
  "relay_detect_codec content_type =
     (case content_type of
        Some ct \<Rightarrow>
          if contains_sub ct ''mpeg'' then MP3
          else if contains_sub ct ''ogg'' \<or> contains_sub ct ''vorbis'' then VORBIS
          else MP3
      | None \<Rightarrow> MP3)"

record upstream_request =
  ur_url :: string
  ur_headers :: "(string \<times> string) list"
  ur_basic_auth :: "(string \<times> string) option"

definition build_request :: "relay_config \<Rightarrow> upstream_request" where
  "build_request cfg =
     \<lparr>ur_url = rc_upstream cfg,
      ur_headers = [(''User-Agent'', ''rustyice/'' @ pkg_version @ '' (relay)''), (''Icy-Metadata'', ''0'')],
      ur_basic_auth = (case (rc_username cfg, rc_password cfg) of (Some u, Some p) \<Rightarrow> Some (u, p) | _ \<Rightarrow> None)\<rparr>"

record upstream_response =
  up_status :: nat
  up_headers :: headers

text \<open>\<open>send\<close> is the HTTP client: building it, the connection and the answer.\<close>

definition open_upstream ::
  "(upstream_request \<Rightarrow> string + upstream_response) \<Rightarrow> relay_config \<Rightarrow> relay_error + codec_id" where
  "open_upstream send cfg =
     (if (rc_username cfg = None) \<noteq> (rc_password cfg = None) then Inl InvalidCredentials
      else (case send (build_request cfg) of
              Inl e \<Rightarrow> Inl (RequestFailed e)
            | Inr resp \<Rightarrow>
                (if \<not> (200 \<le> up_status resp \<and> up_status resp < 300) then Inl (UpstreamStatus (up_status resp))
                 else Inr (relay_detect_codec (header_str (up_headers resp) ''content-type'')))))"

section \<open>mod.rs: one connection\<close>

datatype run_outcome = RunOk | RunFailed | RunCancelled

definition build_ingest_for_relay :: "config \<Rightarrow> string \<Rightarrow> active_mount \<Rightarrow> icecast_ingest" where
  "build_ingest_for_relay cfg mount_path m =
     with_header_capture
       (case mount_transcode cfg mount_path of
          Some tc \<Rightarrow>
            with_transcode_comments (build_vorbis_comments (mi_metadata (am_info m))) (with_transcode tc ingest_default)
        | None \<Rightarrow> ingest_default)"

text \<open>The advertised codec of the mount.\<close>

definition set_codec :: "codec_id \<Rightarrow> active_mount \<Rightarrow> active_mount" where
  "set_codec codec m = (if mi_codec (am_info m) \<noteq> codec then m\<lparr>am_info := (am_info m)\<lparr>mi_codec := codec\<rparr>\<rparr> else m)"

definition ingest_outcome :: "ingest_error + source_stats \<Rightarrow> run_outcome" where
  "ingest_outcome r =
     (case r of Inr _ \<Rightarrow> RunOk | Inl IngestCancelled \<Rightarrow> RunCancelled | Inl _ \<Rightarrow> RunFailed)"

section \<open>mod.rs: the loop\<close>

text \<open>
  Where the task is: at the head of the loop, waiting for a live source, about to claim, just
  claimed, connecting, in the ingest, waiting to resume after a pre-emption, in the backoff pause, returned, or stopped
  by a panic.
\<close>

datatype ('i, 'r, 'l, 'v) relay_pc =
  RlTop | RlWaiting | RlClaim | RlClaimed | RlConnecting
| RlIngest icecast_ingest codec_id "('i, 'r, 'l, 'v) publisher"
| RlResume | RlSleeping nat | RlReturned | RlPanicked

record ('i, 'r, 'l, 'v) relay_task =
  rt_pc :: "('i, 'r, 'l, 'v) relay_pc"
  rt_backoff :: backoff
  rt_mount :: active_mount

text \<open>
  What a step observes: whether the shutdown token and the source token are cancelled, the answer
  of the upstream if it has come, what the publisher sees, whether the pause is over, for a claim
  the new token and the time, and the configuration; \<open>ro_others\<close> is what other tasks have done to
  the mount since the last step.
\<close>

record relay_obs =
  ro_shutdown :: bool
  ro_cancelled :: bool
  ro_answer :: "(upstream_request \<Rightarrow> string + upstream_response) option"
  ro_events :: "pub_event list"
  ro_timer :: bool
  ro_token :: token
  ro_now :: nat
  ro_config :: config
  ro_others :: "active_mount \<Rightarrow> active_mount"

definition relay_new :: "active_mount \<Rightarrow> ('i, 'r, 'l, 'v) relay_task" where
  "relay_new m = \<lparr>rt_pc = RlTop, rt_backoff = backoff_new, rt_mount = m\<rparr>"

text \<open>After a connection: the slot is released first, then the outcome decides.\<close>

definition after_run ::
  "bool \<Rightarrow> run_outcome \<Rightarrow> ('i, 'r, 'l, 'v) relay_task \<Rightarrow> ('i, 'r, 'l, 'v) relay_task" where
  "after_run shutdown outcome t =
     (let m = relay_release_slot (rt_mount t) in
      case outcome of
        RunCancelled \<Rightarrow>
          if shutdown then t\<lparr>rt_pc := RlReturned, rt_mount := m\<rparr>
          else if am_preempt_pending m then
            t\<lparr>rt_pc := RlResume, rt_mount := m\<lparr>am_preempt_pending := False\<rparr>\<rparr>
          else t\<lparr>rt_pc := RlTop, rt_mount := m\<rparr>
      | _ \<Rightarrow>
          (let b = (if outcome = RunOk then backoff_reset (rt_backoff t) else rt_backoff t) in
           case next_delay b of
             (d, b') \<Rightarrow> t\<lparr>rt_pc := RlSleeping d, rt_backoff := b', rt_mount := m\<rparr>))"

definition relay_connect ::
  "relay_config \<Rightarrow> relay_obs \<Rightarrow> ('i, 'r, 'l, 'v) relay_task \<Rightarrow> ('i, 'r, 'l, 'v) relay_task" where
  "relay_connect cfg ob t =
     (if ro_shutdown ob \<or> ro_cancelled ob then after_run (ro_shutdown ob) RunCancelled t
      else (case ro_answer ob of
              None \<Rightarrow> t
            | Some send \<Rightarrow>
                (case open_upstream send cfg of
                   Inl _ \<Rightarrow> after_run (ro_shutdown ob) RunFailed t
                 | Inr codec \<Rightarrow>
                     (let m = set_codec codec (rt_mount t);
                          ig = build_ingest_for_relay (ro_config ob) (rc_mount cfg) m
                      in case publisher_start ig codec (am_bus m) (am_header_bytes m) of
                           Inl e \<Rightarrow> after_run (ro_shutdown ob) (ingest_outcome (Inl e)) (t\<lparr>rt_mount := m\<rparr>)
                         | Inr pu \<Rightarrow> t\<lparr>rt_pc := RlIngest ig codec pu, rt_mount := m\<rparr>))))"

definition relay_ingest ::
  "('i, 'p, 'r, 'l, 'v) media_libs \<Rightarrow> relay_obs \<Rightarrow> icecast_ingest \<Rightarrow> codec_id \<Rightarrow> ('i, 'r, 'l, 'v) publisher
     \<Rightarrow> ('i, 'r, 'l, 'v) relay_task \<Rightarrow> ('i, 'r, 'l, 'v) relay_task" where
  "relay_ingest libs ob ig codec pu t =
     (case publish_loop libs ig codec (ro_events ob) (load_mount (rt_mount t) pu) of
        IngestReturns r pu' \<Rightarrow>
          after_run (ro_shutdown ob) (ingest_outcome r) (t\<lparr>rt_mount := store_mount pu' (rt_mount t)\<rparr>)
      | IngestWaiting pu' \<Rightarrow> t\<lparr>rt_pc := RlIngest ig codec pu', rt_mount := store_mount pu' (rt_mount t)\<rparr>
      | IngestPanics \<Rightarrow> t\<lparr>rt_pc := RlPanicked\<rparr>
      | IngestDiverges \<Rightarrow> t)"

definition relay_act ::
  "('i, 'p, 'r, 'l, 'v) media_libs \<Rightarrow> relay_config \<Rightarrow> relay_obs \<Rightarrow> ('i, 'r, 'l, 'v) relay_task \<Rightarrow> ('i, 'r, 'l, 'v) relay_task" where
  "relay_act libs cfg ob t =
     (case rt_pc t of
        RlTop \<Rightarrow>
          if ro_shutdown ob then t\<lparr>rt_pc := RlReturned\<rparr>
          else if am_source_connected (rt_mount t) \<and> load_source_kind (rt_mount t) \<noteq> KindRelay then t\<lparr>rt_pc := RlWaiting\<rparr>
          else t\<lparr>rt_pc := RlClaim\<rparr>
      | RlWaiting \<Rightarrow>
          (case poll_release (ro_shutdown ob) (rt_mount t) of
             (over, m) \<Rightarrow>
               t\<lparr>rt_mount := m,
                 rt_pc := (if \<not> over then RlWaiting else if ro_shutdown ob then RlReturned else RlClaim)\<rparr>)
      | RlClaim \<Rightarrow>
          (case relay_claim_slot (ro_token ob) (ro_now ob) (rt_mount t) of
             (False, m) \<Rightarrow> t\<lparr>rt_pc := RlTop, rt_mount := m\<rparr>
           | (True, m) \<Rightarrow> t\<lparr>rt_pc := RlClaimed, rt_mount := m\<rparr>)
      | RlClaimed \<Rightarrow> t\<lparr>rt_pc := (if am_source_cancel (rt_mount t) = None then RlPanicked else RlConnecting)\<rparr>
      | RlConnecting \<Rightarrow> relay_connect cfg ob t
      | RlIngest ig codec pu \<Rightarrow> relay_ingest libs ob ig codec pu t
      | RlResume \<Rightarrow>
          if ro_shutdown ob then t\<lparr>rt_pc := RlReturned\<rparr>
          else (case notified (rt_mount t) of Some m \<Rightarrow> t\<lparr>rt_pc := RlTop, rt_mount := m\<rparr> | None \<Rightarrow> t)
      | RlSleeping d \<Rightarrow>
          if ro_shutdown ob then t\<lparr>rt_pc := RlReturned\<rparr>
          else if ro_timer ob then t\<lparr>rt_pc := RlTop\<rparr> else t
      | RlReturned \<Rightarrow> t
      | RlPanicked \<Rightarrow> t)"

definition relay_step ::
  "('i, 'p, 'r, 'l, 'v) media_libs \<Rightarrow> relay_config \<Rightarrow> relay_obs \<Rightarrow> ('i, 'r, 'l, 'v) relay_task \<Rightarrow> ('i, 'r, 'l, 'v) relay_task" where
  "relay_step libs cfg ob t = relay_act libs cfg ob (t\<lparr>rt_mount := ro_others ob (rt_mount t)\<rparr>)"

section \<open>Backoff\<close>

fun delays :: "nat \<Rightarrow> backoff \<Rightarrow> nat list" where
  "delays 0 b = []"
| "delays (Suc n) b = (case next_delay b of (d, b') \<Rightarrow> d # delays n b')"

lemma delays_from:
  assumes "bo_max b = 30" and "bo_current b = min (2 ^ k) 30"
  shows "delays n b = map (\<lambda>i. min (2 ^ (k + i)) 30) [0..<n]"
  using assms
proof (induction n arbitrary: b k)
  case (Suc n)
  have "min (min (2 ^ k) 30 * 2) 30 = min (2 ^ Suc k) (30 :: nat)"
    by (simp add: min_def)
  then have "delays n (b\<lparr>bo_current := min (bo_current b * 2) (bo_max b)\<rparr>) = map (\<lambda>i. min (2 ^ (Suc k + i)) 30) [0..<n]"
    using Suc.prems by (intro Suc.IH) simp_all
  then show ?case
    using Suc.prems by (simp add: next_delay_def upt_conv_Cons comp_def flip: map_Suc_upt del: upt_Suc map_Suc_upt)
qed simp

text \<open>
  The pauses of a relay between failed attempts are 1, 2, 4, 8 and 16 seconds and then 30
  seconds for ever, from the start and from every reset; in particular a pause is never zero.
\<close>

theorem relay_backoff_delays:
  "delays n backoff_new = map (\<lambda>i. min (2 ^ i) 30) [0..<n] \<and>
   delays n (backoff_reset (snd (next_delay backoff_new))) = map (\<lambda>i. min (2 ^ i) 30) [0..<n] \<and>
   list_all (\<lambda>d. 1 \<le> d \<and> d \<le> 30) (delays n backoff_new)"
  using delays_from [of backoff_new 0 n] delays_from [of "backoff_reset (snd (next_delay backoff_new))" 0 n]
  by (simp add: backoff_new_def backoff_reset_def next_delay_def list_all_iff)

section \<open>Shutdown\<close>

definition relay_ended :: "('i, 'r, 'l, 'v) relay_task \<Rightarrow> bool" where
  "relay_ended t \<longleftrightarrow> rt_pc t = RlReturned \<or> rt_pc t = RlPanicked"

text \<open>The only thing that holds a relay up is an ingest whose publisher has not returned.\<close>

definition relay_held_up ::
  "('i, 'p, 'r, 'l, 'v) media_libs \<Rightarrow> relay_obs \<Rightarrow> ('i, 'r, 'l, 'v) relay_task \<Rightarrow> bool" where
  "relay_held_up libs ob t \<longleftrightarrow>
     (case rt_pc t of
        RlIngest ig codec pu \<Rightarrow>
          (case publish_loop libs ig codec (ro_events ob) (load_mount (ro_others ob (rt_mount t)) pu) of
             IngestWaiting _ \<Rightarrow> True | IngestDiverges \<Rightarrow> True | _ \<Rightarrow> False)
      | _ \<Rightarrow> False)"

fun relay_rank :: "('i, 'r, 'l, 'v) relay_pc \<Rightarrow> nat" where
  "relay_rank RlReturned = 0"
| "relay_rank RlPanicked = 0"
| "relay_rank RlClaim = 3"
| "relay_rank RlClaimed = 2"
| "relay_rank (RlIngest _ _ _) = 2"
| "relay_rank _ = 1"

lemma after_run_rank: "relay_rank (rt_pc (after_run True oc t)) \<le> 1"
  by (cases oc) (simp_all add: after_run_def Let_def next_delay_def)

lemma after_run_cancelled [simp]: "rt_pc (after_run True RunCancelled t) = RlReturned"
  by (simp add: after_run_def Let_def)

lemma relay_progress:
  assumes "ro_shutdown ob" and "\<not> relay_ended t" and "\<not> relay_held_up libs ob t"
  shows "relay_rank (rt_pc (relay_step libs cfg ob t)) < relay_rank (rt_pc t)"
proof (cases "rt_pc t")
  case (RlIngest ig codec pu)
  then show ?thesis
    using assms after_run_rank
    by (auto simp: relay_step_def relay_act_def relay_ingest_def relay_held_up_def less_Suc_eq_le numeral_2_eq_2 split: ingest_result.splits)
qed (use assms in \<open>auto simp: relay_step_def relay_act_def relay_connect_def relay_ended_def
    relay_claim_slot_def split: option.splits prod.splits\<close>)

lemma relay_ended_stays: "relay_ended t \<Longrightarrow> relay_ended (relay_step libs cfg ob t)"
  by (auto simp: relay_ended_def relay_step_def relay_act_def)

lemma relay_rank_ended: "relay_rank (rt_pc t) = 0 \<Longrightarrow> relay_ended t"
  by (cases "rt_pc t") (simp_all add: relay_ended_def)

interpretation relay_shutdown: shutdown_task "relay_step libs cfg" relay_ended "relay_held_up libs" ro_shutdown
  "\<lambda>t. relay_rank (rt_pc t)" for libs cfg
  by unfold_locales (simp_all add: relay_progress relay_ended_stays relay_rank_ended)

text \<open>
  Claim C27. Shutdown ends a relay: once its shutdown token is cancelled, a relay that is not held up
  in the ingest of a stream has returned or been stopped after at most three of its steps, whatever
  other tasks do to the mount meanwhile.
\<close>

theorem relay_shutdown_ends:
  assumes "\<forall>ob\<in>set obs. ro_shutdown ob" and "3 \<le> length obs"
    and "never_held_up (relay_step libs cfg) relay_ended (relay_held_up libs) obs t"
  shows "relay_ended (task_run (relay_step libs cfg) obs t)"
proof (rule relay_shutdown.ends_in_time [OF assms(1,3)])
  have "relay_rank pc \<le> 3" for pc :: "('a, 'b, 'c, 'd) relay_pc"
    by (cases pc) simp_all
  then show "relay_rank (rt_pc t) \<le> length obs"
    using assms(2) le_trans by blast
qed

definition chunk_events :: "byte list list \<Rightarrow> pub_event list" where
  "chunk_events ds = map (\<lambda>d. PubChunk d 0 0 Slept) ds"

text \<open>A relay that has just claimed its mount when shutdown comes.\<close>

definition example_relay :: relay_config where
  "example_relay =
     \<lparr>rc_mount = ''/relay'', rc_upstream = ''http://up/stream'', rc_name = None, rc_description = None, rc_genre = None,
      rc_url = None, rc_enabled = True, rc_username = None, rc_password = None, rc_max_listeners = None,
      rc_burst_size = None, rc_transcode = None\<rparr>"

definition relay_mount :: active_mount where
  "relay_mount = active_mount_new \<lparr>mi_path = ''/relay'', mi_codec = MP3, mi_source_password = [],
     mi_max_listeners = None, mi_metadata = default_metadata\<rparr> (bus_new 16 100)"

definition claimed_relay :: "(unit, unit, unit, unit) relay_task" where
  "claimed_relay = (relay_new (snd (relay_claim_slot 1 0 relay_mount)))\<lparr>rt_pc := RlClaimed\<rparr>"

text \<open>What a step sees when the shutdown token is cancelled and more of a stream may be there.\<close>

definition stream_obs :: "byte list list \<Rightarrow> relay_obs" where
  "stream_obs ds =
     \<lparr>ro_shutdown = True, ro_cancelled = False, ro_answer = None, ro_events = chunk_events ds, ro_timer = True,
      ro_token = 0, ro_now = 0, ro_config = sample_cfg None, ro_others = id\<rparr>"

theorem relay_shutdown_ends_witness:
  "relay_ended (task_run (relay_step mute_libs example_relay) (replicate 3 (stream_obs [])) claimed_relay)"
proof (rule relay_shutdown_ends)
  show "\<forall>ob\<in>set (replicate 3 (stream_obs [])). ro_shutdown ob"
    by (simp add: stream_obs_def)
  show "never_held_up (relay_step mute_libs example_relay) relay_ended (relay_held_up mute_libs) (replicate 3 (stream_obs [])) claimed_relay"
    by (simp add: numeral_3_eq_3 relay_held_up_def relay_ended_def relay_step_def relay_act_def relay_connect_def
        claimed_relay_def stream_obs_def)
qed simp

section \<open>Streaming\<close>

lemma publish_loop_append:
  "publish_loop libs ig codec (xs @ ys) pu =
     (case publish_loop libs ig codec xs pu of
        IngestWaiting pu' \<Rightarrow> publish_loop libs ig codec ys pu'
      | r \<Rightarrow> r)"
  by (induction libs ig codec xs pu rule: publish_loop.induct) (simp_all add: Let_def split: outcome.splits pace.splits)

definition streams_on :: "icecast_ingest \<Rightarrow> ('i, 'r, 'l, 'v) publisher \<Rightarrow> bool" where
  "streams_on ig pu \<longleftrightarrow> ig_transcode ig = None \<and> pu_pipeline pu = None \<and> rate_ok pu"

lemma publish_loop_chunks:
  assumes "streams_on ig pu" and "codec \<noteq> VORBIS \<or> (\<forall>d\<in>set ds. scan_nominal_bitrate_bps d \<noteq> Some 0)"
  shows "\<exists>pu' ps. publish_loop libs ig codec (chunk_events ds) pu = IngestWaiting pu' \<and> streams_on ig pu' \<and>
    bs_sent (pu_bus pu') = bs_sent (pu_bus pu) @ ps \<and> audio_of ps = ds"
  using assms
proof (induction ds arbitrary: pu)
  case Nil
  then show ?case
    by (auto simp: chunk_events_def audio_of_def)
next
  case (Cons d ds)
  let ?pu2 = "emit (output_codec ig codec) 0 d (receive_chunk codec d pu)"
  have tc: "transcode_chunk libs d (receive_chunk codec d pu) = Returns (Some d, receive_chunk codec d pu)"
    using Cons.prems(1) by (simp add: transcode_chunk_def streams_on_def)
  have on: "streams_on ig ?pu2"
    using Cons.prems by (auto simp: streams_on_def intro: rate_ok_step)
  then obtain pu' ps where rest: "publish_loop libs ig codec (chunk_events ds) ?pu2 = IngestWaiting pu'"
      "streams_on ig pu'" "bs_sent (pu_bus pu') = bs_sent (pu_bus ?pu2) @ ps" "audio_of ps = ds"
    using Cons.IH [OF on] Cons.prems by auto
  have "publish_loop libs ig codec (chunk_events (d # ds)) pu = IngestWaiting pu'"
    using tc rest(1) pace_chunk_on [of ig ?pu2 0] on by (simp add: chunk_events_def streams_on_def)
  with rest show ?case
    by (auto simp: audio_of_def)
qed

lemma load_store_mount:
  "am_bus (store_mount pu m) = pu_bus pu" "am_header_bytes (store_mount pu m) = pu_sink pu"
  "pu_bus (load_mount m pu) = am_bus m" "streams_on ig (load_mount m pu) = streams_on ig pu"
  "am_source_connected (store_mount pu m) = am_source_connected m"
  by (simp_all add: store_mount_def load_mount_def streams_on_def rate_ok_def)

text \<open>
  Claim C38. A relay in the ingest of its upstream does not look at its shutdown token: for as long
  as the upstream sends, it goes on, holding the mount and publishing every chunk, however often it
  is polled after the token was cancelled. A reload that removes the relay waits for it.
\<close>

theorem relay_streams_past_shutdown:
  assumes "rt_pc t = RlIngest ig codec pu" and "streams_on ig pu" and "codec \<noteq> VORBIS"
    and "am_source_connected (rt_mount t)"
  shows "\<exists>pu' ps. rt_pc (task_run (relay_step libs cfg) (map stream_obs dss) t) = RlIngest ig codec pu' \<and>
    am_source_connected (rt_mount (task_run (relay_step libs cfg) (map stream_obs dss) t)) \<and>
    bs_sent (am_bus (rt_mount (task_run (relay_step libs cfg) (map stream_obs dss) t))) = bs_sent (am_bus (rt_mount t)) @ ps \<and>
    audio_of ps = concat dss"
  using assms
proof (induction dss arbitrary: t pu)
  case Nil
  then show ?case
    by (auto simp: audio_of_def)
next
  case (Cons ds dss)
  obtain pu' ps where go: "publish_loop libs ig codec (chunk_events ds) (load_mount (rt_mount t) pu) = IngestWaiting pu'"
      "streams_on ig pu'" "bs_sent (pu_bus pu') = bs_sent (am_bus (rt_mount t)) @ ps" "audio_of ps = ds"
    using publish_loop_chunks [of ig "load_mount (rt_mount t) pu" codec ds libs] Cons.prems by (auto simp: load_store_mount)
  let ?t' = "relay_step libs cfg (stream_obs ds) t"
  have t': "rt_pc ?t' = RlIngest ig codec pu'" "rt_mount ?t' = store_mount pu' (rt_mount t)"
    using Cons.prems(1) go(1) by (simp_all add: relay_step_def relay_act_def relay_ingest_def stream_obs_def)
  then obtain pu2 qs where "rt_pc (task_run (relay_step libs cfg) (map stream_obs dss) ?t') = RlIngest ig codec pu2"
      "am_source_connected (rt_mount (task_run (relay_step libs cfg) (map stream_obs dss) ?t'))"
      "bs_sent (am_bus (rt_mount (task_run (relay_step libs cfg) (map stream_obs dss) ?t'))) = bs_sent (am_bus (rt_mount ?t')) @ qs"
      "audio_of qs = concat dss"
    using Cons.IH [of ?t' pu'] Cons.prems go by (auto simp: load_store_mount)
  then show ?case
    using go t' by (auto simp: load_store_mount audio_of_append)
qed

definition streaming_publisher :: "(unit, unit, unit, unit) publisher" where
  "streaming_publisher =
     \<lparr>pu_bus = bus_new 16 100, pu_stats = default_source_stats, pu_pipeline = None, pu_capture = None, pu_sink = None,
      pu_source_rate = None, pu_rate_locked = False, pu_output_bytes = 0\<rparr>"

definition streaming_relay :: "(unit, unit, unit, unit) relay_task" where
  "streaming_relay = claimed_relay\<lparr>rt_pc := RlIngest passthrough_ingest MP3 streaming_publisher\<rparr>"

lemma claimed_relay_connected: "am_source_connected (rt_mount claimed_relay)"
  by (simp add: claimed_relay_def relay_new_def relay_claim_slot_def cas_connect_def relay_mount_def active_mount_new_def
      slot_write_simps slot_writes_defs)

theorem relay_streams_past_shutdown_witness:
  "\<exists>ps. bs_sent (am_bus (rt_mount (task_run (relay_step mute_libs example_relay)
      (map stream_obs [[[1, 2]], [[3], [4]]]) streaming_relay))) = bs_sent (am_bus (rt_mount streaming_relay)) @ ps \<and>
    audio_of ps = [[1, 2], [3], [4]]"
  using relay_streams_past_shutdown [of streaming_relay passthrough_ingest MP3 streaming_publisher mute_libs example_relay
      "[[[1, 2]], [[3], [4]]]"] claimed_relay_connected
  by (auto simp: streaming_relay_def streams_on_def rate_ok_def streaming_publisher_def passthrough_ingest_def
      ingest_default_def ingest_new_def)

end
