(* ===== verification/Relay_Facts.thy ===== *)
theory Relay_Facts
  imports Relay_Task
begin

text \<open>
  Whole runs of the relay task: a connection from the claim of the mount to the pause after the
  upstream has ended, and what is left of the mount when the ingest panics.
\<close>

section \<open>One connection\<close>

text \<open>A step that sees no cancellation, no timer and nobody else at the mount.\<close>

definition quiet_obs :: "config \<Rightarrow> relay_obs" where
  "quiet_obs cfg =
     \<lparr>ro_shutdown = False, ro_cancelled = False, ro_answer = None, ro_events = [], ro_timer = False,
      ro_token = 0, ro_now = 0, ro_config = cfg, ro_others = id\<rparr>"

text \<open>The steps of a connection: head of the loop, claim, token, request, ingest of the whole stream.\<close>

definition connection_obs :: "config \<Rightarrow> (upstream_request \<Rightarrow> string + upstream_response) \<Rightarrow> byte list list \<Rightarrow> relay_obs list" where
  "connection_obs cfg send ds =
     [quiet_obs cfg, quiet_obs cfg, quiet_obs cfg, (quiet_obs cfg)\<lparr>ro_answer := Some send\<rparr>,
      (quiet_obs cfg)\<lparr>ro_events := chunk_events ds @ [PubClosed 0 0]\<rparr>]"

lemma set_codec_sel [simp]:
  "mi_codec (am_info (set_codec c m)) = c" "am_bus (set_codec c m) = am_bus m"
  "am_header_bytes (set_codec c m) = am_header_bytes m" "am_source_connected (set_codec c m) = am_source_connected m"
  by (simp_all add: set_codec_def)

lemma relay_claim_free:
  assumes "\<not> am_source_connected m"
  obtains m' where "relay_claim_slot k n m = (True, m')" "am_source_cancel m' = Some k" "am_bus m' = am_bus m"
    "am_info m' = am_info m"
  using assms by (simp add: relay_claim_slot_def cas_connect_def slot_write_simps slot_writes_defs)

lemma relay_release_clean:
  "slot_clean (relay_release_slot m)" "\<not> am_source_connected (relay_release_slot m)"
  "am_bus (relay_release_slot m) = am_bus m" "am_info (relay_release_slot m) = am_info m"
  by (simp_all add: relay_release_slot_def slot_writes_defs slot_clean_def slot_write_simps source_kind_from_u8_def)

lemma relay_ingest_plain:
  assumes "mount_transcode cfg path = None"
  shows "ig_transcode (build_ingest_for_relay cfg path m) = None"
    "ig_max_rate_bps (build_ingest_for_relay cfg path m) = None"
  using assms by (simp_all add: build_ingest_for_relay_def with_header_capture_def ingest_default_def ingest_new_def)

lemma ingest_whole_stream:
  assumes "streams_on ig pu" and "codec \<noteq> VORBIS \<or> (\<forall>d\<in>set ds. scan_nominal_bitrate_bps d \<noteq> Some 0)"
  shows "\<exists>st pu' ps. publish_loop libs ig codec (chunk_events ds @ [PubClosed 0 0]) pu = IngestReturns (Inr st) pu' \<and>
    bs_sent (pu_bus pu') = bs_sent (pu_bus pu) @ ps \<and> audio_of ps = ds"
  using publish_loop_passthrough [of ig pu codec "map (\<lambda>d. (d, 0, 0)) ds" libs 0 0] assms
  by (auto simp: streams_on_def chunk_events_def comp_def)

lemma relay_connection:
  fixes t :: "('i, 'r, 'l, 'v) relay_task"
  assumes "rt_pc t = RlTop" and "\<not> am_source_connected (rt_mount t)"
    and "open_upstream send rc = Inr codec" and "mount_transcode cfg (rc_mount rc) = None"
    and "codec \<noteq> VORBIS \<or> (\<forall>d\<in>set ds. scan_nominal_bitrate_bps d \<noteq> Some 0)"
  shows "\<exists>ps. rt_pc (task_run (relay_step libs rc) (connection_obs cfg send ds) t) = RlSleeping 1 \<and>
    slot_clean (rt_mount (task_run (relay_step libs rc) (connection_obs cfg send ds) t)) \<and>
    \<not> am_source_connected (rt_mount (task_run (relay_step libs rc) (connection_obs cfg send ds) t)) \<and>
    mi_codec (am_info (rt_mount (task_run (relay_step libs rc) (connection_obs cfg send ds) t))) = codec \<and>
    bs_sent (am_bus (rt_mount (task_run (relay_step libs rc) (connection_obs cfg send ds) t))) = bs_sent (am_bus (rt_mount t)) @ ps \<and>
    audio_of ps = ds"
proof -
  let ?q = "quiet_obs cfg"
  have q: "ro_others ?q = id" "\<not> ro_shutdown ?q" "\<not> ro_cancelled ?q" "ro_config ?q = cfg"
    by (simp_all add: quiet_obs_def)
  obtain m1 where m1: "relay_claim_slot (ro_token ?q) (ro_now ?q) (rt_mount t) = (True, m1)"
      "am_source_cancel m1 = Some (ro_token ?q)" "am_bus m1 = am_bus (rt_mount t)"
    using relay_claim_free [OF assms(2)] by metis
  define t3 where "t3 = t\<lparr>rt_mount := m1, rt_pc := RlConnecting\<rparr>"
  have three: "task_run (relay_step libs rc) [?q, ?q, ?q] t = t3"
    using assms(1,2) m1 by (simp add: relay_step_def relay_act_def q t3_def)
  let ?m = "set_codec codec m1"
  let ?ig = "build_ingest_for_relay cfg (rc_mount rc) ?m"
  obtain pu :: "('i, 'r, 'l, 'v) publisher" where pu: "publisher_start ?ig codec (am_bus ?m) (am_header_bytes ?m) = Inr pu"
    using publisher_start_ok by blast
  have on: "streams_on ?ig (load_mount ?m pu)"
    using publisher_start_sel [OF pu] relay_ingest_plain [OF assms(4), of ?m]
    by (simp add: streams_on_def load_mount_def rate_ok_def)
  define t4 where "t4 = t3\<lparr>rt_pc := RlIngest ?ig codec pu, rt_mount := ?m\<rparr>"
  have four: "relay_step libs rc (?q\<lparr>ro_answer := Some send\<rparr>) t3 = t4"
    using assms(3) pu by (simp add: relay_step_def relay_act_def relay_connect_def q t3_def t4_def Let_def)
  obtain st pu' ps where go: "publish_loop libs ?ig codec (chunk_events ds @ [PubClosed 0 0]) (load_mount ?m pu) = IngestReturns (Inr st) pu'"
      "bs_sent (pu_bus pu') = bs_sent (am_bus ?m) @ ps" "audio_of ps = ds"
    using ingest_whole_stream [OF on assms(5), of libs] by (auto simp: load_mount_def)
  define t5 where "t5 = relay_step libs rc (?q\<lparr>ro_events := chunk_events ds @ [PubClosed 0 0]\<rparr>) t4"
  have t5: "rt_pc t5 = RlSleeping 1" "rt_mount t5 = relay_release_slot (store_mount pu' ?m)"
    using go(1) by (simp_all add: t5_def relay_step_def relay_act_def relay_ingest_def q t4_def ingest_outcome_def
        after_run_def Let_def next_delay_def backoff_reset_def)
  have "task_run (relay_step libs rc) (connection_obs cfg send ds) t = t5"
    using three four task_run_append [of "relay_step libs rc" "[?q, ?q, ?q]"]
    by (simp add: connection_obs_def t5_def)
  then show ?thesis
    using t5 go m1(3) relay_release_clean by (auto simp: load_store_mount store_mount_def)
qed

text \<open>
  Claim C14. One connection of a relay, without transcoding: from the head of its loop with the
  mount free, an upstream that answers with success and sends some chunks to its end leaves exactly
  these chunks on the mount's bus, the advertised codec is that of the answer's content type, the
  slot is free and clean again, and the relay pauses for one second whatever its backoff was.
\<close>

theorem relay_republishes:
  fixes t :: "('i, 'r, 'l, 'v) relay_task"
  assumes "rt_pc t = RlTop" and "\<not> am_source_connected (rt_mount t)"
    and "open_upstream send rc = Inr codec" and "mount_transcode cfg (rc_mount rc) = None"
    and "codec \<noteq> VORBIS \<or> (\<forall>d\<in>set ds. scan_nominal_bitrate_bps d \<noteq> Some 0)"
  shows "\<exists>ps t'. task_run (relay_step libs rc) (connection_obs cfg send ds) t = t' \<and>
    rt_pc t' = RlSleeping 1 \<and> slot_clean (rt_mount t') \<and> \<not> am_source_connected (rt_mount t') \<and>
    mi_codec (am_info (rt_mount t')) = codec \<and>
    bs_sent (am_bus (rt_mount t')) = bs_sent (am_bus (rt_mount t)) @ ps \<and> audio_of ps = ds"
  using relay_connection [OF assms, of libs] by blast

text \<open>An upstream that answers with an Ogg stream.\<close>

definition ogg_upstream :: "upstream_request \<Rightarrow> string + upstream_response" where
  "ogg_upstream rq = Inr \<lparr>up_status = 200, up_headers = [''content-type'' \<mapsto> HvText ''audio/ogg'']\<rparr>"

lemma open_ogg_upstream: "open_upstream ogg_upstream example_relay = Inr VORBIS"
  by (simp add: open_upstream_def ogg_upstream_def example_relay_def header_str_def relay_detect_codec_def starts_with_def)

lemma relay_mount_free: "\<not> am_source_connected relay_mount" "bs_sent (am_bus relay_mount) = []"
  by (simp_all add: relay_mount_def active_mount_new_def bus_new_def)

theorem relay_republishes_witness:
  "\<exists>ps t'. task_run (relay_step mute_libs example_relay) (connection_obs (sample_cfg None) ogg_upstream [bos_page 44100 2 64000, [7]])
      (relay_new relay_mount) = t' \<and>
    rt_pc t' = RlSleeping 1 \<and> mi_codec (am_info (rt_mount t')) = VORBIS \<and>
    bs_sent (am_bus (rt_mount t')) = ps \<and> audio_of ps = [bos_page 44100 2 64000, [7]]"
proof -
  have "scan_nominal_bitrate_bps [7] \<noteq> Some 0"
    by (simp add: ogg_magic_def bytes_of_def)
  then have rates: "\<forall>d\<in>set [bos_page 44100 2 64000, [7]]. scan_nominal_bitrate_bps d \<noteq> Some 0"
    using scan_nominal_bos [of 44100 2 64000 "[]"] by simp
  have "mount_transcode (sample_cfg None) (rc_mount example_relay) = None"
    by (simp add: mount_transcode_def sample_cfg_def)
  with relay_republishes [of "relay_new relay_mount" ogg_upstream example_relay VORBIS "sample_cfg None", OF _ _ open_ogg_upstream]
    rates relay_mount_free show ?thesis
    by (fastforce simp: relay_new_def)
qed

section \<open>A panic in the ingest\<close>

lemma panicked_stays:
  "rt_pc t = RlPanicked \<Longrightarrow> \<forall>ob\<in>set obs. ro_others ob = id \<Longrightarrow> task_run (relay_step libs rc) obs t = t"
  by (induction obs) (simp_all add: relay_step_def relay_act_def)

lemma zero_rate_chunk:
  assumes "ig_transcode ig = None" and "pu_pipeline pu = None" and "\<not> pu_rate_locked pu"
    and "scan_nominal_bitrate_bps d = Some 0"
  shows "publish_loop libs ig VORBIS (PubChunk d p e sl # evs) pu = IngestPanics"
proof -
  have "pu_source_rate (receive_chunk VORBIS d pu) = Some 0" "pu_pipeline (receive_chunk VORBIS d pu) = None"
    using assms by (simp_all add: receive_chunk_def detect_rate_def Let_def)
  moreover from this have "pu_source_rate (emit c p d (receive_chunk VORBIS d pu)) = Some 0" for c
    by (simp add: emit_def publish_packet_def feed_capture_def Let_def split: option.split)
  moreover have "transcode_chunk libs d (receive_chunk VORBIS d pu) = Returns (Some d, receive_chunk VORBIS d pu)"
    using \<open>pu_pipeline (receive_chunk VORBIS d pu) = None\<close> by (simp add: transcode_chunk_def)
  ultimately show ?thesis
    using assms(1) by (simp add: pace_chunk_def pacing_metric_def pacing_target_def)
qed

text \<open>
  A Vorbis upstream whose identification header states a nominal bitrate below 1000 bits
  per second stops the relay for good and costs the station the mount: the first chunk makes the
  ingest panic, the task ends without the release that follows the ingest, and however long one
  waits the mount stays marked as connected with the same owner, title, token and start time.
\<close>

theorem relay_panic_keeps_slot:
  fixes t :: "('i, 'r, 'l, 'v) relay_task"
  assumes "rt_pc t = RlIngest ig VORBIS pu" and "ig_transcode ig = None" and "pu_pipeline pu = None"
    and "\<not> pu_rate_locked pu" and "scan_nominal_bitrate_bps d = Some 0"
    and "ro_events ob = PubChunk d p e sl # evs" and "ro_others ob = id" and "\<forall>ob\<in>set obs. ro_others ob = id"
  shows "rt_pc (task_run (relay_step libs rc) (ob # obs) t) = RlPanicked \<and>
    rt_mount (task_run (relay_step libs rc) (ob # obs) t) = rt_mount t"
proof -
  have "publish_loop libs ig VORBIS (ro_events ob) (load_mount (rt_mount t) pu) = IngestPanics"
    using zero_rate_chunk [of ig "load_mount (rt_mount t) pu" d] assms by (simp add: load_mount_def)
  then have "relay_step libs rc ob t = t\<lparr>rt_pc := RlPanicked\<rparr>"
    using assms(1,7) by (simp add: relay_step_def relay_act_def relay_ingest_def)
  then show ?thesis
    using panicked_stays [of "t\<lparr>rt_pc := RlPanicked\<rparr>" obs libs rc] assms(8) by simp
qed

theorem relay_panic_keeps_slot_witness:
  "am_source_connected (rt_mount (task_run (relay_step mute_libs example_relay)
     ((quiet_obs (sample_cfg None))\<lparr>ro_events := [PubChunk (bos_page 44100 2 500) 0 0 Slept]\<rparr> # replicate 9 (quiet_obs (sample_cfg None)))
     (streaming_relay\<lparr>rt_pc := RlIngest passthrough_ingest VORBIS streaming_publisher\<rparr>)))"
proof -
  have "am_source_connected (rt_mount streaming_relay)"
    using claimed_relay_connected by (simp add: streaming_relay_def)
  with relay_panic_keeps_slot [of "streaming_relay\<lparr>rt_pc := RlIngest passthrough_ingest VORBIS streaming_publisher\<rparr>"
      passthrough_ingest streaming_publisher "bos_page 44100 2 500"
      "(quiet_obs (sample_cfg None))\<lparr>ro_events := [PubChunk (bos_page 44100 2 500) 0 0 Slept]\<rparr>" 0 0 Slept "[]"
      "replicate 9 (quiet_obs (sample_cfg None))" mute_libs example_relay]
    scan_nominal_bos [of 44100 2 500 "[]"]
  show ?thesis
    by (simp add: passthrough_ingest_def ingest_default_def ingest_new_def streaming_publisher_def quiet_obs_def)
qed

end
