(* ===== verification/Autodj_Media.thy ===== *)
theory Autodj_Media
  imports Http_Types "HOL-Library.Multiset" "HOL-Library.Char_ord" "HOL-Library.List_Lexorder"
begin

text \<open>
  The files an AutoDJ plays: \<open>playlist.rs\<close>, \<open>tags.rs\<close> and \<open>decode.rs\<close> of
  \<open>crates/rustyice-autodj/src\<close>. What the file system, the tag reader and the media library answer
  about a file is an argument.
\<close>

section \<open>Paths\<close>

text \<open>
  A path is the list of its components; a component is its bytes. The file name of a path below a
  scanned folder is its last component and never empty or \<open>..\<close>.
\<close>

type_synonym os_path = "string list"

definition os_to_str :: "string \<Rightarrow> string option" where
  "os_to_str s = str_from_utf8 (bytes_of s)"

definition file_stem :: "os_path \<Rightarrow> string option" where
  "file_stem path =
     (if path = [] \<or> last path = ''..'' then None
      else (case split_last (CHR ''.'') (last path) of
              None \<Rightarrow> Some (last path)
            | Some (s, e) \<Rightarrow> Some (if s = [] then last path else s)))"

definition path_extension :: "os_path \<Rightarrow> string option" where
  "path_extension path =
     (if path = [] \<or> last path = ''..'' then None
      else (case split_last (CHR ''.'') (last path) of
              None \<Rightarrow> None
            | Some (s, e) \<Rightarrow> if s = [] then None else Some e))"

section \<open>playlist.rs\<close>

text \<open>
  What the walk of a folder yields: whether it is a directory, and its entries with whether each is
  a regular file; an entry that cannot be read is \<open>None\<close>.
\<close>

record folder_view =
  fv_is_dir :: bool
  fv_entries :: "(os_path \<times> bool) option list"

definition playable :: "os_path \<Rightarrow> bool" where
  "playable path \<longleftrightarrow>
     map_option to_ascii_lowercase (Option.bind (path_extension path) os_to_str) \<in> {Some ''mp3'', Some ''ogg''}"

text \<open>The error of a scan, of the kind \<open>NotFound\<close>, with its message.\<close>

datatype scan_error = FolderNotFound string

definition scan :: "string \<Rightarrow> folder_view \<Rightarrow> scan_error + os_path list" where
  "scan root fv =
     (if \<not> fv_is_dir fv then Inl (FolderNotFound (''autodj folder is not a directory: '' @ root))
      else Inr (sort (filter playable (map fst (filter snd (List.map_filter id (fv_entries fv)))))))"

text \<open>A seedless shuffle is an argument: some permutation.\<close>

definition order_tracks :: "(os_path list \<Rightarrow> os_path list) \<Rightarrow> os_path list \<Rightarrow> play_order \<Rightarrow> os_path list" where
  "order_tracks shuffle tracks order = (case order of Sequential \<Rightarrow> tracks | Shuffle \<Rightarrow> shuffle tracks)"

section \<open>tags.rs\<close>

record tag_text =
  tt_title :: "string option"
  tt_artist :: "string option"

record tagged_file =
  tf_primary :: "tag_text option"
  tf_first :: "tag_text option"

definition display_title :: "(os_path \<Rightarrow> tagged_file option) \<Rightarrow> os_path \<Rightarrow> string" where
  "display_title read_tags path =
     (let stem = unwrap_or (Option.bind (file_stem path) os_to_str) [] in
      case read_tags path of
        None \<Rightarrow> stem
      | Some tagged \<Rightarrow>
          (case (case tf_primary tagged of Some t \<Rightarrow> Some t | None \<Rightarrow> tf_first tagged) of
             None \<Rightarrow> stem
           | Some tag \<Rightarrow>
               (case (tt_artist tag, tt_title tag) of
                  (Some a, Some t) \<Rightarrow>
                    if a \<noteq> [] \<and> t \<noteq> [] then a @ '' - '' @ t else if t \<noteq> [] then t else stem
                | (None, Some t) \<Rightarrow> if t \<noteq> [] then t else stem
                | (_, None) \<Rightarrow> stem)))"

section \<open>decode.rs\<close>

record pcm_chunk =
  pc_samples :: "sample list"
  pc_sample_rate :: nat
  pc_channels :: nat

text \<open>
  The media library on one file: how it opens, and the answers of its reader in order, the last
  one followed by the end of the file. A packet comes with what its decoding yields.
\<close>

datatype media_error = MeUnexpectedEof | MeIo string | MeResetRequired | MeDecode string | MeOther string

datatype media_answer = MaFails media_error | MaPacket nat "media_error + sample list \<times> nat \<times> nat"

record default_track =
  dt_id :: nat
  dt_decoder :: "media_error option"
  dt_sample_rate :: "nat option"
  dt_channels :: "nat option"

record media_file =
  mf_open_error :: "string option"
  mf_probe_error :: "string option \<Rightarrow> media_error option"
  mf_default_track :: "default_track option"
  mf_answers :: "media_answer list"

record file_decoder =
  fd_answers :: "media_answer list"
  fd_track_id :: nat
  fd_sample_rate :: nat
  fd_channels :: nat

definition decoder_open :: "os_path \<Rightarrow> media_file \<Rightarrow> media_error + file_decoder" where
  "decoder_open path mf =
     (case mf_open_error mf of
        Some e \<Rightarrow> Inl (MeIo e)
      | None \<Rightarrow>
          (case mf_probe_error mf (Option.bind (path_extension path) os_to_str) of
             Some e \<Rightarrow> Inl e
           | None \<Rightarrow>
               (case mf_default_track mf of
                  None \<Rightarrow> Inl (MeDecode ''no default track'')
                | Some track \<Rightarrow>
                    (case dt_decoder track of
                       Some e \<Rightarrow> Inl e
                     | None \<Rightarrow>
                         (case dt_sample_rate track of
                            None \<Rightarrow> Inl (MeDecode ''missing sample_rate'')
                          | Some rate \<Rightarrow>
                              (case dt_channels track of
                                 None \<Rightarrow> Inl (MeDecode ''missing channels'')
                               | Some n \<Rightarrow>
                                   Inr \<lparr>fd_answers = mf_answers mf, fd_track_id = dt_id track,
                                        fd_sample_rate = rate, fd_channels = n mod 256\<rparr>))))))"

definition audio_buffer_to_pcm :: "sample list \<times> nat \<times> nat \<Rightarrow> pcm_chunk" where
  "audio_buffer_to_pcm buf =
     (case buf of (samples, rate, n) \<Rightarrow>
        \<lparr>pc_samples = samples, pc_sample_rate = rate, pc_channels = n mod 256\<rparr>)"

fun next_answer :: "nat \<Rightarrow> media_answer list \<Rightarrow> (media_error + pcm_chunk option) \<times> media_answer list" where
  "next_answer track_id [] = (Inr None, [])"
| "next_answer track_id (MaFails e # as) =
     (if e = MeUnexpectedEof \<or> e = MeResetRequired then (Inr None, as) else (Inl e, as))"
| "next_answer track_id (MaPacket track decoded # as) =
     (if track \<noteq> track_id then next_answer track_id as
      else (case decoded of
              Inr buf \<Rightarrow>
                (let chunk = audio_buffer_to_pcm buf in
                 if pc_samples chunk = [] then next_answer track_id as else (Inr (Some chunk), as))
            | Inl (MeDecode _) \<Rightarrow> next_answer track_id as
            | Inl e \<Rightarrow> (Inl e, as)))"

definition decoder_next :: "file_decoder \<Rightarrow> (media_error + pcm_chunk option) \<times> file_decoder" where
  "decoder_next d = (case next_answer (fd_track_id d) (fd_answers d) of (r, as) \<Rightarrow> (r, d\<lparr>fd_answers := as\<rparr>))"

section \<open>Facts\<close>

lemma next_answer_shorter:
  "next_answer tid as = (Inr (Some c), as') \<Longrightarrow> length as' < length as"
proof (induction tid as rule: next_answer.induct)
  case (3 tid track decoded as)
  then show ?case
    by (fastforce simp: Let_def split: if_splits sum.splits media_error.splits)
qed (auto split: if_splits)

lemma next_answer_chunk:
  "next_answer tid as = (Inr (Some c), as') \<Longrightarrow> pc_samples c \<noteq> []"
proof (induction tid as rule: next_answer.induct)
  case (3 tid track decoded as)
  then show ?case
    by (fastforce simp: Let_def split: if_splits sum.splits media_error.splits)
qed (auto split: if_splits)

lemma decoder_next_shorter:
  "decoder_next d = (Inr (Some c), d') \<Longrightarrow> length (fd_answers d') < length (fd_answers d)"
  by (auto simp: decoder_next_def dest: next_answer_shorter split: prod.splits)

text \<open>
  A scan lists exactly the readable regular files below the folder whose extension is
  mp3 or ogg in any case, each as often as the walk met it, in lexicographic order of their paths;
  it fails exactly when the folder is not a directory.
\<close>

theorem scan_lists_audio:
  "case scan root fv of
     Inl e \<Rightarrow> \<not> fv_is_dir fv
   | Inr ts \<Rightarrow> fv_is_dir fv \<and> sorted ts \<and>
       count_list ts p = (if playable p then count_list (fv_entries fv) (Some (p, True)) else 0)"
proof -
  have a: "count_list (map fst (filter snd (List.map_filter id es))) p = count_list es (Some (p, True))"
    for es :: "(os_path \<times> bool) option list"
    by (induction es) (auto simp: List.map_filter_simps split: option.splits)
  have b: "count_list (filter playable ps) p = (if playable p then count_list ps p else 0)" for ps
    by (induction ps) auto
  have c: "count_list (sort ps) p = count_list ps p" for ps :: "os_path list"
    by (metis mset_sort count_mset)
  show ?thesis
    by (simp add: scan_def c b a)
qed

end
