(* ===== verification/Autodj_Player.thy ===== *)
theory Autodj_Player
  imports Autodj_Media Owner_Wait Icecast_Ingest Slot_Protocol
begin

text \<open>
  \<open>crates/rustyice-autodj/src/player.rs\<close>: playing a track, a pass over a playlist, and the loop of
  the player. What a turn of the track loop observes (cancellation, the clock, the end of the pacing
  sleep) is a function of the number of the turn.
\<close>

section \<open>Playing\<close>

record dj_tick =
  dk_cancelled :: bool
  dk_pts :: nat
  dk_elapsed :: nat
  dk_sleep_cancelled :: bool

text \<open>The variables of a pass; \<open>dp_turn\<close> counts the turns of the track loop.\<close>

record ('i, 'r, 'l, 'v) dj_pass =
  dp_pipeline :: "('i, 'r, 'l, 'v) pipeline"
  dp_mount :: active_mount
  dp_sequence :: nat
  dp_output_bytes :: nat
  dp_capture :: "ogg_capture option"
  dp_turn :: nat

text \<open>How a track or a pass ends: over, cancelled, in a panic, or not at all.\<close>

datatype ('i, 'r, 'l, 'v) played =
  PlayOver "('i, 'r, 'l, 'v) dj_pass"
| PlayCancelled "('i, 'r, 'l, 'v) dj_pass"
| PlayPanics "('i, 'r, 'l, 'v) dj_pass"
| PlayHangs "('i, 'r, 'l, 'v) dj_pass"

definition format_codec :: "transcode_format \<Rightarrow> codec_id" where
  "format_codec f = (case f of FmtMp3 \<Rightarrow> MP3 | FmtVorbis \<Rightarrow> VORBIS)"

definition output_bps :: "transcode_config \<Rightarrow> nat" where
  "output_bps tc = tc_bitrate_kbps tc * 1000 div 8"

definition publish_encoded ::
  "byte list \<Rightarrow> codec_id \<Rightarrow> nat \<Rightarrow> ('i, 'r, 'l, 'v) dj_pass \<Rightarrow> ('i, 'r, 'l, 'v) dj_pass" where
  "publish_encoded data codec pts p =
     (let p1 = p\<lparr>dp_output_bytes := dp_output_bytes p + length data\<rparr>;
          p2 = (case dp_capture p1 of
                  None \<Rightarrow> p1
                | Some cap \<Rightarrow>
                    (let cap' = capture_push cap data in
                     if is_settled cap' then
                       p1\<lparr>dp_capture := None,
                          dp_mount := (case header_bytes cap' of
                              Some h \<Rightarrow> (dp_mount p1)\<lparr>am_header_bytes := Some h\<rparr> | None \<Rightarrow> dp_mount p1)\<rparr>
                     else p1\<lparr>dp_capture := Some cap'\<rparr>))
      in p2\<lparr>dp_mount := (dp_mount p2)\<lparr>am_bus := publish (am_bus (dp_mount p2))
              \<lparr>sp_payload = Encoded \<lparr>ep_codec = codec, ep_data = data\<rparr>, sp_pts = pts, sp_sequence = dp_sequence p2\<rparr>\<rparr>,
            dp_sequence := dp_sequence p2 + 1\<rparr>)"

text \<open>Pacing: true unless the sleep is cancelled. The rounding of the quotient is not modelled.\<close>

definition dj_pace :: "nat \<Rightarrow> nat \<Rightarrow> dj_tick \<Rightarrow> bool" where
  "dj_pace output_bytes bps k =
     (case pacing_target output_bytes bps of
        None \<Rightarrow> True
      | Some target \<Rightarrow> \<not> (dk_elapsed k < target \<and> dk_sleep_cancelled k))"

function track_loop ::
  "('i, 'p, 'r, 'l, 'v) media_libs \<Rightarrow> transcode_config \<Rightarrow> (nat \<Rightarrow> dj_tick) \<Rightarrow> file_decoder \<Rightarrow> ('i, 'r, 'l, 'v) dj_pass
     \<Rightarrow> ('i, 'r, 'l, 'v) played" where
  "track_loop libs tc env d p =
     (let k = env (dp_turn p); p1 = p\<lparr>dp_turn := dp_turn p + 1\<rparr> in
      if dk_cancelled k then PlayCancelled p1
      else (case decoder_next d of
              (Inl e, _) \<Rightarrow> PlayOver p1
            | (Inr None, _) \<Rightarrow> PlayOver p1
            | (Inr (Some chunk), d') \<Rightarrow>
                (case pipeline_push_pcm libs (dp_pipeline p1) (pc_samples chunk) (pc_sample_rate chunk) (pc_channels chunk) of
                   Diverges \<Rightarrow> PlayHangs p1
                 | Panics \<Rightarrow> PlayPanics p1
                 | Returns (Inl e, pl) \<Rightarrow> track_loop libs tc env d' (p1\<lparr>dp_pipeline := pl\<rparr>)
                 | Returns (Inr encoded, pl) \<Rightarrow>
                     if encoded = [] then track_loop libs tc env d' (p1\<lparr>dp_pipeline := pl\<rparr>)
                     else (let p2 = publish_encoded encoded (format_codec (tc_format tc)) (dk_pts k) (p1\<lparr>dp_pipeline := pl\<rparr>) in
                           if dj_pace (dp_output_bytes p2) (output_bps tc) k then track_loop libs tc env d' p2
                           else PlayCancelled p2))))"
  by pat_completeness auto
termination
  by (relation "measure (\<lambda>(libs, tc, env, d, p). length (fd_answers d))") (auto dest: decoder_next_shorter [OF sym])

declare track_loop.simps [simp del]

text \<open>The files of the playlist, as the tag reader and the media library see them.\<close>

record media_files =
  ms_tags :: "os_path \<Rightarrow> tagged_file option"
  ms_file :: "os_path \<Rightarrow> media_file"

definition play_track ::
  "('i, 'p, 'r, 'l, 'v) media_libs \<Rightarrow> media_files \<Rightarrow> transcode_config \<Rightarrow> (nat \<Rightarrow> dj_tick) \<Rightarrow> os_path
     \<Rightarrow> ('i, 'r, 'l, 'v) dj_pass \<Rightarrow> ('i, 'r, 'l, 'v) played" where
  "play_track libs files tc env track p =
     (let p1 = p\<lparr>dp_mount := (dp_mount p)\<lparr>am_current_title := Some (display_title (ms_tags files) track)\<rparr>\<rparr> in
      case decoder_open track (ms_file files track) of
        Inl e \<Rightarrow> PlayOver p1
      | Inr d \<Rightarrow> track_loop libs tc env d p1)"

text \<open>
  The loop over the tracks. The check between two tracks sees the cancellation at the time of the
  next turn.
\<close>

fun play_tracks ::
  "('i, 'p, 'r, 'l, 'v) media_libs \<Rightarrow> media_files \<Rightarrow> transcode_config \<Rightarrow> (nat \<Rightarrow> dj_tick) \<Rightarrow> os_path list
     \<Rightarrow> ('i, 'r, 'l, 'v) dj_pass \<Rightarrow> ('i, 'r, 'l, 'v) played" where
  "play_tracks libs files tc env [] p = PlayOver p"
| "play_tracks libs files tc env (track # tracks) p =
     (if dk_cancelled (env (dp_turn p)) then PlayCancelled p
      else (case play_track libs files tc env track p of
              PlayOver p' \<Rightarrow> play_tracks libs files tc env tracks p'
            | r \<Rightarrow> r))"

definition pass_start :: "('i, 'r, 'l, 'v) pipeline \<Rightarrow> transcode_config \<Rightarrow> active_mount \<Rightarrow> ('i, 'r, 'l, 'v) dj_pass" where
  "pass_start pl tc m =
     \<lparr>dp_pipeline = pl, dp_mount = m, dp_sequence = 0, dp_output_bytes = 0,
      dp_capture = (if tc_format tc = FmtVorbis then Some capture_new else None), dp_turn = 0\<rparr>"

text \<open>
  The whole pass: the mount it leaves and how it ended. Without a source token on the mount it ends
  at once as cancelled.
\<close>

datatype pass_outcome = PassCompleted | PassCancelled

definition play_playlist ::
  "('i, 'p, 'r, 'l, 'v) media_libs \<Rightarrow> media_files \<Rightarrow> os_path list \<Rightarrow> transcode_config \<Rightarrow> (string \<times> string) list
     \<Rightarrow> (nat \<Rightarrow> dj_tick) \<Rightarrow> active_mount \<Rightarrow> (pass_outcome outcome \<times> active_mount)" where
  "play_playlist libs files tracks tc comments env m =
     (if am_source_cancel m = None then (Returns PassCancelled, m)
      else (case pipeline_new tc MP3 comments of
              Inl e \<Rightarrow> (Returns PassCompleted, m)
            | Inr pl \<Rightarrow>
                (case play_tracks libs files tc env tracks (pass_start pl tc m) of
                   PlayOver p \<Rightarrow> (Returns PassCompleted, dp_mount p)
                 | PlayCancelled p \<Rightarrow> (Returns PassCancelled, dp_mount p)
                 | PlayPanics p \<Rightarrow> (Panics, dp_mount p)
                 | PlayHangs p \<Rightarrow> (Diverges, dp_mount p))))"

section \<open>The player\<close>

definition vorbis_comments_for :: "autodj_config \<Rightarrow> (string \<times> string) list" where
  "vorbis_comments_for cfg =
     (case ad_name cfg of None \<Rightarrow> [] | Some s \<Rightarrow> [(''TITLE'', s)]) @
     (case ad_description cfg of None \<Rightarrow> [] | Some s \<Rightarrow> [(''DESCRIPTION'', s)]) @
     (case ad_genre cfg of None \<Rightarrow> [] | Some s \<Rightarrow> [(''GENRE'', s)]) @
     (case ad_url cfg of None \<Rightarrow> [] | Some s \<Rightarrow> [(''LOCATION'', s)]) @
     [(''ENCODER'', ''rustyice/'' @ pkg_version)]"

record autodj_player =
  dj_folder :: string
  dj_order :: play_order
  dj_loop_playlist :: bool
  dj_transcode :: transcode_config
  dj_comments :: "(string \<times> string) list"

definition player_from_config :: "autodj_config \<Rightarrow> autodj_player" where
  "player_from_config cfg =
     \<lparr>dj_folder = ad_folder cfg, dj_order = ad_order cfg, dj_loop_playlist = ad_loop_playlist cfg,
      dj_transcode = ad_transcode cfg, dj_comments = vorbis_comments_for cfg\<rparr>"

text \<open>
  Where the task is: at the head of the loop, waiting for a live source, about to scan, idling on an
  empty folder, about to claim with its playlist, playing, waiting to resume after a pre-emption,
  returned, stopped by a panic, or in a library call that does not return.
\<close>

datatype dj_pc =
  DjTop | DjWaiting | DjScan | DjIdle | DjClaim "os_path list" | DjPlaying "os_path list"
| DjResume | DjReturned | DjPanicked | DjHung

record dj_task =
  dt_pc :: dj_pc
  dt_mount :: active_mount

text \<open>
  What a step observes: the shutdown token, the folder, the shuffle, for a claim the new token and
  the time, what the turns of a pass see, whether the idle pause is over; and what other tasks have
  done to the mount since the last step.
\<close>

record dj_obs =
  do_shutdown :: bool
  do_folder :: folder_view
  do_shuffle :: "os_path list \<Rightarrow> os_path list"
  do_token :: token
  do_now :: nat
  do_files :: media_files
  do_env :: "nat \<Rightarrow> dj_tick"
  do_timer :: bool
  do_others :: "active_mount \<Rightarrow> active_mount"

text \<open>After a pass: the slot is released first, then the outcome decides.\<close>

definition after_pass :: "bool \<Rightarrow> bool \<Rightarrow> pass_outcome \<Rightarrow> active_mount \<Rightarrow> dj_task" where
  "after_pass shutdown loop_playlist oc m0 =
     (let m = autodj_release_slot m0 in
      case oc of
        PassCancelled \<Rightarrow>
          if shutdown then \<lparr>dt_pc = DjReturned, dt_mount = m\<rparr>
          else if am_preempt_pending m then \<lparr>dt_pc = DjResume, dt_mount = m\<lparr>am_preempt_pending := False\<rparr>\<rparr>
          else \<lparr>dt_pc = DjTop, dt_mount = m\<rparr>
      | PassCompleted \<Rightarrow> \<lparr>dt_pc = (if loop_playlist then DjTop else DjReturned), dt_mount = m\<rparr>)"

definition dj_act ::
  "('i, 'p, 'r, 'l, 'v) media_libs \<Rightarrow> autodj_player \<Rightarrow> dj_obs \<Rightarrow> dj_task \<Rightarrow> dj_task" where
  "dj_act libs dj ob t =
     (case dt_pc t of
        DjTop \<Rightarrow>
          t\<lparr>dt_pc := (if do_shutdown ob then DjReturned
                     else if am_source_connected (dt_mount t) then DjWaiting else DjScan)\<rparr>
      | DjWaiting \<Rightarrow>
          (case poll_release (do_shutdown ob) (dt_mount t) of
             (over, m) \<Rightarrow>
               t\<lparr>dt_mount := m,
                 dt_pc := (if \<not> over then DjWaiting else if do_shutdown ob then DjReturned else DjScan)\<rparr>)
      | DjScan \<Rightarrow>
          t\<lparr>dt_pc :=
              (case scan (dj_folder dj) (do_folder ob) of
                 Inl e \<Rightarrow> DjReturned
               | Inr tracks \<Rightarrow>
                   if tracks = [] then DjIdle else DjClaim (order_tracks (do_shuffle ob) tracks (dj_order dj)))\<rparr>
      | DjIdle \<Rightarrow> if do_shutdown ob \<or> do_timer ob then t\<lparr>dt_pc := DjTop\<rparr> else t
      | DjClaim tracks \<Rightarrow>
          (case autodj_claim_slot (do_token ob) (do_now ob) (dt_mount t) of
             (False, m) \<Rightarrow> t\<lparr>dt_pc := DjTop, dt_mount := m\<rparr>
           | (True, m) \<Rightarrow> t\<lparr>dt_pc := DjPlaying tracks, dt_mount := m\<rparr>)
      | DjPlaying tracks \<Rightarrow>
          (case play_playlist libs (do_files ob) tracks (dj_transcode dj) (dj_comments dj) (do_env ob) (dt_mount t) of
             (Returns oc, m) \<Rightarrow> after_pass (do_shutdown ob) (dj_loop_playlist dj) oc m
           | (Panics, m) \<Rightarrow> t\<lparr>dt_pc := DjPanicked, dt_mount := m\<rparr>
           | (Diverges, m) \<Rightarrow> t\<lparr>dt_pc := DjHung, dt_mount := m\<rparr>)
      | DjResume \<Rightarrow>
          (case notified (dt_mount t) of Some m \<Rightarrow> t\<lparr>dt_pc := DjTop, dt_mount := m\<rparr> | None \<Rightarrow> t)
      | _ \<Rightarrow> t)"

definition dj_step ::
  "('i, 'p, 'r, 'l, 'v) media_libs \<Rightarrow> autodj_player \<Rightarrow> dj_obs \<Rightarrow> dj_task \<Rightarrow> dj_task" where
  "dj_step libs dj ob t = dj_act libs dj ob (t\<lparr>dt_mount := do_others ob (dt_mount t)\<rparr>)"

end
