(* ===== verification/Autodj_Facts.thy ===== *)
theory Autodj_Facts
  imports Autodj_Player
begin

text \<open>
  What a pass of an AutoDJ leaves on the bus: the tracks encoded as one stream. How the player
  behaves under shutdown, and what a panic in a pass costs.
\<close>

section \<open>Reference: the tracks as one stream\<close>

text \<open>The audio of a file: its decodable chunks up to the first error that is not a decode error.\<close>

fun chunks_of :: "nat \<Rightarrow> media_answer list \<Rightarrow> pcm_chunk list" where
  "chunks_of tid [] = []"
| "chunks_of tid (MaFails e # as) = []"
| "chunks_of tid (MaPacket track decoded # as) =
     (if track \<noteq> tid then chunks_of tid as
      else (case decoded of
              Inr (samples, rate, n) \<Rightarrow>
                if samples = [] then chunks_of tid as else audio_buffer_to_pcm (samples, rate, n) # chunks_of tid as
            | Inl e \<Rightarrow> (case e of MeDecode _ \<Rightarrow> chunks_of tid as | _ \<Rightarrow> [])))"

definition track_chunks :: "media_files \<Rightarrow> os_path \<Rightarrow> pcm_chunk list" where
  "track_chunks files track =
     (case decoder_open track (ms_file files track) of
        Inl e \<Rightarrow> [] | Inr d \<Rightarrow> chunks_of (fd_track_id d) (fd_answers d))"

text \<open>One encoder over all chunks: what it gives out, chunk by chunk, and how it ends.\<close>

fun encode_stream ::
  "('i, 'p, 'r, 'l, 'v) media_libs \<Rightarrow> pcm_chunk list \<Rightarrow> ('i, 'r, 'l, 'v) pipeline
     \<Rightarrow> byte list list \<times> ('i, 'r, 'l, 'v) pipeline outcome" where
  "encode_stream libs [] pl = ([], Returns pl)"
| "encode_stream libs (c # cs) pl =
     (case pipeline_push_pcm libs pl (pc_samples c) (pc_sample_rate c) (pc_channels c) of
        Diverges \<Rightarrow> ([], Diverges)
      | Panics \<Rightarrow> ([], Panics)
      | Returns (Inl e, pl') \<Rightarrow> encode_stream libs cs pl'
      | Returns (Inr b, pl') \<Rightarrow>
          (case encode_stream libs cs pl' of (bs, r) \<Rightarrow> (if b = [] then bs else b # bs, r)))"

lemma encode_stream_append:
  "encode_stream libs (xs @ ys) pl =
     (case encode_stream libs xs pl of
        (bs, Returns pl') \<Rightarrow> (case encode_stream libs ys pl' of (bs', r) \<Rightarrow> (bs @ bs', r))
      | r \<Rightarrow> r)"
  by (induction libs xs pl rule: encode_stream.induct)
    (auto split: prod.splits outcome.splits sum.splits)

lemma chunks_of_next:
  "chunks_of tid as =
     (case next_answer tid as of (Inr (Some c), as') \<Rightarrow> c # chunks_of tid as' | _ \<Rightarrow> [])"
  by (induction tid as rule: next_answer.induct)
    (auto simp: audio_buffer_to_pcm_def Let_def split: sum.splits option.splits media_error.splits)

section \<open>A pass\<close>

text \<open>What a pass adds to its mount; the fields of the slot are not touched.\<close>

definition slot_fields ::
  "active_mount \<Rightarrow> mount_info \<times> bool \<times> nat option \<times> token option \<times> source_overlay option \<times> byte \<times> bool \<times> bool" where
  "slot_fields m =
     (am_info m, am_source_connected m, am_connected_at m, am_source_cancel m, am_source_overlay m,
      am_source_kind m, am_preempt_pending m, am_resume_permit m)"

definition pass_adds ::
  "codec_id \<Rightarrow> stream_packet list \<Rightarrow> ('i, 'r, 'l, 'v) dj_pass \<Rightarrow> ('i, 'r, 'l, 'v) dj_pass \<Rightarrow> bool" where
  "pass_adds c ps p p' \<longleftrightarrow>
     bs_sent (am_bus (dp_mount p')) = bs_sent (am_bus (dp_mount p)) @ ps \<and>
     run_published c (dp_sequence p) ps \<and> dp_sequence p' = dp_sequence p + length ps \<and>
     slot_fields (dp_mount p') = slot_fields (dp_mount p)"

lemma pass_adds_none:
  "am_bus (dp_mount p') = am_bus (dp_mount p) \<Longrightarrow> dp_sequence p' = dp_sequence p \<Longrightarrow>
     slot_fields (dp_mount p') = slot_fields (dp_mount p) \<Longrightarrow> pass_adds c [] p p'"
  by (simp add: pass_adds_def run_published_def)

lemma pass_adds_trans: "pass_adds c ps p q \<Longrightarrow> pass_adds c qs q r \<Longrightarrow> pass_adds c (ps @ qs) p r"
  by (auto simp: pass_adds_def run_published_def nth_append)

lemma publish_encoded_adds:
  "\<exists>k. pass_adds c [k] p (publish_encoded data c pts p) \<and> audio_of [k] = [data]"
  by (rule exI [where x = "\<lparr>sp_payload = Encoded \<lparr>ep_codec = c, ep_data = data\<rparr>, sp_pts = pts, sp_sequence = dp_sequence p\<rparr>"])
    (auto simp: pass_adds_def publish_encoded_def run_published_def audio_of_def slot_fields_def Let_def split: option.splits)

lemma publish_encoded_sel [simp]:
  "dp_pipeline (publish_encoded data c pts p) = dp_pipeline p" "dp_turn (publish_encoded data c pts p) = dp_turn p"
  by (auto simp: publish_encoded_def Let_def split: option.splits)

fun played_state :: "('i, 'r, 'l, 'v) played \<Rightarrow> ('i, 'r, 'l, 'v) dj_pass" where
  "played_state (PlayOver p) = p"
| "played_state (PlayCancelled p) = p"
| "played_state (PlayPanics p) = p"
| "played_state (PlayHangs p) = p"

fun played_end :: "('i, 'r, 'l, 'v) played \<Rightarrow> ('i, 'r, 'l, 'v) pipeline outcome option" where
  "played_end (PlayOver p) = Some (Returns (dp_pipeline p))"
| "played_end (PlayCancelled p) = None"
| "played_end (PlayPanics p) = Some Panics"
| "played_end (PlayHangs p) = Some Diverges"

text \<open>A run from \<open>p\<close> publishes the reference's output, or a prefix of it when it is cancelled.\<close>

definition plays ::
  "('i, 'p, 'r, 'l, 'v) media_libs \<Rightarrow> codec_id \<Rightarrow> pcm_chunk list \<Rightarrow> ('i, 'r, 'l, 'v) dj_pass \<Rightarrow> ('i, 'r, 'l, 'v) played \<Rightarrow> bool" where
  "plays libs c cs p r \<longleftrightarrow>
     (\<exists>ps. pass_adds c ps p (played_state r) \<and>
        (case played_end r of
           None \<Rightarrow> prefix (audio_of ps) (fst (encode_stream libs cs (dp_pipeline p)))
         | Some oc \<Rightarrow> encode_stream libs cs (dp_pipeline p) = (audio_of ps, oc)))"

lemma plays_trans:
  assumes "plays libs c cs p (PlayOver q)" and "plays libs c cs' q r"
  shows "plays libs c (cs @ cs') p r"
proof -
  obtain ps qs where ps: "pass_adds c ps p q" "encode_stream libs cs (dp_pipeline p) = (audio_of ps, Returns (dp_pipeline q))"
    and qs: "pass_adds c qs q (played_state r)" "case played_end r of
        None \<Rightarrow> prefix (audio_of qs) (fst (encode_stream libs cs' (dp_pipeline q)))
      | Some oc \<Rightarrow> encode_stream libs cs' (dp_pipeline q) = (audio_of qs, oc)"
    using assms by (auto simp: plays_def)
  then show ?thesis
    unfolding plays_def
    by (intro exI [of _ "ps @ qs"] conjI pass_adds_trans)
      (auto simp: encode_stream_append audio_of_append split: option.splits prod.splits)
qed

lemma plays_cut:
  "plays libs c cs p r \<Longrightarrow> \<forall>q. r \<noteq> PlayOver q \<Longrightarrow> plays libs c (cs @ cs') p r"
  by (cases r) (auto simp: plays_def encode_stream_append intro: prefix_prefix split: prod.splits outcome.splits)

text \<open>One turn: nothing is published, or exactly one packet.\<close>

lemma plays_silent:
  assumes "pass_adds c [] p p1" and "plays libs c cs p1 r"
    and "encode_stream libs cs' (dp_pipeline p) = encode_stream libs cs (dp_pipeline p1)"
  shows "plays libs c cs' p r"
proof -
  obtain ps where ps: "pass_adds c ps p1 (played_state r)" "case played_end r of
        None \<Rightarrow> prefix (audio_of ps) (fst (encode_stream libs cs (dp_pipeline p1)))
      | Some oc \<Rightarrow> encode_stream libs cs (dp_pipeline p1) = (audio_of ps, oc)"
    using assms(2) by (auto simp: plays_def)
  then show ?thesis
    unfolding plays_def assms(3) using pass_adds_trans [OF assms(1) ps(1)] by (intro exI [of _ ps]) simp
qed

lemma plays_packet:
  assumes "pass_adds c [k] p p1" and "audio_of [k] = [b]" and "plays libs c cs p1 r"
    and "encode_stream libs (chunk # cs) (dp_pipeline p) =
      (case encode_stream libs cs (dp_pipeline p1) of (bs, oc) \<Rightarrow> (b # bs, oc))"
  shows "plays libs c (chunk # cs) p r"
proof -
  obtain ps where ps: "pass_adds c ps p1 (played_state r)" "case played_end r of
        None \<Rightarrow> prefix (audio_of ps) (fst (encode_stream libs cs (dp_pipeline p1)))
      | Some oc \<Rightarrow> encode_stream libs cs (dp_pipeline p1) = (audio_of ps, oc)"
    using assms(3) by (auto simp: plays_def)
  have "audio_of (k # ps) = b # audio_of ps"
    using audio_of_append [of "[k]" ps] assms(2) by simp
  then show ?thesis
    unfolding plays_def using pass_adds_trans [OF assms(1) ps(1)] ps(2) assms(4)
    by (intro exI [of _ "k # ps"]) (auto split: option.splits prod.splits)
qed

lemma audio_of_Nil [simp]: "audio_of [] = []"
  by (simp add: audio_of_def)

lemma plays_now:
  "pass_adds c [] p (played_state r) \<Longrightarrow>
     (case played_end r of None \<Rightarrow> True | Some oc \<Rightarrow> encode_stream libs cs (dp_pipeline p) = ([], oc)) \<Longrightarrow> plays libs c cs p r"
  unfolding plays_def by (rule exI [of _ "[]"]) (auto split: option.splits)

lemma track_loop_plays:
  "plays libs (format_codec (tc_format tc)) (chunks_of (fd_track_id d) (fd_answers d)) p (track_loop libs tc env d p)"
proof (induction "length (fd_answers d)" arbitrary: d p rule: less_induct)
  case less
  let ?c = "format_codec (tc_format tc)" and ?k = "env (dp_turn p)"
  define p1 where "p1 = p\<lparr>dp_turn := dp_turn p + 1\<rparr>"
  have p1: "pass_adds ?c [] p p1" "dp_pipeline p1 = dp_pipeline p"
    by (auto simp: p1_def intro: pass_adds_none)
  have p2: "pass_adds ?c [] p (p1\<lparr>dp_pipeline := pl\<rparr>)" for pl
    by (auto simp: p1_def intro: pass_adds_none)
  note loop = track_loop.simps [of libs tc env d p, unfolded Let_def, folded p1_def]
  obtain rs d' where d': "decoder_next d = (rs, d')"
    by fastforce
  have nx: "next_answer (fd_track_id d) (fd_answers d) = (rs, fd_answers d')" "fd_track_id d' = fd_track_id d"
    using d' by (auto simp: decoder_next_def split: prod.splits)
  note cs = chunks_of_next [of "fd_track_id d" "fd_answers d", unfolded nx(1)]
  consider "dk_cancelled ?k" | "\<not> dk_cancelled ?k" "\<nexists>chunk. rs = Inr (Some chunk)"
    | chunk where "\<not> dk_cancelled ?k" "rs = Inr (Some chunk)" by blast
  then show ?case
  proof cases
    case 1
    then show ?thesis
      using p1 by (auto simp: loop intro: plays_now)
  next
    case 2
    then have "track_loop libs tc env d p = PlayOver p1" "chunks_of (fd_track_id d) (fd_answers d) = []"
      using d' cs by (auto simp: loop split: sum.splits option.splits)
    then show ?thesis
      using p1 by (auto intro: plays_now)
  next
    case 3
    let ?push = "pipeline_push_pcm libs (dp_pipeline p) (pc_samples chunk) (pc_sample_rate chunk) (pc_channels chunk)"
    have rest: "chunks_of (fd_track_id d) (fd_answers d) = chunk # chunks_of (fd_track_id d') (fd_answers d')"
      using cs 3 nx by simp
    have IH: "plays libs ?c (chunks_of (fd_track_id d') (fd_answers d')) q (track_loop libs tc env d' q)" for q
      using less.hyps [OF decoder_next_shorter [OF d' [unfolded 3(2)]]] .
    consider "?push = Panics" | "?push = Diverges" | e pl where "?push = Returns (Inl e, pl)"
      | pl where "?push = Returns (Inr [], pl)" | b pl where "?push = Returns (Inr b, pl)" "b \<noteq> []"
      by (metis outcome.exhaust surj_pair sum.exhaust)
    then show ?thesis
    proof cases
      case (3 e pl)
      have "track_loop libs tc env d p = track_loop libs tc env d' (p1\<lparr>dp_pipeline := pl\<rparr>)"
        using 3 \<open>\<not> dk_cancelled ?k\<close> \<open>rs = Inr (Some chunk)\<close> d' p1(2) by (simp add: loop)
      then show ?thesis
        unfolding rest using 3 by (auto intro: plays_silent [OF p2 IH])
    next
      case (4 pl)
      have "track_loop libs tc env d p = track_loop libs tc env d' (p1\<lparr>dp_pipeline := pl\<rparr>)"
        using 4 \<open>\<not> dk_cancelled ?k\<close> \<open>rs = Inr (Some chunk)\<close> d' p1(2) by (simp add: loop)
      then show ?thesis
        unfolding rest using 4 by (auto intro: plays_silent [OF p2 IH] split: prod.splits)
    next
      case (5 b pl)
      define p3 where "p3 = publish_encoded b ?c (dk_pts ?k) (p1\<lparr>dp_pipeline := pl\<rparr>)"
      obtain k where k: "pass_adds ?c [k] (p1\<lparr>dp_pipeline := pl\<rparr>) p3" "audio_of [k] = [b]"
        using publish_encoded_adds unfolding p3_def by blast
      have k': "pass_adds ?c [k] p p3"
        using pass_adds_trans [OF p2 k(1)] by simp
      have step: "track_loop libs tc env d p =
          (if dj_pace (dp_output_bytes p3) (output_bps tc) ?k then track_loop libs tc env d' p3 else PlayCancelled p3)"
        using 5 \<open>\<not> dk_cancelled ?k\<close> \<open>rs = Inr (Some chunk)\<close> d' p1(2) by (simp add: loop p3_def Let_def)
      have p3: "dp_pipeline p3 = pl"
        by (simp add: p3_def)
      have "plays libs ?c (chunks_of (fd_track_id d') (fd_answers d')) p3 (PlayCancelled p3)"
        by (rule plays_now) (simp_all add: pass_adds_none)
      then show ?thesis
        unfolding rest step using 5 IH [of p3]
        by (auto intro!: plays_packet [OF k' k(2)] simp: p3 split: prod.splits)
    qed (use \<open>\<not> dk_cancelled ?k\<close> \<open>rs = Inr (Some chunk)\<close> d' p1 rest in \<open>auto simp: loop intro!: plays_now\<close>)
  qed
qed

lemma play_track_plays:
  "plays libs (format_codec (tc_format tc)) (track_chunks files track) p (play_track libs files tc env track p)"
proof -
  define p1 where "p1 = p\<lparr>dp_mount := (dp_mount p)\<lparr>am_current_title := Some (display_title (ms_tags files) track)\<rparr>\<rparr>"
  have p1: "pass_adds (format_codec (tc_format tc)) [] p p1" "dp_pipeline p1 = dp_pipeline p"
    by (auto simp: p1_def slot_fields_def intro: pass_adds_none)
  show ?thesis
  proof (cases "decoder_open track (ms_file files track)")
    case (Inl e)
    then show ?thesis
      using p1 by (auto simp: play_track_def track_chunks_def p1_def [symmetric] intro: plays_now)
  next
    case (Inr d)
    then have "play_track libs files tc env track p = track_loop libs tc env d p1"
        "track_chunks files track = chunks_of (fd_track_id d) (fd_answers d)"
      by (simp_all add: play_track_def track_chunks_def p1_def)
    moreover have "plays libs (format_codec (tc_format tc)) (chunks_of (fd_track_id d) (fd_answers d)) p (track_loop libs tc env d p1)"
      by (rule plays_silent [OF p1(1) track_loop_plays]) (simp add: p1(2))
    ultimately show ?thesis
      by simp
  qed
qed

lemma play_tracks_plays:
  "plays libs (format_codec (tc_format tc)) (concat (map (track_chunks files) tracks)) p (play_tracks libs files tc env tracks p)"
proof (induction libs files tc env tracks p rule: play_tracks.induct)
  case (1 libs files tc env p)
  then show ?case
    by (auto intro!: plays_now pass_adds_none)
next
  case (2 libs files tc env track tracks p)
  let ?c = "format_codec (tc_format tc)" and ?r = "play_track libs files tc env track p"
  note one = play_track_plays [of libs tc files track p env]
  consider "dk_cancelled (env (dp_turn p))" | q where "\<not> dk_cancelled (env (dp_turn p))" "?r = PlayOver q"
    | "\<not> dk_cancelled (env (dp_turn p))" "\<forall>q. ?r \<noteq> PlayOver q" by blast
  then show ?case
  proof cases
    case 1
    then show ?thesis
      by (auto intro!: plays_now pass_adds_none)
  next
    case (2 q)
    then show ?thesis
      using plays_trans [OF one [unfolded 2(2)] "2.IH" [OF 2]] by simp
  next
    case 3
    then have "play_tracks libs files tc env (track # tracks) p = ?r"
      by (auto split: played.splits)
    then show ?thesis
      using plays_cut [OF one] 3(2) by simp
  qed
qed

text \<open>Without cancellation a pass is not cut short.\<close>

definition undisturbed :: "(nat \<Rightarrow> dj_tick) \<Rightarrow> bool" where
  "undisturbed env \<longleftrightarrow> (\<forall>i. \<not> dk_cancelled (env i) \<and> \<not> dk_sleep_cancelled (env i))"

lemma track_loop_undisturbed: "undisturbed env \<Longrightarrow> track_loop libs tc env d p \<noteq> PlayCancelled q"
proof (induction "length (fd_answers d)" arbitrary: d p rule: less_induct)
  case less
  then show ?case
    by (subst track_loop.simps)
      (auto simp: undisturbed_def Let_def dj_pace_def split: prod.splits sum.splits option.splits outcome.splits
        dest: decoder_next_shorter)
qed

lemma play_tracks_undisturbed: "undisturbed env \<Longrightarrow> play_tracks libs files tc env tracks p \<noteq> PlayCancelled q"
proof (induction libs files tc env tracks p rule: play_tracks.induct)
  case (2 libs files tc env track tracks p)
  then have "play_track libs files tc env track p \<noteq> PlayCancelled q"
    by (auto simp: play_track_def Let_def track_loop_undisturbed split: sum.splits)
  then show ?case
    using 2 by (auto simp: undisturbed_def split: played.splits)
qed simp

definition fresh_pipeline :: "transcode_config \<Rightarrow> (string \<times> string) list \<Rightarrow> ('i, 'r, 'l, 'v) pipeline" where
  "fresh_pipeline tc comments =
     \<lparr>pl_config = tc, pl_decoder = stream_decoder_new MP3, pl_encoder = None, pl_comments = comments,
      pl_source_rate = None, pl_source_channels = None, pl_resampler = None\<rparr>"

lemma pass_result:
  fixes libs :: "('i, 'p, 'r, 'l, 'v) media_libs"
  assumes "play_playlist libs files tracks tc comments env m = (oc, m')"
  shows "\<exists>ps. bs_sent (am_bus m') = bs_sent (am_bus m) @ ps \<and> run_published (format_codec (tc_format tc)) 0 ps \<and>
    slot_fields m' = slot_fields m \<and>
    (case encode_stream libs (concat (map (track_chunks files) tracks)) (fresh_pipeline tc comments) of
       (bs, r) \<Rightarrow> if oc = Returns PassCancelled then prefix (audio_of ps) bs
         else audio_of ps = bs \<and> (oc = Panics \<longleftrightarrow> r = Panics) \<and> (oc = Diverges \<longleftrightarrow> r = Diverges))"
proof (cases "am_source_cancel m = None")
  case True
  then show ?thesis
    using assms by (intro exI [of _ "[]"]) (auto simp: play_playlist_def run_published_def split: prod.splits)
next
  case False
  define pl :: "('i, 'r, 'l, 'v) pipeline" where "pl = fresh_pipeline tc comments"
  define r where "r = play_tracks libs files tc env tracks (pass_start pl tc m)"
  have start: "dp_pipeline (pass_start pl tc m) = pl"
    by (simp add: pass_start_def)
  obtain ps where ps: "pass_adds (format_codec (tc_format tc)) ps (pass_start pl tc m) (played_state r)"
      "case played_end r of
         None \<Rightarrow> prefix (audio_of ps) (fst (encode_stream libs (concat (map (track_chunks files) tracks)) pl))
       | Some oc \<Rightarrow> encode_stream libs (concat (map (track_chunks files) tracks)) pl = (audio_of ps, oc)"
    using play_tracks_plays [of libs tc files tracks "pass_start pl tc m" env] unfolding plays_def start r_def by blast
  have oc: "oc = (case r of PlayOver p \<Rightarrow> Returns PassCompleted | PlayCancelled p \<Rightarrow> Returns PassCancelled
      | PlayPanics p \<Rightarrow> Panics | PlayHangs p \<Rightarrow> Diverges)" and m': "m' = dp_mount (played_state r)"
    using assms False by (simp_all add: play_playlist_def pipeline_new_def fresh_pipeline_def r_def pl_def split: played.splits)
  have "bs_sent (am_bus m') = bs_sent (am_bus m) @ ps" "run_published (format_codec (tc_format tc)) 0 ps"
      "slot_fields m' = slot_fields m"
    using ps(1) m' by (simp_all add: pass_adds_def pass_start_def)
  moreover have "case encode_stream libs (concat (map (track_chunks files) tracks)) pl of
      (bs, r) \<Rightarrow> if oc = Returns PassCancelled then prefix (audio_of ps) bs
         else audio_of ps = bs \<and> (oc = Panics \<longleftrightarrow> r = Panics) \<and> (oc = Diverges \<longleftrightarrow> r = Diverges)"
    using ps(2) oc by (cases r) (auto split: prod.splits)
  ultimately show ?thesis
    unfolding pl_def [symmetric] by (intro exI [of _ ps] conjI)
qed

lemma pass_seamless:
  assumes "play_playlist libs files tracks tc comments env m = (oc, m')"
  shows "\<exists>ps. bs_sent (am_bus m') = bs_sent (am_bus m) @ ps \<and> run_published (format_codec (tc_format tc)) 0 ps \<and>
    slot_fields m' = slot_fields m \<and>
    (case encode_stream libs (concat (map (track_chunks files) tracks)) (fresh_pipeline tc comments) of
       (bs, r) \<Rightarrow>
         if oc = Returns PassCancelled then prefix (audio_of ps) bs \<and> \<not> (undisturbed env \<and> am_source_cancel m \<noteq> None)
         else audio_of ps = bs \<and> (oc = Panics \<longleftrightarrow> r = Panics) \<and> (oc = Diverges \<longleftrightarrow> r = Diverges))"
proof -
  have "oc \<noteq> Returns PassCancelled" if "undisturbed env" "am_source_cancel m \<noteq> None"
    using assms that by (auto simp: play_playlist_def play_tracks_undisturbed split: sum.splits played.splits)
  then have "if oc = Returns PassCancelled then \<not> (undisturbed env \<and> am_source_cancel m \<noteq> None) else True"
    by (simp only: split: if_split) blast
  with pass_result [OF assms] show ?thesis
    by (elim exE) (rule exI, auto split: prod.splits if_splits)
qed

text \<open>
  Claim C15. A pass over a playlist publishes its tracks as one stream: the packets it adds to the
  bus, numbered 0, 1, 2 and so on and labelled with the codec of the configured format, are what a
  single encoder gives out for the chunks of all the files in order, files that do not open left
  out and a file cut at its first hard error. A cancelled pass publishes a prefix of that. A pass
  that holds a source token and is not disturbed publishes all of it. The slot is not touched.
\<close>

theorem autodj_pass_seamless:
  "case play_playlist libs files tracks tc comments env m of
     (oc, m') \<Rightarrow>
       \<exists>ps. bs_sent (am_bus m') = bs_sent (am_bus m) @ ps \<and> run_published (format_codec (tc_format tc)) 0 ps \<and>
         slot_fields m' = slot_fields m \<and>
         (case encode_stream libs (concat (map (track_chunks files) tracks)) (fresh_pipeline tc comments) of
            (bs, r) \<Rightarrow>
              if oc = Returns PassCancelled then prefix (audio_of ps) bs \<and> \<not> (undisturbed env \<and> am_source_cancel m \<noteq> None)
              else audio_of ps = bs \<and> (oc = Panics \<longleftrightarrow> r = Panics) \<and> (oc = Diverges \<longleftrightarrow> r = Diverges))"
proof (cases "play_playlist libs files tracks tc comments env m")
  case (Pair oc m')
  from pass_seamless [OF this] show ?thesis
    unfolding Pair prod.case .
qed

section \<open>A panic in a pass\<close>

lemma first_build_fails:
  assumes "encoder_build libs tc n comments = Inl e" and "0 < rate" and "0 < n"
    and "cs = \<lparr>pc_samples = xs, pc_sample_rate = rate, pc_channels = n\<rparr> # \<lparr>pc_samples = ys, pc_sample_rate = rate, pc_channels = n\<rparr> # rest"
    and "xs \<noteq> []" and "ys \<noteq> []"
  shows "encode_stream libs cs (fresh_pipeline tc comments) = ([], Panics)"
proof -
  let ?pl = "fresh_pipeline tc comments"
  obtain pl1 where "process_pcm libs ?pl xs rate n = Returns (Inl e, pl1)" "process_pcm libs pl1 ys rate n = Panics"
    using failed_build_then_panic [of ?pl libs n e ys xs rate] assms by (auto simp: fresh_pipeline_def)
  then show ?thesis
    using assms by (simp add: pipeline_push_pcm_def)
qed

text \<open>
  An AutoDJ whose encoder cannot be built (a bitrate or sample rate its library refuses)
  does not report it: the first chunk is dropped with a logged error, the second finds the missing
  encoder and panics. The task is gone, nothing was published, and the mount stays occupied: the
  release that follows a pass is never reached, however many steps come after.
\<close>

theorem autodj_panic_keeps_slot:
  assumes "encoder_build libs (dj_transcode dj) n (dj_comments dj) = Inl e" and "0 < rate" and "0 < n"
    and "xs \<noteq> []" and "ys \<noteq> []"
    and "concat (map (track_chunks (do_files ob)) tracks) =
      \<lparr>pc_samples = xs, pc_sample_rate = rate, pc_channels = n\<rparr> # \<lparr>pc_samples = ys, pc_sample_rate = rate, pc_channels = n\<rparr> # rest"
    and "dt_pc t = DjPlaying tracks" and "am_source_cancel (dt_mount t) \<noteq> None" and "undisturbed (do_env ob)"
    and "\<forall>ob\<in>set (ob # obs). do_others ob = id"
  shows "dt_pc (task_run (dj_step libs dj) (ob # obs) t) = DjPanicked \<and>
    slot_fields (dt_mount (task_run (dj_step libs dj) (ob # obs) t)) = slot_fields (dt_mount t) \<and>
    bs_sent (am_bus (dt_mount (task_run (dj_step libs dj) (ob # obs) t))) = bs_sent (am_bus (dt_mount t))"
proof -
  have enc: "encode_stream libs (concat (map (track_chunks (do_files ob)) tracks)) (fresh_pipeline (dj_transcode dj) (dj_comments dj)) = ([], Panics)"
    by (rule first_build_fails [OF assms(1,2,3,6,4,5)])
  obtain oc m' where pass: "play_playlist libs (do_files ob) tracks (dj_transcode dj) (dj_comments dj) (do_env ob) (dt_mount t) = (oc, m')"
    by fastforce
  have "oc \<noteq> Returns PassCancelled"
    using pass assms(8,9) by (auto simp: play_playlist_def play_tracks_undisturbed split: sum.splits played.splits)
  with pass_result [OF pass] enc have r: "oc = Panics" "slot_fields m' = slot_fields (dt_mount t)"
      "bs_sent (am_bus m') = bs_sent (am_bus (dt_mount t))"
    by (auto simp: audio_of_def)
  have step: "dj_step libs dj ob t = t\<lparr>dt_pc := DjPanicked, dt_mount := m'\<rparr>"
    using pass r(1) assms(7,10) by (simp add: dj_step_def dj_act_def)
  have stays: "task_run (dj_step libs dj) obs s = s" if "dt_pc s = DjPanicked" "\<forall>ob\<in>set obs. do_others ob = id" for s
    using that by (induction obs) (simp_all add: dj_step_def dj_act_def)
  show ?thesis
    using stays [of "t\<lparr>dt_pc := DjPanicked, dt_mount := m'\<rparr>"] step r assms(10) by simp
qed

section \<open>Shutdown\<close>

definition dj_ended :: "dj_task \<Rightarrow> bool" where
  "dj_ended t \<longleftrightarrow> dt_pc t = DjReturned \<or> dt_pc t = DjPanicked"

text \<open>What can hold a player up: waiting to resume, or a library call that does not return.\<close>

definition dj_held_up :: "dj_obs \<Rightarrow> dj_task \<Rightarrow> bool" where
  "dj_held_up ob t \<longleftrightarrow>
     (case dt_pc t of DjResume \<Rightarrow> \<not> am_resume_permit (do_others ob (dt_mount t)) | DjHung \<Rightarrow> True | _ \<Rightarrow> False)"

fun dj_rank :: "dj_pc \<Rightarrow> nat" where
  "dj_rank DjReturned = 0"
| "dj_rank DjPanicked = 0"
| "dj_rank DjTop = 1"
| "dj_rank DjWaiting = 1"
| "dj_rank DjHung = 1"
| "dj_rank DjScan = 4"
| "dj_rank (DjClaim ts) = 3"
| "dj_rank _ = 2"

lemma after_pass_rank: "dj_rank (dt_pc (after_pass True b oc m)) \<le> 1"
  by (cases oc) (simp_all add: after_pass_def Let_def)

lemma dj_rank_le: "dj_rank pc \<le> 4"
  by (cases pc) simp_all

lemma dj_progress:
  assumes "do_shutdown ob" and "\<not> dj_ended t" and "\<not> dj_held_up ob t"
  shows "dj_rank (dt_pc (dj_step libs dj ob t)) < dj_rank (dt_pc t)"
proof (cases "dt_pc t")
  case (DjPlaying tracks)
  then show ?thesis
    using assms(1) le_less_trans [OF after_pass_rank]
    by (auto simp: dj_step_def dj_act_def split: prod.splits outcome.splits)
qed (use assms in \<open>auto simp: dj_step_def dj_act_def dj_ended_def dj_held_up_def notified_def
    split: option.splits prod.splits sum.splits bool.splits\<close>)

lemma dj_ended_stays: "dj_ended t \<Longrightarrow> dj_ended (dj_step libs dj ob t)"
  by (auto simp: dj_ended_def dj_step_def dj_act_def)

lemma dj_rank_ended: "dj_rank (dt_pc t) = 0 \<Longrightarrow> dj_ended t"
  by (cases "dt_pc t") (simp_all add: dj_ended_def)

interpretation dj_shutdown: shutdown_task "dj_step libs dj" dj_ended dj_held_up do_shutdown "\<lambda>t. dj_rank (dt_pc t)"
  for libs dj
  by unfold_locales (simp_all add: dj_progress dj_ended_stays dj_rank_ended)

text \<open>
  Claim C28. Shutdown ends an AutoDJ: once its shutdown token is cancelled, a player that is neither
  parked behind a live source nor stuck in a library call has returned or been stopped after at
  most four of its steps (a whole pass is one step), whatever other tasks do to the mount meanwhile.
\<close>

theorem autodj_shutdown_ends:
  assumes "\<forall>ob\<in>set obs. do_shutdown ob" and "4 \<le> length obs"
    and "never_held_up (dj_step libs dj) dj_ended dj_held_up obs t"
  shows "dj_ended (task_run (dj_step libs dj) obs t)"
  using dj_shutdown.ends_in_time [OF assms(1,3)] le_trans [OF dj_rank_le assms(2)] by blast

text \<open>
  Claim C39. A player parked after a pre-emption does not look at its shutdown token: however often
  it is polled, with the token cancelled or not, it stays parked for as long as nobody signals that
  the live source has gone. A reload that removes this AutoDJ waits for the live source to leave.
\<close>

theorem autodj_parked_ignores_shutdown:
  assumes "dt_pc t = DjResume" and "\<not> am_resume_permit (dt_mount t)"
    and "\<forall>ob\<in>set obs. \<forall>m. am_resume_permit (do_others ob m) = am_resume_permit m"
  shows "dt_pc (task_run (dj_step libs dj) obs t) = DjResume \<and> \<not> dj_ended (task_run (dj_step libs dj) obs t)"
proof -
  have "dt_pc (task_run (dj_step libs dj) obs t) = DjResume"
    using assms by (induction obs arbitrary: t) (simp_all add: dj_step_def dj_act_def notified_def)
  then show ?thesis
    by (simp add: dj_ended_def)
qed

section \<open>Concrete runs\<close>

definition dj_mount :: active_mount where
  "dj_mount = active_mount_new \<lparr>mi_path = ''/auto'', mi_codec = MP3, mi_source_password = [],
     mi_max_listeners = None, mi_metadata = default_metadata\<rparr> (bus_new 16 100)"

text \<open>One directory with a cover and two tracks; each track is two chunks of stereo audio.\<close>

definition two_chunks :: media_file where
  "two_chunks =
     \<lparr>mf_open_error = None, mf_probe_error = (\<lambda>_. None),
      mf_default_track = Some \<lparr>dt_id = 1, dt_decoder = None, dt_sample_rate = Some 44100, dt_channels = Some 2\<rparr>,
      mf_answers = [MaPacket 1 (Inr ([1, 2], 44100, 2)), MaPacket 7 (Inr ([9], 8000, 1)),
        MaPacket 1 (Inl (MeDecode ''bad frame'')), MaPacket 1 (Inr ([3, 4], 44100, 2))]\<rparr>"

definition dj_files :: media_files where
  "dj_files = \<lparr>ms_tags = (\<lambda>_. None), ms_file = (\<lambda>_. two_chunks)\<rparr>"

definition dj_quiet :: "bool \<Rightarrow> dj_obs" where
  "dj_quiet shutdown =
     \<lparr>do_shutdown = shutdown, do_folder = \<lparr>fv_is_dir = True, fv_entries = [Some ([''music'', ''a.mp3''], True)]\<rparr>,
      do_shuffle = rev, do_token = 3, do_now = 0, do_files = dj_files,
      do_env = (\<lambda>_. \<lparr>dk_cancelled = False, dk_pts = 0, dk_elapsed = 0, dk_sleep_cancelled = False\<rparr>),
      do_timer = False, do_others = id\<rparr>"

definition dj_example :: "transcode_format \<Rightarrow> nat \<Rightarrow> autodj_player" where
  "dj_example f kbps =
     \<lparr>dj_folder = ''/music'', dj_order = Sequential, dj_loop_playlist = True,
      dj_transcode = \<lparr>tc_format = f, tc_sample_rate = 44100, tc_bitrate_kbps = kbps\<rparr>, dj_comments = []\<rparr>"

lemma dj_files_chunks:
  "track_chunks dj_files p = [\<lparr>pc_samples = [1, 2], pc_sample_rate = 44100, pc_channels = 2\<rparr>,
     \<lparr>pc_samples = [3, 4], pc_sample_rate = 44100, pc_channels = 2\<rparr>]"
  by (simp add: track_chunks_def dj_files_def two_chunks_def decoder_open_def audio_buffer_to_pcm_def)

lemma quiet_undisturbed: "undisturbed (do_env (dj_quiet b))"
  by (simp add: undisturbed_def dj_quiet_def)

definition dj_playing :: dj_task where
  "dj_playing = \<lparr>dt_pc = DjPlaying [[''a.mp3'']], dt_mount = dj_mount\<lparr>am_source_connected := True, am_source_cancel := Some 3\<rparr>\<rparr>"

lemma vorbis_zero_bitrate:
  "encoder_build mute_libs (dj_transcode (dj_example FmtVorbis 0)) 2 (dj_comments (dj_example FmtVorbis 0)) =
     Inl (EncoderInit ''bitrate must be non-zero'')"
  by (simp add: dj_example_def encoder_build_def vorbis_new_def saturating_u32_def)

theorem autodj_panic_keeps_slot_witness:
  "dt_pc (task_run (dj_step mute_libs (dj_example FmtVorbis 0)) (dj_quiet True # replicate 4 (dj_quiet True)) dj_playing) = DjPanicked \<and>
   slot_fields (dt_mount (task_run (dj_step mute_libs (dj_example FmtVorbis 0)) (dj_quiet True # replicate 4 (dj_quiet True)) dj_playing)) =
     slot_fields (dt_mount dj_playing)"
proof -
  have "do_files (dj_quiet True) = dj_files" "\<forall>ob\<in>set (dj_quiet True # replicate 4 (dj_quiet True)). do_others ob = id"
    by (auto simp: dj_quiet_def)
  then show ?thesis
    using autodj_panic_keeps_slot [OF vorbis_zero_bitrate, of 44100 "[1, 2]" "[3, 4]" "dj_quiet True" "[[''a.mp3'']]" "[]" dj_playing
        "replicate 4 (dj_quiet True)"]
    by (simp add: dj_files_chunks quiet_undisturbed dj_playing_def)
qed

theorem autodj_shutdown_ends_witness:
  "dj_ended (task_run (dj_step mute_libs (dj_example FmtMp3 64)) (replicate 4 (dj_quiet True)) \<lparr>dt_pc = DjTop, dt_mount = dj_mount\<rparr>)"
  by (rule autodj_shutdown_ends)
    (simp_all add: dj_quiet_def numeral_eq_Suc dj_held_up_def dj_ended_def dj_step_def dj_act_def)

theorem autodj_parked_ignores_shutdown_witness:
  "\<not> dj_ended (task_run (dj_step mute_libs (dj_example FmtMp3 64)) (replicate 9 (dj_quiet True))
      \<lparr>dt_pc = DjResume, dt_mount = dj_mount\<lparr>am_source_connected := True\<rparr>\<rparr>)"
proof -
  have "\<forall>ob\<in>set (replicate 9 (dj_quiet True)). \<forall>m. am_resume_permit (do_others ob m) = am_resume_permit m"
    by (auto simp: dj_quiet_def)
  then show ?thesis
    by (intro conjunct2 [OF autodj_parked_ignores_shutdown]) (simp_all add: dj_mount_def active_mount_new_def)
qed

end
