(* ===== verification/Server_Main.thy ===== *)
theory Server_Main
  imports Config_Reload Source_Head
begin

text \<open>
  The start of the program and its outer loops: resolving the configuration and generating
  credentials (\<open>main.rs\<close>), accepting connections on the stream port (\<open>stream_listener.rs\<close>), the
  reload task (\<open>config_reload.rs\<close>) and the banner (\<open>banner.rs\<close>). The file system, the TOML reader,
  \<open>/dev/urandom\<close> and bcrypt are arguments.
\<close>

section \<open>main.rs: the configuration\<close>

fun config_arg_from :: "string list \<Rightarrow> string option" where
  "config_arg_from [] = None"
| "config_arg_from (a # as) =
     (if a = ''--config'' then (case as of [] \<Rightarrow> None | p # _ \<Rightarrow> Some p) else config_arg_from as)"

definition parse_config_arg :: "string list \<Rightarrow> string option" where
  "parse_config_arg args = config_arg_from args"

definition charset :: string where
  "charset = ''abcdefghijklmnopqrstuvwxyzABCDEFGHIJKLMNOPQRSTUVWXYZ0123456789''"

text \<open>The bytes read from \<open>/dev/urandom\<close>, or the error of opening or reading it.\<close>

definition random_password :: "string + byte list \<Rightarrow> string + string" where
  "random_password urandom =
     (case urandom of Inl e \<Rightarrow> Inl e | Inr buf \<Rightarrow> Inr (map (\<lambda>b. charset ! (unat b mod length charset)) buf))"

datatype config_source = SourceFile string | SourceDefaults

record generated_creds =
  gc_admin_user :: string
  gc_admin_pass :: string
  gc_source_pass :: string

datatype startup_error = StartConfig config_error | StartIo string | StartBcrypt string

record host_env =
  he_args :: "string list"
  he_exists :: "string \<Rightarrow> bool"
  he_read :: "string \<Rightarrow> string + string"
  he_random :: "nat \<Rightarrow> string + byte list"

definition set_first_password :: "string \<Rightarrow> config \<Rightarrow> config" where
  "set_first_password h cfg =
     cfg\<lparr>cf_auth := (cf_auth cfg)\<lparr>au_users :=
       (case au_users (cf_auth cfg) of [] \<Rightarrow> [] | u # us \<Rightarrow> u\<lparr>us_password_bcrypt := h\<rparr> # us)\<rparr>\<rparr>"

text \<open>\<open>he_random i\<close> is the answer to the i-th request for random bytes.\<close>

definition load_or_default_config ::
  "(string \<Rightarrow> string + config) \<Rightarrow> (string \<Rightarrow> string + string) \<Rightarrow> string \<Rightarrow> host_env
     \<Rightarrow> startup_error + config \<times> config_source \<times> generated_creds option" where
  "load_or_default_config toml_from_str bcrypt_hash default_text env =
     (let load_file = (\<lambda>path. case config_load (he_read env) toml_from_str path of
            Inl e \<Rightarrow> Inl (StartConfig e) | Inr cfg \<Rightarrow> Inr (cfg, SourceFile path, None)) in
      case parse_config_arg (he_args env) of
        Some path \<Rightarrow> load_file path
      | None \<Rightarrow>
          if he_exists env ''config.toml'' then load_file ''config.toml''
          else (case config_parse_str toml_from_str default_text of
                  Inl e \<Rightarrow> Inl (StartConfig e)
                | Inr cfg \<Rightarrow>
                    (case random_password (he_random env 0) of
                       Inl e \<Rightarrow> Inl (StartIo e)
                     | Inr admin_pass \<Rightarrow>
                         (case random_password (he_random env 1) of
                            Inl e \<Rightarrow> Inl (StartIo e)
                          | Inr source_pass \<Rightarrow>
                              (let cfg1 = cfg\<lparr>cf_auth := (cf_auth cfg)\<lparr>au_source_password := Some source_pass\<rparr>\<rparr>;
                                   admin_user = (case au_users (cf_auth cfg1) of [] \<Rightarrow> ''admin'' | u # _ \<Rightarrow> us_username u)
                               in case bcrypt_hash admin_pass of
                                    Inl e \<Rightarrow> Inl (StartBcrypt e)
                                  | Inr admin_bcrypt \<Rightarrow>
                                      Inr (set_first_password admin_bcrypt cfg1, SourceDefaults,
                                        Some \<lparr>gc_admin_user = admin_user, gc_admin_pass = admin_pass,
                                              gc_source_pass = source_pass\<rparr>))))))"

section \<open>stream_listener.rs: accepting\<close>

text \<open>
  What the listening socket yields: an error, or a connection whose first bytes come after some
  milliseconds (or never, or with an error). A peek returns what the first segment brought.
\<close>

datatype peer_first = FirstBytes nat "byte list" | FirstError nat | Silent

datatype 's accept_event = AcceptError | AcceptSocket 's peer_first

definition classify_timeout :: nat where
  "classify_timeout = 10000"

definition peek_first :: "peer_first \<Rightarrow> nat \<times> byte list option" where
  "peek_first f =
     (case f of
        FirstBytes ms bs \<Rightarrow> if ms < classify_timeout then (ms, Some (take 8 bs)) else (classify_timeout, None)
      | FirstError ms \<Rightarrow> if ms < classify_timeout then (ms, None) else (classify_timeout, None)
      | Silent \<Rightarrow> (classify_timeout, None))"

text \<open>
  One call of \<open>accept\<close>: the sources handed to tasks of their own, the connection returned (none
  while it waits), the events not consumed, and the clock in milliseconds.
\<close>

fun accept :: "'s accept_event list \<Rightarrow> nat \<Rightarrow> ('s \<times> nat) list \<times> ('s \<times> nat) option \<times> 's accept_event list \<times> nat" where
  "accept [] now = ([], None, [], now)"
| "accept (AcceptError # evs) now = accept evs (now + 50)"
| "accept (AcceptSocket s f # evs) now =
     (case peek_first f of
        (ms, peeked) \<Rightarrow>
          (case classify peeked of
             ClassSource \<Rightarrow> (case accept evs (now + ms) of (spawned, r) \<Rightarrow> ((s, now + ms) # spawned, r))
           | ClassOther \<Rightarrow> ([], Some (s, now + ms), evs, now + ms)))"

lemma accept_shorter: "accept evs now = (sp, Some r, rest, t) \<Longrightarrow> length rest < length evs"
  by (induction evs now arbitrary: sp rule: accept.induct)
    (auto split: prod.splits classification.splits)

text \<open>
  The server calls \<open>accept\<close> again as soon as it has returned a connection. The sources and the
  other connections, each with the time it was handed on.
\<close>

function serve_stream_port :: "'s accept_event list \<Rightarrow> nat \<Rightarrow> ('s \<times> nat) list \<times> ('s \<times> nat) list" where
  "serve_stream_port evs now =
     (case accept evs now of
        (spawned, None, _) \<Rightarrow> (spawned, [])
      | (spawned, Some c, rest, now') \<Rightarrow>
          (case serve_stream_port rest now' of (ss, cs) \<Rightarrow> (spawned @ ss, c # cs)))"
  by pat_completeness auto
termination
  by (relation "measure (\<lambda>(evs, now). length evs)") (auto dest: accept_shorter [OF sym])

declare serve_stream_port.simps [simp del]

section \<open>config_reload.rs: the reload task\<close>

text \<open>
  What the \<open>select!\<close> takes: a hang-up signal, with the file system at that time, or the shutdown.
  When both are ready it may take either.
\<close>

datatype watch_event = Hangup "string \<Rightarrow> string + string" | WatchShutdown

fun watch_loop :: "(string \<Rightarrow> string + config) \<Rightarrow> string \<Rightarrow> watch_event list \<Rightarrow> server \<Rightarrow> server" where
  "watch_loop toml_from_str path [] sv = sv"
| "watch_loop toml_from_str path (Hangup rd # evs) sv =
     watch_loop toml_from_str path evs (do_reload_from_disk rd toml_from_str path sv)"
| "watch_loop toml_from_str path (WatchShutdown # evs) sv = sv"

definition watch_sighup ::
  "bool \<Rightarrow> (string \<Rightarrow> string + config) \<Rightarrow> string \<Rightarrow> watch_event list \<Rightarrow> server \<Rightarrow> server" where
  "watch_sighup registered toml_from_str path evs sv =
     (if registered then watch_loop toml_from_str path evs sv else sv)"

section \<open>banner.rs\<close>

definition admin_url :: "(socket_addr \<Rightarrow> bool) \<Rightarrow> (socket_addr \<Rightarrow> nat) \<Rightarrow> socket_addr \<Rightarrow> string" where
  "admin_url is_unspecified port_of bind =
     (if is_unspecified bind then ''http://localhost:'' @ show_nat (port_of bind) @ ''/''
      else ''http://'' @ bind @ ''/'')"

definition osc8 :: string where
  "osc8 = CHR 0x1B # '']8;;''"

definition hyperlink :: "string \<Rightarrow> string \<Rightarrow> string" where
  "hyperlink url label = osc8 @ url @ [CHR 0x1B, CHR 0x5C] @ label @ osc8 @ [CHR 0x1B, CHR 0x5C]"

definition center_pad :: "nat \<Rightarrow> nat \<Rightarrow> nat" where
  "center_pad visible_width total_width = (total_width - visible_width) div 2"

section \<open>Generated credentials\<close>

text \<open>
  Starting without any configuration file gives a server that can be used with exactly
  the credentials announced: the printed administrator logs in with the printed password, every
  path accepts the printed source password and no other (the built-in one of the template
  included), provided the template has no mounts and a single user, and that bcrypt accepts a
  password against its own hash.
\<close>

theorem defaults_accept_generated:
  assumes "load_or_default_config toml_from_str bcrypt_hash text env = Inr (cfg, SourceDefaults, Some creds)"
    and "toml_from_str text = Inr cfg0" and "length (au_users (cf_auth cfg0)) = 1" and "cf_mounts cfg0 = []"
    and "\<forall>p h. bcrypt_hash p = Inr h \<longrightarrow> bcrypt_verify p h = Inr True"
  shows "verify_admin bcrypt_verify (auth_new cfg) (gc_admin_user creds) (gc_admin_pass creds) = Inr True \<and>
    verify_source (auth_new cfg) path pw = Inr (pw = gc_source_pass creds)"
proof -
  obtain u where u: "au_users (cf_auth cfg0) = [u]"
    using assms(3) by (auto simp: length_Suc_conv)
  obtain h where h: "bcrypt_hash (gc_admin_pass creds) = Inr h" "gc_admin_user creds = us_username u"
      "cfg = set_first_password h (cfg0\<lparr>cf_auth := (cf_auth cfg0)\<lparr>au_source_password := Some (gc_source_pass creds)\<rparr>\<rparr>)"
    using assms(1,2) u
    by (auto simp: load_or_default_config_def config_parse_str_def Let_def split: option.splits if_splits sum.splits)
  then show ?thesis
    using assms(4,5) u
    by (auto simp: verify_admin_def verify_source_def verify_default_source_def auth_new_def user_map_def mount_map_def
        set_first_password_def hash_map_def)
qed

text \<open>The built-in template, \<open>default_config.toml\<close>, as it is read.\<close>

definition default_config :: config where
  "default_config =
     \<lparr>cf_server = \<lparr>sv_stream_bind = ''0.0.0.0:8000'', sv_admin_bind = ''127.0.0.1:8001'', sv_hostname = ''localhost''\<rparr>,
      cf_logging = \<lparr>lg_level = ''info'', lg_format = LogPretty\<rparr>,
      cf_auth = \<lparr>au_users = [\<lparr>us_username = ''admin'',
          us_password_bcrypt = ''$2y$12$tWRporih5P9huFKMLo7ozO.9WvKgTRlQBFRlF8Y4AsGglyRY7qvr.'', us_role = RoleAdmin\<rparr>],
        au_source_password = Some ''letmesource''\<rparr>,
      cf_limits = \<lparr>lm_max_listeners_global = 500, lm_ring_size = 64, lm_slow_listener_grace_s = 2,
        lm_source_max_kbps = None, lm_burst_size = 65536\<rparr>,
      cf_mounts = [], cf_autodjs = [], cf_relays = [], cf_tls = None,
      cf_transcode = Some \<lparr>tc_format = FmtMp3, tc_sample_rate = 44100, tc_bitrate_kbps = 128\<rparr>\<rparr>"

definition bare_host :: host_env where
  "bare_host =
     \<lparr>he_args = [''rustyice''], he_exists = (\<lambda>_. False), he_read = (\<lambda>_. Inl ''no such file''),
      he_random = (\<lambda>i. Inr (replicate 20 (of_nat (i + 60))))\<rparr>"

definition bare_config :: config where
  "bare_config =
     set_first_password (rev (replicate 20 (CHR ''8'')))
       (default_config\<lparr>cf_auth := (cf_auth default_config)\<lparr>au_source_password := Some (replicate 20 (CHR ''9''))\<rparr>\<rparr>)"

definition bare_creds :: generated_creds where
  "bare_creds =
     \<lparr>gc_admin_user = ''admin'', gc_admin_pass = replicate 20 (CHR ''8''), gc_source_pass = replicate 20 (CHR ''9'')\<rparr>"

lemma bare_host_starts:
  "load_or_default_config (\<lambda>_. Inr default_config) (\<lambda>p. Inr (rev p)) text bare_host =
     Inr (bare_config, SourceDefaults, Some bare_creds)"
  by (simp add: load_or_default_config_def parse_config_arg_def config_parse_str_def random_password_def charset_def bare_host_def
      default_config_def Let_def bare_config_def bare_creds_def)

theorem defaults_accept_generated_witness:
  "verify_admin (\<lambda>p h. Inr (h = rev p)) (auth_new bare_config) ''admin'' (replicate 20 (CHR ''8'')) = Inr True \<and>
   verify_source (auth_new bare_config) ''/live'' ''letmesource'' = Inr False"
proof -
  have "''letmesource'' \<noteq> replicate 20 (CHR ''9'')"
    by (simp add: numeral_eq_Suc)
  then show ?thesis
    using defaults_accept_generated [OF bare_host_starts, of default_config "\<lambda>p h. Inr (h = rev p)" "''/live''" "''letmesource''"]
    by (simp add: default_config_def bare_creds_def)
qed

section \<open>The stream port\<close>

lemma serve_one:
  "accept evs now = (sp, Some c, rest, t) \<Longrightarrow>
     serve_stream_port evs now = (case serve_stream_port rest t of (ss, cs) \<Rightarrow> (sp @ ss, c # cs))"
  by (subst serve_stream_port.simps) simp

lemma serve_silent:
  "serve_stream_port (map (\<lambda>s. AcceptSocket s Silent) xs @ evs) now =
     (case serve_stream_port evs (now + length xs * classify_timeout) of
        (ss, cs) \<Rightarrow> (ss, map (\<lambda>i. (xs ! i, now + Suc i * classify_timeout)) [0..<length xs] @ cs))"
proof (induction xs arbitrary: now)
  case Nil
  then show ?case
    by (simp split: prod.split)
next
  case (Cons x xs)
  have "accept (AcceptSocket x Silent # map (\<lambda>s. AcceptSocket s Silent) xs @ evs) now =
      ([], Some (x, now + classify_timeout), map (\<lambda>s. AcceptSocket s Silent) xs @ evs, now + classify_timeout)"
    by (simp add: peek_first_def classify_def)
  then show ?case
    using Cons.IH [of "now + classify_timeout"]
    by (auto simp: serve_one upt_conv_Cons map_Suc_upt [symmetric] comp_def ac_simps simp del: map_Suc_upt upt_Suc split: prod.splits)
qed

lemma route_first:
  "serve_stream_port [AcceptSocket c (FirstBytes 0 bs)] t =
     (case classify (Some (take 8 bs)) of ClassSource \<Rightarrow> ([(c, t)], []) | ClassOther \<Rightarrow> ([], [(c, t)]))"
  by (subst serve_stream_port.simps, subst accept.simps)
    (simp add: peek_first_def classify_timeout_def serve_stream_port.simps [of "[]"] split: classification.split)

text \<open>
  Connections are classified one after the other: a client that connects and sends nothing
  holds up everybody behind it for ten seconds, so behind \<open>n\<close> of them a listener or a source that
  has sent its request at once is served only after \<open>10 n\<close> seconds.
\<close>

theorem silent_peers_stall_accept:
  "serve_stream_port (map (\<lambda>s. AcceptSocket s Silent) xs @ [AcceptSocket c (FirstBytes 0 bs)]) 0 =
     (let served = map (\<lambda>i. (xs ! i, Suc i * 10000)) [0..<length xs] in
      case classify (Some (take 8 bs)) of
        ClassSource \<Rightarrow> ([(c, length xs * 10000)], served)
      | ClassOther \<Rightarrow> ([], served @ [(c, length xs * 10000)]))"
  by (simp add: serve_silent route_first classify_timeout_def Let_def split: classification.split)

text \<open>The decision is taken on the first segment alone: a source whose method is cut is taken for a listener.\<close>

lemma first_segment_decides:
  "serve_stream_port [AcceptSocket c (FirstBytes 0 (bytes_of ''SOURCE /live HTTP/1.0''))] 0 = ([(c, 0)], [])"
  "serve_stream_port [AcceptSocket c (FirstBytes 0 (bytes_of ''SOURCE''))] 0 = ([], [(c, 0)])"
  using route_first [of c] by (simp_all add: classify_def bytes_of_def)

section \<open>The reload task\<close>

lemma apply_config_config: "ap_config (rs_app (snd (apply_config c sv))) = c"
  by (simp add: apply_config_def auth_reload_def on_app_def Let_def)

text \<open>After any number of signals the running configuration is the last one that loaded.\<close>

lemma sighup_tracks_disk:
  "ap_config (rs_app (watch_sighup True toml_from_str path (map Hangup rds) sv)) =
     foldl (\<lambda>c rd. case config_load rd toml_from_str path of Inl _ \<Rightarrow> c | Inr c' \<Rightarrow> c') (ap_config (rs_app sv)) rds"
proof -
  have "ap_config (rs_app (do_reload_from_disk rd toml_from_str path s)) =
      (case config_load rd toml_from_str path of Inl _ \<Rightarrow> ap_config (rs_app s) | Inr c' \<Rightarrow> c')" for rd s
    by (simp add: do_reload_from_disk_def apply_config_config split: sum.split)
  then show ?thesis
    by (induction rds arbitrary: sv) (simp_all add: watch_sighup_def)
qed

end
