(* ===== verification/Load_Test.thy ===== *)
theory Load_Test
  imports Core_Types
begin

text \<open>
  The load-test tool (\<open>crates/rustyice-loadtest/src/main.rs\<close>): the target, the pace at which the
  listeners are started, the life of one listener as the operations it performs on the shared
  counters, and the figures the report computes from them.
\<close>

section \<open>The target\<close>

datatype url_error = NotHttp | BadPort

definition parse_url :: "string \<Rightarrow> url_error + (string \<times> nat \<times> string)" where
  "parse_url s =
     (case strip_prefix ''http://'' s of
        None \<Rightarrow> Inl NotHttp
      | Some rest \<Rightarrow>
          (let (host_port, path) =
                 (case split_once (CHR ''/'') rest of Some (a, b) \<Rightarrow> (a, CHR ''/'' # b) | None \<Rightarrow> (rest, ''/''))
           in case split_last (CHR '':'') host_port of
                Some (host, port) \<Rightarrow>
                  (case parse_uint 16 port of None \<Rightarrow> Inl BadPort | Some p \<Rightarrow> Inr (host, p, path))
              | None \<Rightarrow> Inr (host_port, 80, path)))"

text \<open>
  Milliseconds between two dials. The product is a \<open>u64\<close>; a release build wraps it.
\<close>

definition stagger_ms :: "64 word \<Rightarrow> 64 word \<Rightarrow> 64 word" where
  "stagger_ms listeners ramp_secs =
     (if 0 < listeners \<and> 0 < ramp_secs then (ramp_secs * 1000) div listeners else 0)"

definition listener_request :: "string \<Rightarrow> string \<Rightarrow> string" where
  "listener_request path host =
     (let nl = [CHR 0x0D, CHR 0x0A] in
      ''GET '' @ path @ '' HTTP/1.1'' @ nl @ ''Host: '' @ host @ nl @ ''User-Agent: rustyice-loadtest'' @ nl @
      ''Icy-MetaData: 0'' @ nl @ ''Accept: */*'' @ nl @ nl)"

section \<open>The counters\<close>

record load_stats =
  lt_connected :: "64 word"
  lt_connect_errors :: "64 word"
  lt_drops_eof :: "64 word"
  lt_drops_err :: "64 word"
  lt_bytes_read :: "64 word"

definition load_stats_default :: load_stats where
  "load_stats_default =
     \<lparr>lt_connected = 0, lt_connect_errors = 0, lt_drops_eof = 0, lt_drops_err = 0, lt_bytes_read = 0\<rparr>"

text \<open>One atomic operation; additions and subtractions wrap.\<close>

datatype load_op = OpConnected | OpGone | OpConnectError | OpDropEof | OpDropErr | OpBytes nat

fun load_apply :: "load_stats \<Rightarrow> load_op \<Rightarrow> load_stats" where
  "load_apply s OpConnected = s\<lparr>lt_connected := lt_connected s + 1\<rparr>"
| "load_apply s OpGone = s\<lparr>lt_connected := lt_connected s - 1\<rparr>"
| "load_apply s OpConnectError = s\<lparr>lt_connect_errors := lt_connect_errors s + 1\<rparr>"
| "load_apply s OpDropEof = s\<lparr>lt_drops_eof := lt_drops_eof s + 1\<rparr>"
| "load_apply s OpDropErr = s\<lparr>lt_drops_err := lt_drops_err s + 1\<rparr>"
| "load_apply s (OpBytes n) = s\<lparr>lt_bytes_read := lt_bytes_read s + of_nat n\<rparr>"

section \<open>One listener\<close>

fun find_double_crlf :: "byte list \<Rightarrow> nat option" where
  "find_double_crlf (a # b # c # d # xs) =
     (if a = 13 \<and> b = 10 \<and> c = 13 \<and> d = 10 then Some 0
      else map_option Suc (find_double_crlf (b # c # d # xs)))"
| "find_double_crlf _ = None"

text \<open>What a read of the socket gives; no bytes are the end of the stream.\<close>

datatype tcp_read = TcpOk "byte list" | TcpFail

fun body_ops :: "tcp_read list \<Rightarrow> load_op list" where
  "body_ops [] = []"
| "body_ops (TcpFail # rs) = [OpGone, OpDropErr]"
| "body_ops (TcpOk bs # rs) = (if bs = [] then [OpGone, OpDropEof] else OpBytes (length bs) # body_ops rs)"

fun head_ops :: "byte list \<Rightarrow> tcp_read list \<Rightarrow> load_op list" where
  "head_ops hdr [] = []"
| "head_ops hdr (TcpFail # rs) = [OpDropErr]"
| "head_ops hdr (TcpOk bs # rs) =
     (if bs = [] then [OpDropEof]
      else (let hdr' = hdr @ bs in
            case find_double_crlf hdr' of
              Some pos \<Rightarrow> [OpBytes (length hdr' - (pos + 4)), OpConnected] @ body_ops rs
            | None \<Rightarrow> if 16 * 1024 < length hdr' then [OpDropErr] else head_ops hdr' rs))"

text \<open>
  The operations of \<open>run_listener\<close>: does the connection open, is the request written, what do the
  reads give. When the reads run out the listener waits for the next.
\<close>

definition run_listener :: "bool \<Rightarrow> bool \<Rightarrow> tcp_read list \<Rightarrow> load_op list" where
  "run_listener connects writes rs =
     (if \<not> connects then [OpConnectError] else if \<not> writes then [OpDropErr] else head_ops [] rs)"

section \<open>The report\<close>

text \<open>One line per second: the bytes since the line before, from the readings of the counter.\<close>

fun report_deltas :: "64 word \<Rightarrow> 64 word list \<Rightarrow> 64 word list" where
  "report_deltas prev [] = []"
| "report_deltas prev (now # rs) = (if prev \<le> now then now - prev else 0) # report_deltas now rs"

section \<open>Bytes are counted exactly\<close>

definition counted_bytes :: "load_op list \<Rightarrow> nat" where
  "counted_bytes ops = (\<Sum>op\<leftarrow>ops. case op of OpBytes n \<Rightarrow> n | _ \<Rightarrow> 0)"

lemma counted_bytes_simps [simp]:
  "counted_bytes [] = 0" "counted_bytes (op # ops) = (case op of OpBytes n \<Rightarrow> n | _ \<Rightarrow> 0) + counted_bytes ops"
  by (simp_all add: counted_bytes_def)

lemma find_double_crlf_le: "find_double_crlf xs = Some p \<Longrightarrow> p + 4 \<le> length xs"
  by (induction xs arbitrary: p rule: find_double_crlf.induct) (auto split: if_splits)

lemma find_double_crlf_append: "find_double_crlf xs = Some p \<Longrightarrow> find_double_crlf (xs @ ys) = Some p"
  by (induction xs arbitrary: p rule: find_double_crlf.induct) (auto split: if_splits)

lemma find_double_crlf_take: "find_double_crlf xs = Some p \<Longrightarrow> find_double_crlf (take (p + 4) xs) = Some p"
  by (induction xs arbitrary: p rule: find_double_crlf.induct) (auto split: if_splits simp: numeral_eq_Suc)

lemma body_ops_bytes: "\<forall>c\<in>set cs. c \<noteq> [] \<Longrightarrow> counted_bytes (body_ops (map TcpOk cs)) = length (concat cs)"
  by (induction cs) auto

lemma head_ops_bytes:
  assumes "\<forall>c\<in>set cs. c \<noteq> []" and "find_double_crlf (hdr @ concat cs) = Some p" and "find_double_crlf hdr = None"
    and "p + 4 \<le> 16 * 1024"
  shows "counted_bytes (head_ops hdr (map TcpOk cs)) = length (hdr @ concat cs) - (p + 4) \<and>
    OpConnected \<in> set (head_ops hdr (map TcpOk cs))"
  using assms
proof (induction cs arbitrary: hdr)
  case (Cons c cs)
  show ?case
  proof (cases "find_double_crlf (hdr @ c)")
    case None
    have "\<not> 16 * 1024 < length (hdr @ c)"
    proof
      assume long: "16 * 1024 < length (hdr @ c)"
      have "find_double_crlf (take (p + 4) (hdr @ concat (c # cs))) = Some p"
        using Cons.prems(2) by (rule find_double_crlf_take)
      moreover have "take (p + 4) (hdr @ concat (c # cs)) = take (p + 4) (hdr @ c)"
        using long Cons.prems(4) by simp
      ultimately have "find_double_crlf (take (p + 4) (hdr @ c) @ drop (p + 4) (hdr @ c)) = Some p"
        by (metis find_double_crlf_append)
      with None show False by (simp del: take_append drop_append)
    qed
    moreover have "c \<noteq> []" using Cons.prems(1) by simp
    ultimately show ?thesis
      using None Cons.IH [of "hdr @ c"] Cons.prems by simp
  next
    case (Some q)
    then have "q = p" using find_double_crlf_append [OF Some, of "concat cs"] Cons.prems(2) by simp
    with Some Cons.prems find_double_crlf_le [OF Some] show ?thesis
      by (simp add: body_ops_bytes)
  qed
qed simp

text \<open>
  However the answer of the server is cut into reads, a listener that finds the end of the head
  within 16 KiB counts exactly the bytes behind it, and counts as connected.
\<close>

theorem listener_counts_body:
  assumes "\<forall>c\<in>set cs. c \<noteq> []" and "find_double_crlf (concat cs) = Some p" and "p + 4 \<le> 16 * 1024"
  shows "counted_bytes (run_listener True True (map TcpOk cs)) = length (concat cs) - (p + 4) \<and>
    OpConnected \<in> set (run_listener True True (map TcpOk cs))"
  using head_ops_bytes [of cs "[]" p] assms by (simp add: run_listener_def)

section \<open>The gauge of open connections\<close>

definition balance :: "load_op list \<Rightarrow> int" where
  "balance ops = (\<Sum>op\<leftarrow>ops. case op of OpConnected \<Rightarrow> 1 | OpGone \<Rightarrow> - 1 | _ \<Rightarrow> 0)"

lemma balance_simps [simp]:
  "balance [] = 0" "balance (op # ops) = (case op of OpConnected \<Rightarrow> 1 | OpGone \<Rightarrow> - 1 | _ \<Rightarrow> 0) + balance ops"
  "balance (xs @ ys) = balance xs + balance ys"
  by (simp_all add: balance_def)

lemma load_apply_connected:
  "lt_connected (foldl load_apply s ops) = lt_connected s + of_int (balance ops)"
proof (induction ops arbitrary: s)
  case (Cons op ops)
  then show ?case by (cases op) simp_all
qed simp

lemma body_ops_balance: "prefix ops (body_ops rs) \<Longrightarrow> balance ops = 0 \<or> balance ops = - 1"
proof (induction rs arbitrary: ops rule: body_ops.induct)
  case (3 bs rs)
  then show ?case by (cases ops) (auto split: if_splits simp: prefix_Cons)
qed (auto simp: prefix_Cons)

lemma head_ops_balance: "prefix ops (head_ops hdr rs) \<Longrightarrow> balance ops = 0 \<or> balance ops = 1"
proof (induction hdr rs arbitrary: ops rule: head_ops.induct)
  case (3 hdr bs rs)
  then show ?case
    by (auto simp: Let_def prefix_Cons split: if_splits option.splits dest!: body_ops_balance)
qed (auto simp: prefix_Cons)

lemma run_listener_balance: "prefix ops (run_listener c w rs) \<Longrightarrow> balance ops = 0 \<or> balance ops = 1"
  by (auto simp: run_listener_def prefix_Cons split: if_splits dest: head_ops_balance)

text \<open>The operations of one listener in an interleaving of several.\<close>

definition ops_of :: "nat \<Rightarrow> (nat \<times> load_op) list \<Rightarrow> load_op list" where
  "ops_of i tr = map snd (filter (\<lambda>(j, _). j = i) tr)"

lemma balance_interleaved:
  "\<forall>(i, op)\<in>set tr. i < n \<Longrightarrow> balance (map snd tr) = (\<Sum>i<n. balance (ops_of i tr))"
proof (induction tr)
  case Nil
  then show ?case by (simp add: ops_of_def)
next
  case (Cons x tr)
  obtain j op where x: "x = (j, op)" by (cases x)
  define v where "v = balance [op]"
  have "balance (ops_of i (x # tr)) = (if i = j then v else 0) + balance (ops_of i tr)" for i
    by (auto simp: ops_of_def x v_def)
  moreover have "(\<Sum>i<n. if i = j then v else 0) = v" using Cons.prems x by simp
  ultimately show ?case using Cons x by (simp add: sum.distrib v_def)
qed

text \<open>
  However the operations of up to \<open>n\<close> listeners interleave, the gauge shows exactly the listeners
  that are in their body phase: it never wraps below zero.
\<close>

theorem connected_gauge_exact:
  assumes "\<forall>(i, op)\<in>set tr. i < n" and "\<forall>i<n. \<exists>c w rs. prefix (ops_of i tr) (run_listener c w rs)"
    and "n < 2 ^ 64"
  shows "unat (lt_connected (foldl load_apply load_stats_default (map snd tr))) =
    card {i. i < n \<and> balance (ops_of i tr) = 1}"
proof -
  have b: "balance (ops_of i tr) = (if balance (ops_of i tr) = 1 then 1 else 0)" if "i < n" for i
    using assms(2) that run_listener_balance by fastforce
  have "balance (map snd tr) = (\<Sum>i<n. balance (ops_of i tr))" by (rule balance_interleaved [OF assms(1)])
  also have "\<dots> = (\<Sum>i<n. if balance (ops_of i tr) = 1 then 1 else 0)" using b by (intro sum.cong) auto
  also have "\<dots> = (\<Sum>i\<in>{i\<in>{..<n}. balance (ops_of i tr) = 1}. 1)"
    by (rule sum.inter_filter [symmetric]) simp
  also have "\<dots> = int (card {i. i < n \<and> balance (ops_of i tr) = 1})" by simp
  finally have s: "balance (map snd tr) = int (card {i. i < n \<and> balance (ops_of i tr) = 1})" .
  have "card {i. i < n \<and> balance (ops_of i tr) = 1} \<le> card {i. i < n}" by (rule card_mono) auto
  then have "card {i. i < n \<and> balance (ops_of i tr) = 1} < 2 ^ 64" using assms(3) by simp
  then show ?thesis
    by (simp add: load_apply_connected s load_stats_default_def unat_of_nat take_bit_nat_eq_self)
qed

section \<open>The target and the report\<close>

lemma digits_show_nat: "digits_val b acc (show_nat n @ ys) = digits_val b (acc * 10 ^ length (show_nat n) + n) ys"
proof (induction n arbitrary: acc ys rule: show_nat.induct)
  case (1 n)
  have d: "digit_val (char_of (48 + k)) = Some k" if "k < 10" for k :: nat
    using that by (simp add: digit_val_def Let_def of_char_of)
  show ?case
  proof (cases "n < 10")
    case True
    then show ?thesis using d [of n] by (simp add: show_nat.simps [of n] mult.commute)
  next
    case False
    have "10 * (acc * 10 ^ k + n div 10) + n mod 10 = acc * (10 * 10 ^ k) + n" for k
      using div_mult_mod_eq [of n 10] by (simp add: algebra_simps)
    note this [of "length (show_nat (n div 10))"]
    then show ?thesis
      using False d [of "n mod 10"] "1.IH" [of acc "char_of (48 + n mod 10) # ys"]
      by (simp add: show_nat.simps [of n] mult.left_commute add.commute)
  qed
qed

lemma show_nat_chars: "c \<in> set (show_nat n) \<Longrightarrow> 48 \<le> (of_char c :: nat) \<and> of_char c < (58 :: nat)"
proof (induction n rule: show_nat.induct)
  case (1 n)
  have d: "48 \<le> (of_char (char_of (48 + k)) :: nat) \<and> of_char (char_of (48 + k)) < (58 :: nat)" if "k < 10" for k :: nat
    using that by simp
  show ?case
  proof (cases "n < 10")
    case True
    with "1.prems" d [of n] show ?thesis by (simp add: show_nat.simps [of n] del: of_char_of)
  next
    case False
    with "1.prems" have "c \<in> set (show_nat (n div 10)) \<or> c = char_of (48 + n mod 10)"
      by (auto simp: show_nat.simps [of n])
    then show ?thesis using "1.IH" False d [of "n mod 10"] by auto
  qed
qed

lemma show_nat_no_sign: "CHR ''+'' \<notin> set (show_nat n)" "CHR ''/'' \<notin> set (show_nat n)" "CHR '':'' \<notin> set (show_nat n)"
  using show_nat_chars [of "CHR ''+''" n] show_nat_chars [of "CHR ''/''" n] show_nat_chars [of "CHR '':''" n]
  by auto

lemma parse_show_nat:
  assumes "n < 2 ^ w"
  shows "parse_uint w (show_nat n) = Some n"
proof -
  have "show_nat n \<noteq> []" by (simp add: show_nat.simps [of n])
  moreover have "\<not> starts_with (show_nat n) ''+''"
    using show_nat_no_sign(1) [of n] by (cases "show_nat n") (auto simp: starts_with_def)
  ultimately show ?thesis
    using assms digits_show_nat [of "2 ^ w" 0 n "[]"] by (simp add: parse_uint_def Let_def)
qed

text \<open>A URL is taken apart into the parts it was put together from.\<close>

theorem parse_url_parts:
  assumes "CHR ''/'' \<notin> set host" and "port < 2 ^ 16"
  shows "parse_url (''http://'' @ host @ '':'' @ show_nat port @ ''/'' @ path) = Inr (host, port, CHR ''/'' # path)"
proof -
  have "split_once (CHR ''/'') ((host @ '':'' @ show_nat port) @ CHR ''/'' # path) = Some (host @ '':'' @ show_nat port, path)"
    using assms(1) show_nat_no_sign(2) by (intro split_once_append) auto
  moreover have "split_last (CHR '':'') (host @ CHR '':'' # show_nat port) = Some (host, show_nat port)"
    using split_once_append [of "CHR '':''" "rev (show_nat port)" "rev host"] show_nat_no_sign(3)
    by (simp add: split_last_def)
  ultimately show ?thesis
    using assms(2) unfolding parse_url_def strip_prefix_append by (simp add: parse_show_nat)
qed

text \<open>A literal IPv6 address without a port is refused: its last group is taken for the port.\<close>

lemma parse_url_ipv6: "parse_url ''http://[::1]/stream'' = Inl BadPort"
  by (simp add: parse_url_def strip_prefix_def starts_with_def split_last_def parse_uint_def digit_val_def)

text \<open>While the counter grows the lines of the report add up to it.\<close>

lemma report_telescopes:
  "sorted (prev # rs) \<Longrightarrow> sum_list (report_deltas prev rs) = last (prev # rs) - prev"
  by (induction rs arbitrary: prev) auto

end
