(* ===== verification/Spec2Isabelle.thy ===== *)
theory Spec2Isabelle
  imports Mp3_Codec Vorbis_Codec Live_Stream Admin_Views Reload_Facts System_Steps Save_Facts Relay_Facts Autodj_Facts Server_Main Load_Test
begin

text \<open>
  A verification development for RustyIce, an Icecast-compatible streaming server in Rust.

  \<^bold>\<open>The program.\<close> A source client sends an audio stream to a mount point over HTTP; the server
  parses the request (\<open>source_headers.rs\<close>), checks the credentials (\<open>toml_bcrypt.rs\<close>), claims the
  mount (\<open>source_protocol.rs\<close>), reads the body (\<open>chunked.rs\<close> for the chunked transfer encoding),
  optionally transcodes it (crate \<open>rustyice-transcode\<close>), and publishes the stream as packets on the
  broadcast bus of the mount (\<open>icecast.rs\<close>, \<open>bus.rs\<close>). Listeners subscribe to the bus and get the
  packets as an HTTP body, with ICY metadata interleaved on request (\<open>stream_router.rs\<close>,
  \<open>http_passthrough.rs\<close>). A mount may instead be fed by a relay of another server (\<open>relay/\<close>) or by an
  AutoDJ that plays files (crate \<open>rustyice-autodj\<close>); the three kinds of owner share the slot of the
  mount through atomics, a cancellation token and two wake-ups. An admin API (crate \<open>rustyice-admin\<close>)
  shows and changes all this, writes the configuration file, and triggers the hot reload
  (\<open>config_reload.rs\<close>).

  \<^bold>\<open>Shared ground.\<close> \<^theory_text>\<open>Prelude\<close>: bytes, the parts of the Rust standard library the code calls (trim,
  split, case folding, number parsing, slices), generic list lemmas. \<^theory_text>\<open>Core_Types\<close>: \<open>types.rs\<close>,
  \<open>error.rs\<close> and the configuration tree of \<open>config.rs\<close>. \<^theory_text>\<open>Http_Types\<close>: header maps, statuses,
  replies. \<^theory_text>\<open>Async_Io\<close>: a socket as a sequence of polls, the combinators \<open>chain\<close> and the byte
  counter; the locales \<open>sized_reader\<close> and \<open>faithful_reader\<close> are the contract of \<open>AsyncRead\<close>,
  interpreted on the socket, the chain and the counter, and on the chunked decoder.

  \<^bold>\<open>Codecs and transcoding.\<close> \<^theory_text>\<open>Mp3_Codec\<close> and \<^theory_text>\<open>Vorbis_Codec\<close>: the frame and page parsers of
  \<open>rustyice-codec\<close> on bytes and machine words, the capture of the Vorbis header pages and its
  independence of fragmentation. \<^theory_text>\<open>Stream_Decoder\<close> and \<^theory_text>\<open>Transcode_Pipeline\<close>: \<open>decoder.rs\<close> (staging of
  whole frames, warm-up, drain), \<open>resampler.rs\<close>, \<open>encoder.rs\<close>, \<open>vorbis_encoder.rs\<close>, \<open>pipeline.rs\<close>.

  \<^bold>\<open>The stream path.\<close> \<^theory_text>\<open>Broadcast_Bus\<close>: \<open>bus.rs\<close> with the channel of tokio as the list of everything
  sent, a subscription as a position in it (locale \<open>broadcast_bus\<close>: what a bus promises its
  listeners). \<^theory_text>\<open>Mount_Model\<close>: \<open>mount.rs\<close>, the mount and its registry (locale \<open>keyed_registry\<close>, which the
  session store of \<^theory_text>\<open>Auth_Sessions\<close> satisfies too). \<^theory_text>\<open>Chunked_Decoder\<close>: \<open>chunked.rs\<close>, as it refines a
  grammar of chunked bodies. \<^theory_text>\<open>Icecast_Ingest\<close>: the reader task and the publisher of \<open>icecast.rs\<close>.
  \<^theory_text>\<open>Icy_Output\<close>: \<open>http_passthrough.rs\<close>, with the client's reading of the ICY framing as the inverse.
  \<^theory_text>\<open>Source_Head\<close> and \<^theory_text>\<open>Source_Session\<close>: \<open>source_headers.rs\<close>, \<open>source_layer.rs\<close> and \<open>source_protocol.rs\<close>
  from the first byte of a source to the end of its session. \<^theory_text>\<open>Listener_Session\<close>: \<open>stream_router.rs\<close>.
  \<^theory_text>\<open>App_State\<close>: what the handlers share (\<open>state.rs\<close>). \<^theory_text>\<open>Live_Stream\<close> runs these models on each
  other's output, from the body of the source to the audio a client takes from its connection; the
  locale \<open>body_reader\<close> is what the ingest needs of a reader, interpreted on both framings.

  \<^bold>\<open>Owners of a mount.\<close> \<^theory_text>\<open>Slot_Protocol\<close>: claim and release of the slot as single atomic writes, an
  inductive step relation over all interleavings, its invariants by rule induction. \<^theory_text>\<open>Owner_Wait\<close>: the
  waits relay and AutoDJ share, and the locale \<open>shutdown_task\<close>: a task with a rank that falls
  ends after a shutdown. \<^theory_text>\<open>Relay_Task\<close> and \<^theory_text>\<open>Relay_Facts\<close>: \<open>relay/mod.rs\<close>, \<open>client.rs\<close>, \<open>backoff.rs\<close>.
  \<^theory_text>\<open>Autodj_Media\<close>, \<^theory_text>\<open>Autodj_Player\<close> and \<^theory_text>\<open>Autodj_Facts\<close>: \<open>playlist.rs\<close>, \<open>tags.rs\<close>, \<open>decode.rs\<close>, \<open>player.rs\<close>.
  Relay and AutoDJ each are a step function on a program counter, and both interpret \<open>shutdown_task\<close>.

  \<^bold>\<open>Administration and configuration.\<close> \<^theory_text>\<open>Auth_Sessions\<close>: \<open>toml_bcrypt.rs\<close> and the admin's \<open>state.rs\<close>
  (locale \<open>auth_backend\<close>). \<^theory_text>\<open>Admin_Api\<close> and \<^theory_text>\<open>Admin_Views\<close>: \<open>router.rs\<close> and the handlers of \<open>api/\<close>.
  \<^theory_text>\<open>Config_Doc\<close>: a configuration as a TOML tree, read and written as the serde attributes of
  \<open>config.rs\<close> declare, with the typing of what can be read. \<^theory_text>\<open>Config_Write\<close> and \<^theory_text>\<open>Config_Facts\<close>:
  \<open>config_write.rs\<close>, its patches and the proof that editing the document is overlaying the patch on
  the configuration. \<^theory_text>\<open>Admin_Config\<close> and \<^theory_text>\<open>Save_Facts\<close>: \<open>api/config.rs\<close>. \<^theory_text>\<open>Config_Reload\<close> and
  \<^theory_text>\<open>Reload_Facts\<close>: start-up and hot reload; the locale \<open>keyed_stage\<close> is a stage that acts path by path,
  interpreted on each of the eight stages, so that a whole reload follows from its parts.
  \<^theory_text>\<open>Server_Main\<close>: \<open>main.rs\<close>, \<open>stream_listener.rs\<close>, the \<open>SIGHUP\<close> task and \<open>banner.rs\<close>. \<^theory_text>\<open>Load_Test\<close>: the crate
  \<open>rustyice-loadtest\<close>, a listener as its operations on the shared counters.

  \<^bold>\<open>The server as a whole.\<close> \<^theory_text>\<open>System_Steps\<close>: the operations of all tasks on the shared state as one step
  relation, with start-up and reload cut into the stages between which other tasks may run; the
  invariants of the components hold in every reachable state, and a cancellation reaches the task it
  is meant for and no other.

  \<^bold>\<open>What the lemmas show.\<close> Per component: an invariant and its preservation (bus, slot, mount,
  session store, server), the result of each operation on each branch, the equivalence with a
  reference where one exists (fragmentation of the network does not matter to the parsers, a pass
  of an AutoDJ is one continuous encoding, a reload equals a restart, an edit equals an overlay),
  round trips (ICY framing, configuration text), and where a promise fails: the properties of kind
  error and the two races of \<^theory_text>\<open>Slot_Protocol\<close> and \<^theory_text>\<open>Save_Facts\<close> exhibit the run on which it does.

  \<^bold>\<open>Loops, bounds and fuel.\<close> No definition carries fuel. Recursion over the polls of a socket ends
  because each poll consumes one (or the end of file is absorbing), recursion over buffered bytes
  because each round shortens the buffer; these are measures proved by \<^theory_text>\<open>termination\<close>. Three loops may run
  forever in the code and are \<^theory_text>\<open>partial_function (option)\<close>: the drain of the decoder, the resampler
  loop and the ICY writer with an interval of zero. For each the exact condition of
  returning or a sufficient one is a theorem. Words keep their width where the code's arithmetic may wrap or be cut off;
  sizes bounded by memory are natural numbers.

  \<^bold>\<open>Code outside the repository\<close> is an argument of the definitions that use it, in records such as
  the libraries of the AutoDJ and of the configuration editors: the TOML and JSON readers and
  printers, bcrypt, httparse, base64, the decoders of symphonia, the encoders LAME and libvorbis,
  the rubato resampler, reqwest, the file system, the clock and the random numbers. What a
  property needs of them is a hypothesis, and its witness instantiates them with concrete functions.
  Scheduling is explicit: an interleaving is a sequence of steps, and what another task writes
  meanwhile is an input of the step that reads it.

  \<^bold>\<open>Not modelled.\<close> The embedded web pages and their assets; the Prometheus exporter (\<open>metrics.rs\<close>)
  and the log lines; the signal futures of \<open>shutdown.rs\<close>, which only wait for the operating system; TLS and HTTP
  framing inside hyper and axum with their graceful shutdown; colours of the terminal output; floating-point
  rounding (a sample is what the decoder hands over); the tests, the test fixtures and the examples.
\<close>

end
